(* ===== verification/Prelude.thy ===== *)
theory Prelude
  imports Main "HOL-Library.List_Lexorder" "HOL-Library.Char_ord" "HOL-Library.Word"
begin

text \<open>
  Shared vocabulary of the development: control characters, the faults a C++ statement can end
  in, and the pieces of the C++ standard library that the web server uses (\<open>std::string\<close>
  searching and cutting, \<open>std::to_string\<close>, \<open>std::stoi\<close>, \<open>std::map\<close>). Boost is not part of the
  standard library: \<open>boost::replace_all\<close> is a parameter of the definitions that call it, and the
  locale \<open>boost_replace\<close> states its documented behaviour.
\<close>

section \<open>Characters\<close>

abbreviation NUL :: char where "NUL \<equiv> CHR 0x00"
abbreviation TAB :: char where "TAB \<equiv> CHR 0x09"
abbreviation LF :: char where "LF \<equiv> CHR 0x0A"
abbreviation CR :: char where "CR \<equiv> CHR 0x0D"
abbreviation DQUOTE :: char where "DQUOTE \<equiv> CHR 0x22"
abbreviation SQUOTE :: char where "SQUOTE \<equiv> CHR 0x27"
abbreviation BQUOTE :: char where "BQUOTE \<equiv> CHR 0x60"
abbreviation crlf :: string where "crlf \<equiv> [CR, LF]"

text \<open>Plain \<open>char\<close> is signed on the build platform: bytes from 128 on are negative.\<close>

definition schar :: "char \<Rightarrow> int" where
  "schar c = (let n = (of_char c :: nat) in if n < 128 then int n else int n - 256)"

definition isdigit :: "char \<Rightarrow> bool" where
  "isdigit c \<longleftrightarrow> 48 \<le> schar c \<and> schar c \<le> 57"

definition isspace :: "char \<Rightarrow> bool" where
  "isspace c \<longleftrightarrow> c = CHR '' '' \<or> (9 \<le> schar c \<and> schar c \<le> 13)"

definition isxdigit :: "char \<Rightarrow> bool" where
  "isxdigit c \<longleftrightarrow> isdigit c \<or> (65 \<le> schar c \<and> schar c \<le> 70) \<or> (97 \<le> schar c \<and> schar c \<le> 102)"

lemma of_char_bound: "(of_char c :: nat) < 256"
  by (metis nat_of_char_less_256)

lemma schar_range: "- 128 \<le> schar c \<and> schar c < 128"
  unfolding schar_def Let_def using of_char_bound [of c]
  by (cases "of_char c < (128::nat)"; simp only: if_True if_False; linarith)

section \<open>Faults\<close>

text \<open>
  What a statement of the program can end in instead of a value: an exception of the standard
  library, or undefined behaviour (a null dereference, a write or read past an array).
\<close>

datatype cpp_fault =
    OutOfRange
  | InvalidArgument
  | RuntimeError string
  | NullDeref
  | BufferOverflow
  | OutOfBoundsRead

fun rbind :: "'e + 'a \<Rightarrow> ('a \<Rightarrow> 'e + 'b) \<Rightarrow> 'e + 'b" where
  "rbind (Inl e) f = Inl e"
| "rbind (Inr a) f = f a"

named_theorems fault_simps

lemma rbind_Inr_iff [fault_simps]: "rbind r f = Inr b \<longleftrightarrow> (\<exists>a. r = Inr a \<and> f a = Inr b)"
  by (cases r) auto

lemma rbind_Inl_iff [fault_simps]:
  "rbind r f = Inl e \<longleftrightarrow> r = Inl e \<or> (\<exists>a. r = Inr a \<and> f a = Inl e)"
  by (cases r) auto

section \<open>std::string\<close>

fun starts_with :: "string \<Rightarrow> string \<Rightarrow> bool" where
  "starts_with [] s = True"
| "starts_with (p # ps) [] = False"
| "starts_with (p # ps) (c # cs) = (p = c \<and> starts_with ps cs)"

lemma starts_with_iff: "starts_with p s \<longleftrightarrow> (\<exists>r. s = p @ r)"
  by (induction p s rule: starts_with.induct) auto

lemma starts_with_append [simp]: "starts_with p (p @ r)"
  by (auto simp: starts_with_iff)

lemma starts_with_take: "starts_with p s \<longleftrightarrow> p = take (length p) s"
  by (metis append_eq_conv_conj append_take_drop_id starts_with_iff)

text \<open>\<open>s.find(pat)\<close>: the first position at which \<open>pat\<close> stands, \<open>None\<close> for \<open>npos\<close>.\<close>

fun find_str :: "string \<Rightarrow> string \<Rightarrow> nat option" where
  "find_str [] pat = (if pat = [] then Some 0 else None)"
| "find_str (c # cs) pat =
     (if starts_with pat (c # cs) then Some 0 else map_option Suc (find_str cs pat))"

lemma find_str_Some: "find_str s pat = Some i \<Longrightarrow> \<exists>u v. s = u @ pat @ v \<and> length u = i"
proof (induction s arbitrary: i)
  case Nil
  then show ?case by (auto split: if_splits)
next
  case (Cons c cs)
  show ?case
  proof (cases "starts_with pat (c # cs)")
    case True
    with Cons.prems show ?thesis by (auto simp: starts_with_iff)
  next
    case False
    with Cons.prems obtain j where "find_str cs pat = Some j" "i = Suc j" by auto
    with Cons.IH obtain u v where "cs = u @ pat @ v" "length u = j" by blast
    with \<open>i = Suc j\<close> have "c # cs = (c # u) @ pat @ v \<and> length (c # u) = i" by simp
    then show ?thesis by blast
  qed
qed

lemma find_str_None: "find_str s pat = None \<longleftrightarrow> (\<forall>u v. s \<noteq> u @ pat @ v)"
proof (induction s)
  case Nil
  then show ?case by auto
next
  case (Cons c cs)
  then show ?case
    by (auto simp: starts_with_iff Cons_eq_append_conv)
qed

lemma find_str_append_mid:
  assumes "\<And>u v. s @ [c] \<noteq> u @ [c] @ v \<or> u = s"
  shows "find_str (s @ c # t) [c] = Some (length s)"
  using assms
proof (induction s)
  case Nil
  then show ?case by simp
next
  case (Cons a s)
  have "a \<noteq> c"
    using Cons.prems [of "[]" "s @ [c]"] by auto
  moreover have "\<And>u v. s @ [c] \<noteq> u @ [c] @ v \<or> u = s"
    using Cons.prems by (metis append_Cons list.inject)
  ultimately show ?case using Cons.IH by simp
qed

text \<open>\<open>s.find(c)\<close> for a character, and \<open>s.find_first_of(" ")\<close> for one separator.\<close>

fun find_char :: "string \<Rightarrow> char \<Rightarrow> nat option" where
  "find_char [] c = None"
| "find_char (x # xs) c = (if x = c then Some 0 else map_option Suc (find_char xs c))"

lemma find_char_None [simp]: "find_char s c = None \<longleftrightarrow> c \<notin> set s"
  by (induction s) auto

lemma find_char_mid: "c \<notin> set s \<Longrightarrow> find_char (s @ c # t) c = Some (length s)"
  by (induction s) auto

text \<open>\<open>s.find_last_of(".")\<close>.\<close>

definition find_last_char :: "string \<Rightarrow> char \<Rightarrow> nat option" where
  "find_last_char s c = map_option (\<lambda>i. length s - 1 - i) (find_char (rev s) c)"

lemma find_last_char_mid: "c \<notin> set t \<Longrightarrow> find_last_char (s @ c # t) c = Some (length s)"
  by (simp add: find_last_char_def find_char_mid)

text \<open>\<open>s.substr(pos, n)\<close> throws \<open>std::out_of_range\<close> when \<open>pos\<close> is past the end.\<close>

definition substr :: "string \<Rightarrow> nat \<Rightarrow> nat \<Rightarrow> cpp_fault + string" where
  "substr s pos n = (if length s < pos then Inl OutOfRange else Inr (take n (drop pos s)))"

text \<open>\<open>size_t\<close> is 64 bits wide: \<open>npos\<close> is its largest value and subtraction wraps.\<close>

definition npos :: nat where
  "npos = 18446744073709551615"

definition size_sub :: "nat \<Rightarrow> nat \<Rightarrow> nat" where
  "size_sub a b = (a + 2 ^ 64 - b) mod 2 ^ 64"

definition size_add :: "nat \<Rightarrow> nat \<Rightarrow> nat" where
  "size_add a b = (a + b) mod 2 ^ 64"

lemma size_sub_ge:
  assumes "b \<le> a" "a < 2 ^ 64"
  shows "size_sub a b = a - b"
proof -
  have "a + 2 ^ 64 - b = (a - b) + 2 ^ 64" using assms(1) by simp
  then show ?thesis using assms by (simp only: size_sub_def mod_add_self2) simp
qed

lemma size_sub_lt: "a < b \<Longrightarrow> b < 2 ^ 64 \<Longrightarrow> size_sub a b = a + 2 ^ 64 - b"
  by (simp add: size_sub_def)

lemma size_add_small: "a + b < 2 ^ 64 \<Longrightarrow> size_add a b = a + b"
  by (simp add: size_add_def)

text \<open>A C string read from memory: the bytes before the first NUL, if there is one.\<close>

fun c_string :: "string \<Rightarrow> string option" where
  "c_string [] = None"
| "c_string (c # cs) = (if c = NUL then Some [] else map_option ((#) c) (c_string cs))"

lemma c_string_None [simp]: "c_string m = None \<longleftrightarrow> NUL \<notin> set m"
  by (induction m) auto

lemma c_string_mid: "NUL \<notin> set s \<Longrightarrow> c_string (s @ NUL # t) = Some s"
  by (induction s) auto

lemma c_string_Some: "c_string m = Some s \<longleftrightarrow> NUL \<notin> set s \<and> (\<exists>t. m = s @ NUL # t)"
proof
  show "c_string m = Some s \<Longrightarrow> NUL \<notin> set s \<and> (\<exists>t. m = s @ NUL # t)"
    by (induction m arbitrary: s) (auto split: if_splits)
qed (auto simp: c_string_mid)

lemma c_string_takeWhile: "NUL \<in> set m \<Longrightarrow> c_string m = Some (takeWhile (\<lambda>c. c \<noteq> NUL) m)"
  by (induction m) auto

lemma takeWhile_terminated [simp]: "takeWhile (\<lambda>c. c \<noteq> x) (s @ [x]) = takeWhile (\<lambda>c. c \<noteq> x) s"
  by (induction s) auto

section \<open>std::to_string and std::stoi\<close>

definition digit_char :: "nat \<Rightarrow> char" where
  "digit_char d = char_of (48 + d)"

fun to_string :: "nat \<Rightarrow> string" where
  "to_string n = (if n < 10 then [digit_char n] else to_string (n div 10) @ [digit_char (n mod 10)])"

declare to_string.simps [simp del]

definition int_to_string :: "int \<Rightarrow> string" where
  "int_to_string i = (if i < 0 then CHR ''-'' # to_string (nat (- i)) else to_string (nat i))"

definition digit_val :: "char \<Rightarrow> int" where
  "digit_val c = schar c - 48"

definition dec_value :: "string \<Rightarrow> int" where
  "dec_value s = foldl (\<lambda>a c. 10 * a + digit_val c) 0 s"

lemma of_char_digit: "d < 10 \<Longrightarrow> of_char (digit_char d) = 48 + d"
  by (simp add: digit_char_def)

lemma digit_char_simps [simp]:
  "digit_char 0 = CHR ''0''" "digit_char (Suc 0) = CHR ''1''" "digit_char 1 = CHR ''1''"
  "digit_char 2 = CHR ''2''" "digit_char 3 = CHR ''3''" "digit_char 4 = CHR ''4''"
  "digit_char 5 = CHR ''5''" "digit_char 6 = CHR ''6''" "digit_char 7 = CHR ''7''"
  "digit_char 8 = CHR ''8''" "digit_char 9 = CHR ''9''"
  by (code_simp, simp?)+

lemma schar_digit: "d < 10 \<Longrightarrow> schar (digit_char d) = 48 + int d"
  by (simp add: schar_def Let_def of_char_digit)

lemma isdigit_digit: "d < 10 \<Longrightarrow> isdigit (digit_char d)"
  by (simp add: isdigit_def schar_digit)

lemma digit_val_digit: "d < 10 \<Longrightarrow> digit_val (digit_char d) = int d"
  by (simp add: digit_val_def schar_digit)

lemma to_string_digits: "\<forall>c \<in> set (to_string n). isdigit c"
proof (induction n rule: to_string.induct)
  case (1 n)
  then show ?case
    by (subst to_string.simps) (auto simp: isdigit_digit)
qed

lemma to_string_no_CR [simp]: "CR \<notin> set (to_string n)"
  using to_string_digits [of n] by (auto simp: isdigit_def schar_def)

lemma to_string_nonempty [simp]: "to_string n \<noteq> []"
  by (subst to_string.simps) simp

lemma dec_value_snoc: "dec_value (s @ [c]) = 10 * dec_value s + digit_val c"
  by (simp add: dec_value_def)

lemma dec_value_to_string: "dec_value (to_string n) = int n"
proof (induction n rule: to_string.induct)
  case (1 n)
  show ?case
  proof (cases "n < 10")
    case True
    then show ?thesis
      by (subst to_string.simps) (simp add: dec_value_def digit_val_digit)
  next
    case False
    with "1.IH" have "dec_value (to_string (n div 10)) = int (n div 10)" by simp
    with False show ?thesis
      by (subst to_string.simps)
         (simp add: dec_value_snoc digit_val_digit zdiv_int zmod_int)
  qed
qed

lemma to_string_inject: "to_string m = to_string n \<longleftrightarrow> m = n"
  by (metis dec_value_to_string of_nat_eq_iff)

text \<open>
  \<open>std::stoi\<close> skips white space, takes an optional sign and the longest run of digits, throws
  \<open>std::invalid_argument\<close> when there is no digit and \<open>std::out_of_range\<close> when the value does not
  fit an \<open>int\<close>; what follows the digits is ignored.
\<close>

definition stoi_digits :: "int \<Rightarrow> string \<Rightarrow> cpp_fault + int" where
  "stoi_digits sg s =
     (let ds = takeWhile isdigit s; v = sg * dec_value ds
      in if ds = [] then Inl InvalidArgument
         else if v < - (2 ^ 31) \<or> 2 ^ 31 \<le> v then Inl OutOfRange
         else Inr v)"

definition stoi :: "string \<Rightarrow> cpp_fault + int" where
  "stoi s =
     (case dropWhile isspace s of
        [] \<Rightarrow> Inl InvalidArgument
      | c # cs \<Rightarrow>
          (if c = CHR ''-'' then stoi_digits (- 1) cs
           else if c = CHR ''+'' then stoi_digits 1 cs
           else stoi_digits 1 (c # cs)))"

lemma isdigit_not_space: "isdigit c \<Longrightarrow> \<not> isspace c"
  by (auto simp: isdigit_def isspace_def schar_def)

lemma isdigit_not_sign: "isdigit c \<Longrightarrow> c \<noteq> CHR ''-'' \<and> c \<noteq> CHR ''+''"
  by (auto simp: isdigit_def schar_def)

lemma stoi_digits_only:
  assumes "s \<noteq> []" "\<forall>c \<in> set s. isdigit c"
  shows "stoi (s @ t) = stoi_digits 1 (s @ t)"
proof -
  obtain c cs where s: "s = c # cs" using assms(1) by (cases s) auto
  with assms(2) have "isdigit c" by simp
  with s show ?thesis
    by (simp add: stoi_def isdigit_not_space isdigit_not_sign)
qed

lemma stoi_to_string: "n < 2 ^ 31 \<Longrightarrow> stoi (to_string n) = Inr (int n)"
proof -
  assume n: "n < 2 ^ 31"
  have tw: "takeWhile isdigit (to_string n) = to_string n"
    using to_string_digits [of n] by simp
  have "stoi_digits 1 (to_string n) = Inr (int n)"
    using n by (simp add: stoi_digits_def dec_value_to_string Let_def tw)
  then show ?thesis
    using stoi_digits_only [of "to_string n" "[]"] by (simp add: to_string_digits)
qed

section \<open>std::map with string keys\<close>

text \<open>
  A \<open>std::map<std::string, T>\<close> is walked in key order (byte-wise lexicographic), so it is kept as
  a list of pairs with strictly increasing keys. \<open>smap_at\<close> is \<open>m[k]\<close> as an rvalue: a key that is
  absent is inserted with the default value.
\<close>

type_synonym 'v smap = "(string \<times> 'v) list"

fun smap_find :: "'v smap \<Rightarrow> string \<Rightarrow> 'v option" where
  "smap_find [] k = None"
| "smap_find ((a, v) # m) k = (if k = a then Some v else smap_find m k)"

fun smap_set :: "string \<Rightarrow> 'v \<Rightarrow> 'v smap \<Rightarrow> 'v smap" where
  "smap_set k v [] = [(k, v)]"
| "smap_set k v ((a, w) # m) =
     (if k = a then (k, v) # m
      else if k < a then (k, v) # (a, w) # m
      else (a, w) # smap_set k v m)"

definition smap_at :: "'v \<Rightarrow> string \<Rightarrow> 'v smap \<Rightarrow> 'v \<times> 'v smap" where
  "smap_at d k m = (case smap_find m k of Some v \<Rightarrow> (v, m) | None \<Rightarrow> (d, smap_set k d m))"

definition smap_ok :: "'v smap \<Rightarrow> bool" where
  "smap_ok m \<longleftrightarrow> sorted_wrt (<) (map fst m)"

text \<open>The contract of an ordered map, and what its clients derive from it.\<close>

locale ordered_map =
  fixes empty :: "'m"
    and lookup :: "'m \<Rightarrow> string \<Rightarrow> 'v option"
    and set_key :: "string \<Rightarrow> 'v \<Rightarrow> 'm \<Rightarrow> 'm"
    and entries :: "'m \<Rightarrow> (string \<times> 'v) list"
    and invar :: "'m \<Rightarrow> bool"
  assumes lookup_empty: "lookup empty k = None"
    and lookup_set: "lookup (set_key k v m) k' = (if k' = k then Some v else lookup m k')"
    and entries_lookup: "map_of (entries m) = lookup m"
    and entries_sorted: "invar m \<Longrightarrow> sorted_wrt (<) (map fst (entries m))"
    and invar_empty: "invar empty"
    and invar_set: "invar m \<Longrightarrow> invar (set_key k v m)"
begin

definition set_all :: "(string \<times> 'v) list \<Rightarrow> 'm \<Rightarrow> 'm" where
  "set_all kvs m = fold (\<lambda>(k, v). set_key k v) kvs m"

lemma lookup_set_all: "lookup (set_all kvs m) k = (lookup m ++ map_of (rev kvs)) k"
proof (induction kvs arbitrary: m)
  case Nil
  then show ?case by (simp add: set_all_def)
next
  case (Cons kv kvs)
  obtain a v where kv: "kv = (a, v)" by (cases kv)
  have "lookup (set_all (kv # kvs) m) k = (lookup (set_key a v m) ++ map_of (rev kvs)) k"
    using Cons.IH by (simp add: set_all_def kv)
  then show ?case
    by (auto simp: map_add_def lookup_set kv split: option.splits)
qed

lemma invar_set_all: "invar m \<Longrightarrow> invar (set_all kvs m)"
  by (induction kvs arbitrary: m) (auto simp: set_all_def invar_set)

lemma keys_distinct: "invar m \<Longrightarrow> distinct (map fst (entries m))"
  using entries_sorted [of m] by (auto simp: strict_sorted_iff)

lemma entry_iff_lookup: "invar m \<Longrightarrow> (k, v) \<in> set (entries m) \<longleftrightarrow> lookup m k = Some v"
  using keys_distinct [of m] by (simp add: map_of_eq_Some_iff flip: entries_lookup)

lemma entries_unique:
  assumes "invar m" "invar m'" "lookup m = lookup m'"
  shows "entries m = entries m'"
proof (rule map_sorted_distinct_set_unique [where f = fst])
  show "set (entries m) = set (entries m')"
    using assms by (auto simp: entry_iff_lookup)
  then show "inj_on fst (set (entries m) \<union> set (entries m'))"
    using keys_distinct [OF assms(1)] by (simp add: distinct_map)
qed (use assms entries_sorted in \<open>auto simp: strict_sorted_iff\<close>)

end

lemma smap_find_map_of: "map_of m = smap_find m"
  by (rule ext, rule sym) (induct_tac rule: smap_find.induct, auto)

lemma smap_find_set: "smap_find (smap_set k v m) k' = (if k' = k then Some v else smap_find m k')"
  by (induction k v m rule: smap_set.induct) auto

lemma fst_smap_set: "set (map fst (smap_set k v m)) = insert k (set (map fst m))"
  by (induction k v m rule: smap_set.induct) auto

lemma smap_ok_set: "smap_ok m \<Longrightarrow> smap_ok (smap_set k v m)"
proof (induction k v m rule: smap_set.induct)
  case (1 k v)
  then show ?case by (simp add: smap_ok_def)
next
  case (2 k v a w m)
  have less: "k < b" if "k < a" "a < b" for b :: string
    using that by (rule order.strict_trans)
  have fsts: "fst ` set (smap_set k v m) = insert k (fst ` set m)"
    using fst_smap_set [of k v m] by simp
  from 2 show ?case
    by (auto simp: smap_ok_def fsts intro: less)
qed

interpretation std_map: ordered_map "[]" smap_find smap_set "\<lambda>m. m" smap_ok
  by unfold_locales (simp_all add: smap_find_set smap_find_map_of smap_ok_def smap_ok_set [unfolded smap_ok_def])

lemma smap_at_find: "fst (smap_at d k m) = (case smap_find m k of Some v \<Rightarrow> v | None \<Rightarrow> d)"
  by (simp add: smap_at_def split: option.splits)

lemma smap_ok_Nil [simp]: "smap_ok []"
  by (simp add: smap_ok_def)

section \<open>boost::replace_all\<close>

text \<open>
  Documented behaviour: every occurrence of a non-empty search string is replaced, scanning from
  the left and going on after each occurrence.
\<close>

locale boost_replace =
  fixes replace_all :: "string \<Rightarrow> string \<Rightarrow> string \<Rightarrow> string"
  assumes replace_nil: "pat \<noteq> [] \<Longrightarrow> replace_all [] pat fmt = []"
    and replace_hit: "pat \<noteq> [] \<Longrightarrow> replace_all (pat @ s) pat fmt = fmt @ replace_all s pat fmt"
    and replace_miss:
      "pat \<noteq> [] \<Longrightarrow> \<not> starts_with pat (c # s) \<Longrightarrow>
         replace_all (c # s) pat fmt = c # replace_all s pat fmt"
begin

lemma replace_char:
  "replace_all s [c] fmt = concat (map (\<lambda>x. if x = c then fmt else [x]) s)"
proof (induction s)
  case Nil
  then show ?case by (simp add: replace_nil)
next
  case (Cons a s)
  then show ?case
    using replace_hit [of "[c]" s fmt] replace_miss [of "[c]" a s fmt] by (cases "a = c") auto
qed

lemma replace_char_absent: "c \<notin> set s \<Longrightarrow> replace_all s [c] fmt = s"
  by (induction s) (auto simp: replace_char)

end

text \<open>A function with that behaviour, used where a theorem is applied at a concrete input.\<close>

function replace_ref :: "string \<Rightarrow> string \<Rightarrow> string \<Rightarrow> string" where
  "replace_ref s pat fmt =
     (if s = [] \<or> pat = [] then s
      else if starts_with pat s then fmt @ replace_ref (drop (length pat) s) pat fmt
      else hd s # replace_ref (tl s) pat fmt)"
  by pat_completeness auto
termination by (relation "measure (\<lambda>(s, pat, fmt). length s)") auto

declare replace_ref.simps [simp del]

interpretation ref_replace: boost_replace replace_ref
proof
  fix pat fmt s :: string and c :: char
  assume ne: "pat \<noteq> []"
  show "replace_ref [] pat fmt = []"
    by (simp add: replace_ref.simps)
  show "replace_ref (pat @ s) pat fmt = fmt @ replace_ref s pat fmt"
    using ne by (subst replace_ref.simps) simp
  show "replace_ref (c # s) pat fmt = c # replace_ref s pat fmt"
    if "\<not> starts_with pat (c # s)"
    using ne that by (subst replace_ref.simps) simp
qed

end
