(* ===== verification/Http.thy ===== *)
theory Http
  imports Prelude
begin

text \<open>
  The two values that travel through the server: the \<open>request\<close> of \<open>include/http/request.h\<close> and
  the \<open>reply\<close> of \<open>include/http/reply.h\<close>, and the operations of \<open>src/http/reply.cc\<close> (status lines,
  stock replies, serialisation into buffers).
\<close>

section \<open>Requests\<close>

datatype method_type =
    GET_REQ | HEAD_REQ | POST_REQ | PUT_REQ | DELETE_REQ
  | CONNECT_REQ | OPTIONS_REQ | TRACE_REQ | PATCH_REQ

type_synonym i32 = "32 word"

text \<open>
  A \<open>request\<close> starts with its method and version numbers uninitialised: \<open>None\<close> stands for a method
  field that holds no enumerator, and the version fields of a new request are arbitrary.
\<close>

record request =
  req_method :: "method_type option"
  req_uri :: string
  req_headers :: "string smap"
  req_body :: string
  version_major :: i32
  version_minor :: i32

definition new_request :: "method_type option \<Rightarrow> i32 \<Rightarrow> i32 \<Rightarrow> request" where
  "new_request m ma mi =
     \<lparr>req_method = m, req_uri = [], req_headers = [], req_body = [],
      version_major = ma, version_minor = mi\<rparr>"

section \<open>Status codes\<close>

text \<open>
  \<open>Unlisted\<close> is a value of the enumeration's range that is no enumerator; \<open>static_cast\<close> from an
  integer can produce one.
\<close>

datatype status_code =
    Ok
  | Created
  | Accepted
  | No_content
  | Multiple_choices
  | Moved_permanently
  | Moved_temporarily
  | Not_modified
  | Bad_request
  | Unauthorized
  | Forbidden
  | Not_found
  | Internal_server_error
  | Not_implemented
  | Bad_gateway
  | Service_unavailable
  | Unlisted nat

fun status_value :: "status_code \<Rightarrow> nat" where
  "status_value Ok = 200"
| "status_value Created = 201"
| "status_value Accepted = 202"
| "status_value No_content = 204"
| "status_value Multiple_choices = 300"
| "status_value Moved_permanently = 301"
| "status_value Moved_temporarily = 302"
| "status_value Not_modified = 304"
| "status_value Bad_request = 400"
| "status_value Unauthorized = 401"
| "status_value Forbidden = 403"
| "status_value Not_found = 404"
| "status_value Internal_server_error = 500"
| "status_value Not_implemented = 501"
| "status_value Bad_gateway = 502"
| "status_value Service_unavailable = 503"
| "status_value (Unlisted n) = n"

definition status_of_int :: "nat \<Rightarrow> status_code" where
  "status_of_int n =
     (if n = 200 then Ok
      else if n = 201 then Created
      else if n = 202 then Accepted
      else if n = 204 then No_content
      else if n = 300 then Multiple_choices
      else if n = 301 then Moved_permanently
      else if n = 302 then Moved_temporarily
      else if n = 304 then Not_modified
      else if n = 400 then Bad_request
      else if n = 401 then Unauthorized
      else if n = 403 then Forbidden
      else if n = 404 then Not_found
      else if n = 500 then Internal_server_error
      else if n = 501 then Not_implemented
      else if n = 502 then Bad_gateway
      else if n = 503 then Service_unavailable
      else Unlisted n)"

lemma status_value_of_int [simp]: "status_value (status_of_int n) = n"
  by (simp add: status_of_int_def)

text \<open>\<open>status_strings::to_buffer\<close>.\<close>

fun status_line :: "status_code \<Rightarrow> string" where
  "status_line Ok = ''HTTP/1.0 200 OK'' @ crlf"
| "status_line Created = ''HTTP/1.0 201 Created'' @ crlf"
| "status_line Accepted = ''HTTP/1.0 202 Accepted'' @ crlf"
| "status_line No_content = ''HTTP/1.0 204 No Content'' @ crlf"
| "status_line Multiple_choices = ''HTTP/1.0 300 Multiple Choices'' @ crlf"
| "status_line Moved_permanently = ''HTTP/1.0 301 Moved Permanently'' @ crlf"
| "status_line Moved_temporarily = ''HTTP/1.0 302 Moved Temporarily'' @ crlf"
| "status_line Not_modified = ''HTTP/1.0 304 Not Modified'' @ crlf"
| "status_line Bad_request = ''HTTP/1.0 400 Bad Request'' @ crlf"
| "status_line Unauthorized = ''HTTP/1.0 401 Unauthorized'' @ crlf"
| "status_line Forbidden = ''HTTP/1.0 403 Forbidden'' @ crlf"
| "status_line Not_found = ''HTTP/1.0 404 Not Found'' @ crlf"
| "status_line Internal_server_error = ''HTTP/1.0 500 Internal Server Error'' @ crlf"
| "status_line Not_implemented = ''HTTP/1.0 501 Not Implemented'' @ crlf"
| "status_line Bad_gateway = ''HTTP/1.0 502 Bad Gateway'' @ crlf"
| "status_line Service_unavailable = ''HTTP/1.0 503 Service Unavailable'' @ crlf"
| "status_line (Unlisted n) = ''HTTP/1.0 500 Internal Server Error'' @ crlf"

section \<open>Replies\<close>

record reply =
  rep_code :: status_code
  rep_headers :: "string smap"
  rep_body :: string

text \<open>\<open>new reply()\<close> value-initialises: the code is 0, no enumerator.\<close>

definition new_reply :: reply where
  "new_reply = \<lparr>rep_code = Unlisted 0, rep_headers = [], rep_body = []\<rparr>"

definition set_header :: "string \<Rightarrow> string \<Rightarrow> reply \<Rightarrow> reply" where
  "set_header k v r = r\<lparr>rep_headers := smap_set k v (rep_headers r)\<rparr>"

definition get_header :: "reply \<Rightarrow> string \<Rightarrow> string option" where
  "get_header r k = smap_find (rep_headers r) k"

text \<open>\<open>reply::to_buffers\<close>; the bytes on the wire are the buffers one after the other.\<close>

definition header_buffers :: "string \<times> string \<Rightarrow> string list" where
  "header_buffers kv = [fst kv, '': '', snd kv, crlf]"

definition to_buffers :: "reply \<Rightarrow> string list" where
  "to_buffers r =
     [status_line (rep_code r)] @ concat (map header_buffers (rep_headers r)) @ [crlf] @ [rep_body r]"

definition wire :: "reply \<Rightarrow> string" where
  "wire r = concat (to_buffers r)"

text \<open>\<open>stock_replies::to_string\<close> and \<open>reply::stock_reply\<close>.\<close>

fun stock_body :: "status_code \<Rightarrow> string" where
  "stock_body Ok =
     []"
| "stock_body Created =
     ''<html><head><title>Created</title></head><body><h1>201 Created</h1></body></html>''"
| "stock_body Accepted =
     ''<html><head><title>Accepted</title></head><body><h1>202 Accepted</h1></body></html>''"
| "stock_body No_content =
     ''<html><head><title>No Content</title></head><body><h1>204 Content</h1></body></html>''"
| "stock_body Multiple_choices =
     ''<html><head><title>Multiple Choices</title></head><body><h1>300 Multiple Choices</h1></body></html>''"
| "stock_body Moved_permanently =
     ''<html><head><title>Moved Permanently</title></head><body><h1>301 Moved Permanently</h1></body></html>''"
| "stock_body Moved_temporarily =
     ''<html><head><title>Moved Temporarily</title></head><body><h1>302 Moved Temporarily</h1></body></html>''"
| "stock_body Not_modified =
     ''<html><head><title>Not Modified</title></head><body><h1>304 Not Modified</h1></body></html>''"
| "stock_body Bad_request =
     ''<html><head><title>Bad Request</title></head><body><h1>400 Bad Request</h1></body></html>''"
| "stock_body Unauthorized =
     ''<html><head><title>Unauthorized</title></head><body><h1>401 Unauthorized</h1></body></html>''"
| "stock_body Forbidden =
     ''<html><head><title>Forbidden</title></head><body><h1>403 Forbidden</h1></body></html>''"
| "stock_body Not_found =
     ''<html><head><title>Not Found</title></head><body><h1>404 Not Found</h1></body></html>''"
| "stock_body Internal_server_error =
     ''<html><head><title>Internal Server Error</title></head><body><h1>500 Internal Server Error</h1></body></html>''"
| "stock_body Not_implemented =
     ''<html><head><title>Not Implemented</title></head><body><h1>501 Not Implemented</h1></body></html>''"
| "stock_body Bad_gateway =
     ''<html><head><title>Bad Gateway</title></head><body><h1>502 Bad Gateway</h1></body></html>''"
| "stock_body Service_unavailable =
     ''<html><head><title>Service Unavailable</title></head><body><h1>503 Service Unavailable</h1></body></html>''"
| "stock_body (Unlisted n) =
     ''<html><head><title>Internal Server Error</title></head><body><h1>500 Internal Server Error</h1></body></html>''"

definition stock_reply :: "(string \<Rightarrow> string \<Rightarrow> string \<Rightarrow> string) \<Rightarrow> status_code \<Rightarrow> reply" where
  "stock_reply replace_all code =
     (let data = replace_all (stock_body code) [LF] crlf @ crlf;
          rep = new_reply\<lparr>rep_code := code, rep_body := data\<rparr>;
          rep = set_header ''Content-Length'' (to_string (length data)) rep
      in set_header ''Content-Type'' ''text/html'' rep)"

section \<open>Lemmas\<close>

definition content_length_ok :: "reply \<Rightarrow> bool" where
  "content_length_ok r \<longleftrightarrow> get_header r ''Content-Length'' = Some (to_string (length (rep_body r)))"

lemma get_header_set [simp]:
  "get_header (set_header k v r) k' = (if k' = k then Some v else get_header r k')"
  by (simp add: get_header_def set_header_def smap_find_set)

lemma set_header_body [simp]: "rep_body (set_header k v r) = rep_body r"
  and set_header_code [simp]: "rep_code (set_header k v r) = rep_code r"
  by (simp_all add: set_header_def)

lemma new_reply_simps [simp]:
  "rep_body new_reply = []" "rep_headers new_reply = []" "get_header new_reply k = None"
  by (simp_all add: new_reply_def get_header_def)

lemma get_header_body [simp]: "get_header (r\<lparr>rep_body := b\<rparr>) k = get_header r k"
  and get_header_code [simp]: "get_header (r\<lparr>rep_code := c\<rparr>) k = get_header r k"
  by (simp_all add: get_header_def)

lemma stock_body_no_lf: "LF \<notin> set (stock_body c)"
  by (cases c) simp_all

subsection \<open>Framing on the wire\<close>

definition header_line :: "string \<times> string \<Rightarrow> string" where
  "header_line kv = fst kv @ '': '' @ snd kv"

definition end_lines :: "string list \<Rightarrow> string" where
  "end_lines ls = concat (map (\<lambda>l. l @ crlf) ls)"

definition status_text :: "status_code \<Rightarrow> string" where
  "status_text c = take (length (status_line c) - 2) (status_line c)"

lemma status_line_text: "status_line c = status_text c @ crlf"
  and status_text_clean: "CR \<notin> set (status_text c)"
  and status_text_nonempty: "status_text c \<noteq> []"
  by (cases c; simp add: status_text_def)+

lemma concat_header_buffers:
  "concat (concat (map header_buffers hs)) = end_lines (map header_line hs)"
  by (induction hs) (simp_all add: header_buffers_def header_line_def end_lines_def)

lemma wire_lines:
  "wire r = end_lines (status_text (rep_code r) # map header_line (rep_headers r)) @ crlf @ rep_body r"
  by (simp add: wire_def to_buffers_def concat_header_buffers)
     (simp add: end_lines_def status_line_text)

lemma find_skip:
  "c \<notin> set l \<Longrightarrow> find_str (l @ s) (c # pat) = map_option ((+) (length l)) (find_str s (c # pat))"
proof (induction l)
  case Nil
  then show ?case by (simp add: option.map_ident)
next
  case (Cons a l)
  then show ?case by (cases "find_str s (c # pat)") auto
qed

lemma find_blank_line:
  assumes "ls \<noteq> []" "\<forall>l \<in> set ls. l \<noteq> [] \<and> CR \<notin> set l"
  shows "find_str (end_lines ls @ crlf @ b) (crlf @ crlf) = Some (length (end_lines ls) - 2)"
  using assms
proof (induction ls)
  case Nil
  then show ?case by simp
next
  case (Cons l ls)
  then have l: "CR \<notin> set l" by simp
  show ?case
  proof (cases ls)
    case Nil
    then show ?thesis using find_skip [OF l, of "crlf @ crlf @ b" "[LF, CR, LF]"]
      by (simp add: end_lines_def)
  next
    case (Cons l' ls')
    with Cons.prems obtain a t where l': "l' = a # t" "a \<noteq> CR" by (cases l') auto
    have "find_str (crlf @ end_lines ls @ crlf @ b) (crlf @ crlf)
        = map_option ((+) 2) (find_str (end_lines ls @ crlf @ b) (crlf @ crlf))"
      using l' by (simp add: end_lines_def local.Cons option.map_comp comp_def)
    also have "find_str (end_lines ls @ crlf @ b) (crlf @ crlf) = Some (length (end_lines ls) - 2)"
      using Cons.IH Cons.prems local.Cons by simp
    finally have "find_str (crlf @ end_lines ls @ crlf @ b) (crlf @ crlf)
        = Some (length (end_lines ls))"
      by (simp add: end_lines_def local.Cons)
    then show ?thesis
      using find_skip [OF l, of "crlf @ end_lines ls @ crlf @ b" "[LF, CR, LF]"]
      by (simp add: end_lines_def)
  qed
qed

definition clean_headers :: "reply \<Rightarrow> bool" where
  "clean_headers r \<longleftrightarrow> (\<forall>(k, v) \<in> set (rep_headers r). CR \<notin> set k \<and> CR \<notin> set v)"

lemma wire_split:
  assumes "clean_headers r"
  defines "h \<equiv> length (end_lines (status_text (rep_code r) # map header_line (rep_headers r))) - 2"
  shows "find_str (wire r) (crlf @ crlf) = Some h" "drop (h + 4) (wire r) = rep_body r"
proof -
  let ?ls = "status_text (rep_code r) # map header_line (rep_headers r)"
  have "\<forall>l \<in> set ?ls. l \<noteq> [] \<and> CR \<notin> set l"
    using assms(1) status_text_clean [of "rep_code r"] status_text_nonempty [of "rep_code r"]
    by (auto simp: clean_headers_def header_line_def)
  then show "find_str (wire r) (crlf @ crlf) = Some h"
    unfolding h_def wire_lines by (intro find_blank_line) simp_all
  have "2 \<le> length (end_lines ?ls)" by (simp add: end_lines_def)
  then have "h + 4 = length (end_lines ?ls @ crlf)" by (simp add: h_def)
  then show "drop (h + 4) (wire r) = rep_body r"
    unfolding wire_lines by (metis append.assoc append_eq_conv_conj)
qed

subsection \<open>The contract of a reply\<close>

text \<open>
  What a client relies on, for any way of making replies: on its domain the maker announces the
  length of the body it made, and no header holds a carriage return. Then the client finds the blank
  line, and the announced length is the number of bytes after it.
\<close>

locale framed_reply =
  fixes make :: "'a \<Rightarrow> reply"
    and domain :: "'a \<Rightarrow> bool"
  assumes announces: "domain x \<Longrightarrow> content_length_ok (make x)"
    and clean: "domain x \<Longrightarrow> clean_headers (make x)"
begin

lemma client_reads:
  assumes "domain x" "length (rep_body (make x)) < 2 ^ 31"
  shows "\<exists>h l. find_str (wire (make x)) (crlf @ crlf) = Some h
    \<and> get_header (make x) ''Content-Length'' = Some l
    \<and> stoi l = Inr (int (length (drop (h + 4) (wire (make x)))))
    \<and> drop (h + 4) (wire (make x)) = rep_body (make x)"
proof -
  obtain h where "find_str (wire (make x)) (crlf @ crlf) = Some h" "drop (h + 4) (wire (make x)) = rep_body (make x)"
    using wire_split [OF clean [OF assms(1)]] by blast
  moreover have "stoi (to_string (length (rep_body (make x)))) = Inr (int (length (rep_body (make x))))"
    using assms(2) by (rule stoi_to_string)
  ultimately show ?thesis
    using announces [OF assms(1)] by (auto simp: content_length_ok_def simp del: length_drop)
qed

end

lemma stock_reply_body: "boost_replace f \<Longrightarrow> rep_body (stock_reply f c) = stock_body c @ crlf"
  by (simp add: stock_reply_def Let_def boost_replace.replace_char_absent [OF _ stock_body_no_lf])

lemma stock_reply_headers:
  "get_header (stock_reply f c) ''Content-Type'' = Some ''text/html''"
  "content_length_ok (stock_reply f c)" "clean_headers (stock_reply f c)" "rep_code (stock_reply f c) = c"
  by (simp_all add: stock_reply_def Let_def content_length_ok_def clean_headers_def set_header_def
      get_header_def less_char_def)

definition framed :: "reply \<Rightarrow> bool" where
  "framed r \<longleftrightarrow> content_length_ok r \<and> clean_headers r"

lemma framed_stock [simp]: "framed (stock_reply f c)"
  by (simp add: framed_def stock_reply_headers)

text \<open>The two ways the handlers fill in a reply: the body last, or the body first.\<close>

lemma framed_page [simp]:
  assumes "n = length b" "CR \<notin> set ct"
  shows "framed ((set_header ''Content-Type'' ct (set_header ''Content-Length'' (to_string n)
      (new_reply\<lparr>rep_code := c\<rparr>)))\<lparr>rep_body := b\<rparr>)"
    and "framed (set_header ''Content-Type'' ct (set_header ''Content-Length'' (to_string n)
      (new_reply\<lparr>rep_code := c, rep_body := b\<rparr>)))"
  using assms
  by (simp_all add: framed_def content_length_ok_def clean_headers_def set_header_def get_header_def
      less_char_def)

lemma stock_reply_short: "boost_replace f \<Longrightarrow> length (rep_body (stock_reply f c)) < 2 ^ 31"
  by (cases c) (simp_all add: stock_reply_body)

interpretation stock: framed_reply "\<lambda>(f, c). stock_reply f c" "\<lambda>(f, c). boost_replace f"
  by unfold_locales (auto simp: stock_reply_headers)

section \<open>Properties\<close>

text \<open>
  On the wire a reply can be cut apart again: when no header key or value holds a carriage
  return, the first blank line of the serialised reply is the one that \<open>to_buffers\<close> put before the
  body, so the bytes after it are exactly the body, whatever the body holds.
\<close>

theorem wire_body_recovered:
  assumes "clean_headers r"
  shows "\<exists>h. find_str (wire r) (crlf @ crlf) = Some h \<and> drop (h + 4) (wire r) = rep_body r"
  using wire_split [OF assms] by blast

theorem wire_body_recovered_witness:
  "\<exists>h. find_str (wire (set_header ''A'' ''b'' (new_reply\<lparr>rep_body := crlf @ crlf @ ''x''\<rparr>))) (crlf @ crlf)
        = Some h
     \<and> drop (h + 4) (wire (set_header ''A'' ''b'' (new_reply\<lparr>rep_body := crlf @ crlf @ ''x''\<rparr>)))
        = crlf @ crlf @ ''x''"
  using wire_body_recovered [of "set_header ''A'' ''b'' (new_reply\<lparr>rep_body := crlf @ crlf @ ''x''\<rparr>)"]
  by (simp add: clean_headers_def set_header_def new_reply_def)

text \<open>
  Every stock reply carries the code asked for, its HTML text with a line end added as its
  body, the content type \<open>text/html\<close>, and a \<open>Content-Length\<close> that reads back as the number of body
  bytes a client finds after the blank line on the wire.
\<close>

theorem stock_reply_framed:
  assumes "boost_replace replace_all"
  shows "rep_code (stock_reply replace_all c) = c
       \<and> rep_body (stock_reply replace_all c) = stock_body c @ crlf
       \<and> get_header (stock_reply replace_all c) ''Content-Type'' = Some ''text/html''
       \<and> (\<exists>h l. find_str (wire (stock_reply replace_all c)) (crlf @ crlf) = Some h
            \<and> get_header (stock_reply replace_all c) ''Content-Length'' = Some l
            \<and> stoi l = Inr (int (length (drop (h + 4) (wire (stock_reply replace_all c))))))"
  using stock.client_reads [of "(replace_all, c)"] assms stock_reply_headers [of replace_all c]
    stock_reply_body [OF assms, of c] stock_reply_short [OF assms, of c]
  by (auto simp del: length_drop)

theorem stock_reply_framed_witness:
  "rep_body (stock_reply replace_ref Not_found) = stock_body Not_found @ crlf"
  using stock_reply_framed [OF ref_replace.boost_replace_axioms, of Not_found] by simp

end
