(* ===== verification/Request_Parser.thy ===== *)
theory Request_Parser
  imports Http
begin

text \<open>
  \<open>src/http/request_parser.cc\<close>: the character classes, the character-driven state machine
  \<open>consume\<close>, the loop \<open>parse\<close> of \<open>include/http/request_parser.h\<close> and the method recogniser.
\<close>

section \<open>Character classes\<close>

definition is_char :: "int \<Rightarrow> bool" where
  "is_char c \<longleftrightarrow> 0 \<le> c \<and> c \<le> 127"

definition is_ctl :: "int \<Rightarrow> bool" where
  "is_ctl c \<longleftrightarrow> (0 \<le> c \<and> c \<le> 31) \<or> c = 127"

definition is_tspecial :: "int \<Rightarrow> bool" where
  "is_tspecial c \<longleftrightarrow> c \<in> set (map schar
     [CHR ''('', CHR '')'', CHR ''<'', CHR ''>'', CHR ''@'',
      CHR '','', CHR '';'', CHR '':'', CHR 0x5C, DQUOTE,
      CHR ''/'', CHR ''['', CHR '']'', CHR ''?'', CHR ''='',
      CHR ''{'', CHR ''}'', CHR '' '', TAB])"

definition is_digit :: "int \<Rightarrow> bool" where
  "is_digit c \<longleftrightarrow> 48 \<le> c \<and> c \<le> 57"

section \<open>The parser object\<close>

datatype result_type = Good | Bad | Indeterminate

datatype pstate =
    S_method_start
  | S_method
  | S_uri
  | S_http_version_h
  | S_http_version_t_1
  | S_http_version_t_2
  | S_http_version_p
  | S_http_version_slash
  | S_http_version_major_start
  | S_http_version_major
  | S_http_version_minor_start
  | S_http_version_minor
  | S_expecting_newline_1
  | S_header_line_start
  | S_header_lws
  | S_header_name
  | S_space_before_header_value
  | S_header_value
  | S_expecting_newline_2
  | S_expecting_newline_3

record request_parser =
  rp_state :: pstate
  temp_key :: string
  temp_value :: string

definition new_request_parser :: request_parser where
  "new_request_parser = \<lparr>rp_state = S_method_start, temp_key = [], temp_value = []\<rparr>"

definition reset_parser :: "request_parser \<Rightarrow> request_parser" where
  "reset_parser p = p\<lparr>rp_state := S_method_start\<rparr>"

text \<open>
  \<open>http_version_major * 10 + input - '0'\<close> on an \<open>int\<close>: 32 bits, wrapping around as the compiled
  code does when the digits overflow.
\<close>

definition version_digit :: "i32 \<Rightarrow> char \<Rightarrow> i32" where
  "version_digit v c = v * 10 + word_of_int (schar c) - 48"

section \<open>One character\<close>

definition bad_name_char :: "char \<Rightarrow> bool" where
  "bad_name_char c \<longleftrightarrow> \<not> is_char (schar c) \<or> is_ctl (schar c) \<or> is_tspecial (schar c)"

text \<open>The three moves of the machine: go to a state, stay in the state, refuse the character.\<close>

definition goto :: "pstate \<Rightarrow> request_parser \<Rightarrow> request \<Rightarrow> result_type \<times> request_parser \<times> request" where
  "goto s p r = (Indeterminate, p\<lparr>rp_state := s\<rparr>, r)"

definition stay :: "request_parser \<Rightarrow> request \<Rightarrow> result_type \<times> request_parser \<times> request" where
  "stay p r = (Indeterminate, p, r)"

definition refuse :: "request_parser \<Rightarrow> request \<Rightarrow> result_type \<times> request_parser \<times> request" where
  "refuse p r = (Bad, p, r)"

definition expect :: "char \<Rightarrow> char \<Rightarrow> pstate \<Rightarrow> request_parser \<Rightarrow> request
    \<Rightarrow> result_type \<times> request_parser \<times> request" where
  "expect c want s p r = (if c = want then goto s p r else refuse p r)"

definition store_header :: "request_parser \<Rightarrow> request \<Rightarrow> request" where
  "store_header p r = r\<lparr>req_headers := smap_set (temp_key p) (temp_value p) (req_headers r)\<rparr>"

definition clear_temps :: "request_parser \<Rightarrow> request_parser" where
  "clear_temps p = p\<lparr>temp_key := [], temp_value := []\<rparr>"

text \<open>The states from the start of a header line on; the \<open>default\<close> case of the switch is \<open>bad\<close>.\<close>

fun consume_header_in :: "pstate \<Rightarrow> request_parser \<Rightarrow> request \<Rightarrow> char
    \<Rightarrow> result_type \<times> request_parser \<times> request" where
  "consume_header_in S_header_line_start p r c =
     (if c = CR then
       (if temp_key p \<noteq> []
        then goto S_expecting_newline_3 (clear_temps p) (store_header p r)
        else goto S_expecting_newline_3 p r)
     else if req_headers r \<noteq> [] \<and> (c = CHR '' '' \<or> c = TAB) then goto S_header_lws p r
     else if bad_name_char c then refuse p r
     else goto S_header_name (p\<lparr>temp_key := temp_key p @ [c]\<rparr>) r)"
| "consume_header_in S_header_lws p r c =
     (if c = CR then goto S_expecting_newline_2 p r
     else if c = CHR '' '' \<or> c = TAB then stay p r
     else if is_ctl (schar c) then refuse p r
     else goto S_header_value (p\<lparr>temp_value := temp_value p @ [c]\<rparr>) r)"
| "consume_header_in S_header_name p r c =
     (if c = CHR '':'' then goto S_space_before_header_value p r
     else if bad_name_char c then refuse p r
     else stay (p\<lparr>temp_key := temp_key p @ [c]\<rparr>) r)"
| "consume_header_in S_space_before_header_value p r c =
     expect c (CHR '' '') S_header_value p r"
| "consume_header_in S_header_value p r c =
     (if c = CR then goto S_expecting_newline_2 p r
     else if is_ctl (schar c) then refuse p r
     else stay (p\<lparr>temp_value := temp_value p @ [c]\<rparr>) r)"
| "consume_header_in S_expecting_newline_2 p r c =
     (if c = LF then goto S_header_line_start (clear_temps p) (store_header p r)
     else refuse p r)"
| "consume_header_in S_expecting_newline_3 p r c =
     (if c = LF then (Good, p, r) else refuse p r)"
| "consume_header_in s p r c = refuse p r"

fun consume_in :: "pstate \<Rightarrow> request_parser \<Rightarrow> request \<Rightarrow> char
    \<Rightarrow> result_type \<times> request_parser \<times> request" where
  "consume_in S_method_start p r c =
     (if bad_name_char c then refuse p r else goto S_method p r)"
| "consume_in S_method p r c =
     (if c = CHR '' '' then goto S_uri p r
     else if bad_name_char c then refuse p r
     else stay p r)"
| "consume_in S_uri p r c =
     (if c = CHR '' '' then goto S_http_version_h p r
     else if is_ctl (schar c) then refuse p r
     else stay p (r\<lparr>req_uri := req_uri r @ [c]\<rparr>))"
| "consume_in S_http_version_h p r c =
     expect c (CHR ''H'') S_http_version_t_1 p r"
| "consume_in S_http_version_t_1 p r c =
     expect c (CHR ''T'') S_http_version_t_2 p r"
| "consume_in S_http_version_t_2 p r c =
     expect c (CHR ''T'') S_http_version_p p r"
| "consume_in S_http_version_p p r c =
     expect c (CHR ''P'') S_http_version_slash p r"
| "consume_in S_http_version_slash p r c =
     (if c = CHR ''/''
     then goto S_http_version_major_start p (r\<lparr>version_major := 0, version_minor := 0\<rparr>)
     else refuse p r)"
| "consume_in S_http_version_major_start p r c =
     (if is_digit (schar c)
     then goto S_http_version_major p (r\<lparr>version_major := version_digit (version_major r) c\<rparr>)
     else refuse p r)"
| "consume_in S_http_version_major p r c =
     (if c = CHR ''.'' then goto S_http_version_minor_start p r
     else if is_digit (schar c)
     then stay p (r\<lparr>version_major := version_digit (version_major r) c\<rparr>)
     else refuse p r)"
| "consume_in S_http_version_minor_start p r c =
     (if is_digit (schar c)
     then goto S_http_version_minor p (r\<lparr>version_minor := version_digit (version_minor r) c\<rparr>)
     else refuse p r)"
| "consume_in S_http_version_minor p r c =
     (if c = CR then goto S_expecting_newline_1 p r
     else if is_digit (schar c)
     then stay p (r\<lparr>version_minor := version_digit (version_minor r) c\<rparr>)
     else refuse p r)"
| "consume_in S_expecting_newline_1 p r c =
     (if c = LF then goto S_header_line_start (clear_temps p) r else refuse p r)"
| "consume_in s p r c = consume_header_in s p r c"

definition consume :: "request_parser \<Rightarrow> request \<Rightarrow> char \<Rightarrow> result_type \<times> request_parser \<times> request" where
  "consume p r c = consume_in (rp_state p) p r c"

section \<open>A whole buffer\<close>

text \<open>\<open>parse_method\<close> copies three bytes and compares them as a C string.\<close>

definition method_table :: "(string \<times> method_type) list" where
  "method_table =
     [(''GET'', GET_REQ), (''HEA'', HEAD_REQ), (''POS'', POST_REQ), (''PUT'', PUT_REQ),
      (''DEL'', DELETE_REQ), (''CON'', CONNECT_REQ), (''OPT'', OPTIONS_REQ),
      (''TRA'', TRACE_REQ), (''PAT'', PATCH_REQ)]"

definition parse_method :: "request \<Rightarrow> string \<Rightarrow> request" where
  "parse_method r mem =
     (case map_of method_table (the (c_string (take 3 mem @ [NUL]))) of
        Some m \<Rightarrow> r\<lparr>req_method := Some m\<rparr>
      | None \<Rightarrow> r)"

text \<open>The loop over \<open>[begin, end)\<close>: the result, the input left, and the two objects.\<close>

fun parse_chars :: "request_parser \<Rightarrow> request \<Rightarrow> string
    \<Rightarrow> result_type \<times> string \<times> request_parser \<times> request" where
  "parse_chars p r [] = (Indeterminate, [], p, r)"
| "parse_chars p r (c # cs) =
     (case consume p r c of (res, p', r') \<Rightarrow>
        if res = Good \<or> res = Bad then (res, cs, p', r') else parse_chars p' r' cs)"

text \<open>
  \<open>parse\<close> gets two pointers into an array: \<open>mem\<close> is the array from \<open>begin\<close> on, \<open>n\<close> the distance to
  \<open>end\<close>. The assignment \<open>req.body_ = begin\<close> reads a C string, whatever \<open>end\<close> is.
\<close>

definition parse :: "request_parser \<Rightarrow> request \<Rightarrow> string \<Rightarrow> nat
    \<Rightarrow> cpp_fault + (result_type \<times> string \<times> request_parser \<times> request)" where
  "parse p r mem n =
     (case c_string mem of
        None \<Rightarrow> Inl OutOfBoundsRead
      | Some b \<Rightarrow>
          (if length mem < 3 \<or> length mem < n then Inl OutOfBoundsRead
           else Inr (parse_chars p (parse_method (r\<lparr>req_body := b\<rparr>) mem) (take n mem))))"

section \<open>Runs of the machine\<close>

named_theorems parser_simps

lemmas move_defs = goto_def stay_def refuse_def expect_def store_header_def clear_temps_def

lemma parse_chars_Indeterminate_rest:
  "parse_chars p r s = (Indeterminate, rest, p', r') \<Longrightarrow> rest = []"
  by (induction p r s rule: parse_chars.induct) (auto split: prod.splits if_splits)

lemma parse_chars_append:
  "parse_chars p r s = (Indeterminate, rest, p', r') \<Longrightarrow> parse_chars p r (s @ t) = parse_chars p' r' t"
  by (induction p r s rule: parse_chars.induct) (auto split: prod.splits if_splits)

lemma parse_chars_append_stop:
  "parse_chars p r s = (res, rest, p', r') \<Longrightarrow> res \<noteq> Indeterminate \<Longrightarrow>
     parse_chars p r (s @ t) = (res, rest @ t, p', r')"
  by (induction p r s rule: parse_chars.induct) (auto split: prod.splits if_splits)

lemma parse_chars_stop_consumed:
  assumes "parse_chars p r s = (res, rest, p', r')" "res \<noteq> Indeterminate"
  shows "\<exists>used. s = used @ rest \<and> used \<noteq> [] \<and> parse_chars p r used = (res, [], p', r')"
  using assms
proof (induction p r s rule: parse_chars.induct)
  case (1 p r)
  then show ?case by simp
next
  case (2 p r c cs)
  obtain r1 p1 q1 where c: "consume p r c = (r1, p1, q1)" by (cases "consume p r c")
  show ?case
  proof (cases "r1 = Good \<or> r1 = Bad")
    case True
    with c 2 show ?thesis by (intro exI [of _ "[c]"]) auto
  next
    case False
    with c 2 obtain used where "cs = used @ rest" "parse_chars p1 q1 used = (res, [], p', r')"
      by auto
    with c False show ?thesis by (intro exI [of _ "c # used"]) auto
  qed
qed

lemma special_chars [parser_simps]:
  "bad_name_char (CHR '' '')" "bad_name_char TAB" "bad_name_char CR" "bad_name_char LF"
  "bad_name_char (CHR '':'')" "bad_name_char NUL"
  "is_ctl (schar CR)" "is_ctl (schar LF)" "is_ctl (schar NUL)" "\<not> is_ctl (schar (CHR '' ''))"
  "\<not> is_digit (schar (CHR ''.''))" "\<not> is_digit (schar CR)"
  by (simp_all add: bad_name_char_def is_char_def is_ctl_def is_tspecial_def is_digit_def schar_def)

lemma is_digit_iff: "is_digit (schar c) \<longleftrightarrow> isdigit c"
  by (simp add: is_digit_def isdigit_def)

section \<open>The request grammar\<close>

text \<open>
  What a well-formed request is made of. A token has no control or special character and is not
  empty; a URI has no control character and no blank; a field value has no control character.
\<close>

definition token :: "string \<Rightarrow> bool" where
  "token s \<longleftrightarrow> s \<noteq> [] \<and> (\<forall>c \<in> set s. \<not> bad_name_char c)"

definition uri_text :: "string \<Rightarrow> bool" where
  "uri_text s \<longleftrightarrow> (\<forall>c \<in> set s. \<not> is_ctl (schar c) \<and> c \<noteq> CHR '' '')"

definition digits :: "string \<Rightarrow> bool" where
  "digits s \<longleftrightarrow> s \<noteq> [] \<and> (\<forall>c \<in> set s. isdigit c)"

definition field_text :: "string \<Rightarrow> bool" where
  "field_text s \<longleftrightarrow> (\<forall>c \<in> set s. \<not> is_ctl (schar c))"

definition request_line :: "string \<Rightarrow> string \<Rightarrow> string \<Rightarrow> string \<Rightarrow> string" where
  "request_line m u ma mi = m @ '' '' @ u @ '' HTTP/'' @ ma @ ''.'' @ mi @ crlf"

text \<open>
  A header line is a field, or a folded line: blanks, then text that starts with no blank (it may
  be empty), which the machine takes once some header is stored.
\<close>

datatype hline = Field string string | Folded string string

fun hline_ok :: "hline \<Rightarrow> bool" where
  "hline_ok (Field k v) = (token k \<and> field_text v)"
| "hline_ok (Folded ws v) =
     (ws \<noteq> [] \<and> set ws \<subseteq> {CHR '' '', TAB} \<and> field_text v
      \<and> (case v of [] \<Rightarrow> True | c # _ \<Rightarrow> c \<noteq> CHR '' ''))"

fun hline_text :: "hline \<Rightarrow> string" where
  "hline_text (Field k v) = k @ '': '' @ v @ crlf"
| "hline_text (Folded ws v) = ws @ v @ crlf"

text \<open>What a header line does to the header map: a folded line is filed under the empty key.\<close>

fun apply_hline :: "hline \<Rightarrow> string smap \<Rightarrow> string smap" where
  "apply_hline (Field k v) m = smap_set k v m"
| "apply_hline (Folded ws v) m = smap_set [] v m"

text \<open>The lines of a header block; a folded line is admitted when a header is already stored.\<close>

fun hlines_ok :: "string smap \<Rightarrow> hline list \<Rightarrow> bool" where
  "hlines_ok m [] = True"
| "hlines_ok m (l # ls) =
     (hline_ok l \<and> (case l of Folded _ _ \<Rightarrow> m \<noteq> [] | Field _ _ \<Rightarrow> True) \<and> hlines_ok (apply_hline l m) ls)"

definition hlines_text :: "hline list \<Rightarrow> string" where
  "hlines_text ls = concat (map hline_text ls)"

definition fold_hlines :: "hline list \<Rightarrow> string smap \<Rightarrow> string smap" where
  "fold_hlines ls m = fold apply_hline ls m"

definition version_number :: "string \<Rightarrow> i32" where
  "version_number ds = word_of_int (dec_value ds)"

text \<open>The request that a parse leaves behind, and the parser object at the start of a line.\<close>

definition parsed_request :: "string \<Rightarrow> string \<Rightarrow> string \<Rightarrow> hline list \<Rightarrow> request \<Rightarrow> request" where
  "parsed_request u ma mi ls r =
     r\<lparr>req_uri := req_uri r @ u, version_major := version_number ma,
       version_minor := version_number mi, req_headers := fold_hlines ls (req_headers r)\<rparr>"

abbreviation parser_at :: "pstate \<Rightarrow> request_parser" where
  "parser_at s \<equiv> \<lparr>rp_state = s, temp_key = [], temp_value = []\<rparr>"

lemma parser_at_eq [simp]:
  "(p :: request_parser)\<lparr>temp_key := [], temp_value := [], rp_state := s\<rparr> = parser_at s"
  by (cases p) simp

lemma smap_set_nonempty [simp]: "smap_set k v m \<noteq> []"
  by (induction k v m rule: smap_set.induct) auto

subsection \<open>Segments\<close>

lemma run_method:
  "rp_state p = S_method \<Longrightarrow> \<forall>c \<in> set s. \<not> bad_name_char c \<Longrightarrow>
     parse_chars p r (s @ CHR '' '' # t) = parse_chars (p\<lparr>rp_state := S_uri\<rparr>) r t"
proof (induction s)
  case Nil
  then show ?case by (simp add: consume_def move_defs)
next
  case (Cons c s)
  moreover have "c \<noteq> CHR '' ''" using Cons.prems by (auto simp: parser_simps)
  ultimately show ?case by (simp add: consume_def move_defs)
qed

lemma run_uri:
  "rp_state p = S_uri \<Longrightarrow> uri_text s \<Longrightarrow>
     parse_chars p r (s @ CHR '' '' # t)
       = parse_chars (p\<lparr>rp_state := S_http_version_h\<rparr>) (r\<lparr>req_uri := req_uri r @ s\<rparr>) t"
proof (induction s arbitrary: r)
  case Nil
  then show ?case by (simp add: consume_def move_defs)
next
  case (Cons c s)
  then show ?case by (simp add: consume_def move_defs uri_text_def)
qed

lemma version_digit_hom: "version_digit (word_of_int a) c = word_of_int (10 * a + digit_val c)"
  by (simp add: version_digit_def digit_val_def algebra_simps)

lemma version_fold:
  "foldl version_digit (word_of_int a) ds = word_of_int (foldl (\<lambda>a c. 10 * a + digit_val c) a ds)"
  by (induction ds arbitrary: a) (simp_all only: foldl.simps version_digit_hom)

lemma version_fold_0: "foldl version_digit 0 ds = version_number ds"
  using version_fold [of 0 ds] by (simp add: version_number_def dec_value_def)

lemma run_major_digits:
  "rp_state p = S_http_version_major \<Longrightarrow> \<forall>c \<in> set s. isdigit c \<Longrightarrow>
     parse_chars p r (s @ CHR ''.'' # t)
       = parse_chars (p\<lparr>rp_state := S_http_version_minor_start\<rparr>)
           (r\<lparr>version_major := foldl version_digit (version_major r) s\<rparr>) t"
proof (induction s arbitrary: r)
  case Nil
  then show ?case by (simp add: consume_def move_defs)
next
  case (Cons c s)
  moreover have "c \<noteq> CHR ''.''" using Cons.prems by (auto simp: isdigit_def schar_def)
  ultimately show ?case by (simp add: consume_def move_defs is_digit_iff)
qed

lemma run_minor_digits:
  "rp_state p = S_http_version_minor \<Longrightarrow> \<forall>c \<in> set s. isdigit c \<Longrightarrow>
     parse_chars p r (s @ CR # LF # t)
       = parse_chars (parser_at S_header_line_start)
           (r\<lparr>version_minor := foldl version_digit (version_minor r) s\<rparr>) t"
proof (induction s arbitrary: r)
  case Nil
  then show ?case by (simp add: consume_def move_defs)
next
  case (Cons c s)
  moreover have "c \<noteq> CR" using Cons.prems by (auto simp: isdigit_def schar_def)
  ultimately show ?case by (simp add: consume_def move_defs is_digit_iff)
qed

lemma run_major:
  assumes "digits s"
  shows "parse_chars (p\<lparr>rp_state := S_http_version_major_start\<rparr>) r (s @ CHR ''.'' # t)
       = parse_chars (p\<lparr>rp_state := S_http_version_minor_start\<rparr>)
           (r\<lparr>version_major := foldl version_digit (version_major r) s\<rparr>) t"
proof -
  obtain c cs where s: "s = c # cs" "isdigit c" "\<forall>c \<in> set cs. isdigit c"
    using assms by (cases s) (auto simp: digits_def)
  then show ?thesis
    using run_major_digits [of "p\<lparr>rp_state := S_http_version_major\<rparr>" cs]
    by (simp add: consume_def move_defs is_digit_iff)
qed

lemma run_minor:
  assumes "digits s"
  shows "parse_chars (p\<lparr>rp_state := S_http_version_minor_start\<rparr>) r (s @ CR # LF # t)
       = parse_chars (parser_at S_header_line_start)
           (r\<lparr>version_minor := foldl version_digit (version_minor r) s\<rparr>) t"
proof -
  obtain c cs where s: "s = c # cs" "isdigit c" "\<forall>c \<in> set cs. isdigit c"
    using assms by (cases s) (auto simp: digits_def)
  then show ?thesis
    using run_minor_digits [of "p\<lparr>rp_state := S_http_version_minor\<rparr>" cs]
    by (simp add: consume_def move_defs is_digit_iff)
qed

lemma run_request_line:
  assumes "token m" "uri_text u" "digits ma" "digits mi"
  shows "parse_chars new_request_parser r (request_line m u ma mi @ t)
       = parse_chars (parser_at S_header_line_start)
           (r\<lparr>req_uri := req_uri r @ u, version_major := version_number ma,
              version_minor := version_number mi\<rparr>) t"
proof -
  obtain c cs where m: "m = c # cs" "\<not> bad_name_char c" "\<forall>c \<in> set cs. \<not> bad_name_char c"
    using assms(1) by (cases m) (auto simp: token_def)
  have "parse_chars new_request_parser r (request_line m u ma mi @ t)
      = parse_chars (parser_at S_method) r
          (cs @ CHR '' '' # u @ CHR '' '' # ''HTTP/'' @ ma @ CHR ''.'' # mi @ CR # LF # t)"
    using m by (simp add: request_line_def new_request_parser_def consume_def move_defs)
  also have "\<dots> = parse_chars (parser_at S_uri) r
          (u @ CHR '' '' # ''HTTP/'' @ ma @ CHR ''.'' # mi @ CR # LF # t)"
    using m run_method [of "parser_at S_method" cs] by simp
  also have "\<dots> = parse_chars (parser_at S_http_version_h) (r\<lparr>req_uri := req_uri r @ u\<rparr>)
          (''HTTP/'' @ ma @ CHR ''.'' # mi @ CR # LF # t)"
    using assms(2) run_uri [of "parser_at S_uri" u] by simp
  also have "\<dots> = parse_chars (parser_at S_http_version_major_start)
          (r\<lparr>req_uri := req_uri r @ u, version_major := 0, version_minor := 0\<rparr>)
          (ma @ CHR ''.'' # mi @ CR # LF # t)"
    by (simp add: consume_def move_defs)
  finally show ?thesis
    using run_major [OF assms(3), of "parser_at S_http_version_major_start"]
      run_minor [OF assms(4), of "parser_at S_http_version_minor_start"]
    by (simp add: version_fold_0)
qed

lemma run_field_name:
  "rp_state p = S_header_name \<Longrightarrow> \<forall>c \<in> set s. \<not> bad_name_char c \<Longrightarrow>
     parse_chars p r (s @ CHR '':'' # CHR '' '' # t)
       = parse_chars (p\<lparr>rp_state := S_header_value, temp_key := temp_key p @ s\<rparr>) r t"
proof (induction s arbitrary: p)
  case Nil
  then show ?case by (simp add: consume_def move_defs)
next
  case (Cons c s)
  moreover have "c \<noteq> CHR '':''" using Cons.prems by (auto simp: parser_simps)
  ultimately show ?case by (simp add: consume_def move_defs)
qed

lemma run_field_value:
  "rp_state p = S_header_value \<Longrightarrow> field_text s \<Longrightarrow>
     parse_chars p r (s @ CR # LF # t)
       = parse_chars (parser_at S_header_line_start)
           (r\<lparr>req_headers := smap_set (temp_key p) (temp_value p @ s) (req_headers r)\<rparr>) t"
proof (induction s arbitrary: p)
  case Nil
  then show ?case by (simp add: consume_def move_defs)
next
  case (Cons c s)
  then have c: "c \<noteq> CR" "\<not> is_ctl (schar c)" by (auto simp: field_text_def parser_simps)
  have "parse_chars p r ((c # s) @ CR # LF # t)
      = parse_chars (p\<lparr>temp_value := temp_value p @ [c]\<rparr>) r (s @ CR # LF # t)"
    using Cons.prems c by (simp add: consume_def move_defs)
  also have "\<dots> = parse_chars (parser_at S_header_line_start)
      (r\<lparr>req_headers := smap_set (temp_key p) (temp_value p @ (c # s)) (req_headers r)\<rparr>) t"
    using Cons.prems Cons.IH [of "p\<lparr>temp_value := temp_value p @ [c]\<rparr>"] by (simp add: field_text_def)
  finally show ?case .
qed

lemma run_blanks:
  "rp_state p = S_header_lws \<Longrightarrow> set s \<subseteq> {CHR '' '', TAB} \<Longrightarrow>
     parse_chars p r (s @ t) = parse_chars p r t"
  by (induction s) (auto simp: consume_def move_defs)

lemma run_folded:
  assumes ok: "hline_ok (Folded ws v)" and ne: "req_headers r \<noteq> []"
  shows "parse_chars (parser_at S_header_line_start) r (ws @ v @ CR # LF # t)
       = parse_chars (parser_at S_header_line_start)
           (r\<lparr>req_headers := smap_set [] v (req_headers r)\<rparr>) t"
proof -
  obtain b bs where ws: "ws = b # bs" "b = CHR '' '' \<or> b = TAB" "set bs \<subseteq> {CHR '' '', TAB}"
    using ok by (cases ws) auto
  have "parse_chars (parser_at S_header_line_start) r (ws @ v @ CR # LF # t)
      = parse_chars (parser_at S_header_lws) r (bs @ v @ CR # LF # t)"
    using ws ne by (auto simp: consume_def move_defs)
  also have "\<dots> = parse_chars (parser_at S_header_lws) r (v @ CR # LF # t)"
    using ws by (simp add: run_blanks)
  also have "\<dots> = parse_chars (parser_at S_header_line_start)
      (r\<lparr>req_headers := smap_set [] v (req_headers r)\<rparr>) t"
  proof (cases v)
    case Nil
    then show ?thesis by (simp add: consume_def move_defs)
  next
    case (Cons c cs)
    then have c: "c \<noteq> CR" "c \<noteq> TAB" "c \<noteq> CHR '' ''" "\<not> is_ctl (schar c)" "field_text cs"
      using ok by (auto simp: field_text_def parser_simps is_ctl_def schar_def)
    then show ?thesis
      using run_field_value [of "\<lparr>rp_state = S_header_value, temp_key = [], temp_value = [c]\<rparr>" cs]
      by (simp add: Cons consume_def move_defs)
  qed
  finally show ?thesis .
qed

lemma run_field:
  assumes "hline_ok (Field k v)"
  shows "parse_chars (parser_at S_header_line_start) r (k @ CHR '':'' # CHR '' '' # v @ CR # LF # t)
       = parse_chars (parser_at S_header_line_start)
           (r\<lparr>req_headers := smap_set k v (req_headers r)\<rparr>) t"
proof -
  obtain c cs where k: "k = c # cs" "\<not> bad_name_char c" "\<forall>c \<in> set cs. \<not> bad_name_char c"
    using assms by (cases k) (auto simp: token_def)
  then have "c \<noteq> CR" "c \<noteq> CHR '' ''" "c \<noteq> TAB" by (auto simp: parser_simps)
  then show ?thesis
    using k assms run_field_name [of "\<lparr>rp_state = S_header_name, temp_key = [c], temp_value = []\<rparr>" cs]
      run_field_value [of "\<lparr>rp_state = S_header_value, temp_key = k, temp_value = []\<rparr>" v]
    by (simp add: consume_def move_defs)
qed

lemma run_hlines:
  "hlines_ok (req_headers r) ls \<Longrightarrow>
     parse_chars (parser_at S_header_line_start) r (hlines_text ls @ t)
       = parse_chars (parser_at S_header_line_start)
           (r\<lparr>req_headers := fold_hlines ls (req_headers r)\<rparr>) t"
proof (induction ls arbitrary: r)
  case Nil
  then show ?case by (simp add: hlines_text_def fold_hlines_def)
next
  case (Cons l ls)
  let ?r = "r\<lparr>req_headers := apply_hline l (req_headers r)\<rparr>"
  have "parse_chars (parser_at S_header_line_start) r (hline_text l @ hlines_text ls @ t)
      = parse_chars (parser_at S_header_line_start) ?r (hlines_text ls @ t)"
    using Cons.prems run_field run_folded by (cases l) auto
  then show ?case
    using Cons.IH [of ?r] Cons.prems by (simp add: hlines_text_def fold_hlines_def)
qed

lemma run_blank_line:
  "parse_chars (parser_at S_header_line_start) r (CR # LF # t)
     = (Good, t, parser_at S_expecting_newline_3, r)"
  by (simp add: consume_def move_defs)

definition request_text :: "string \<Rightarrow> string \<Rightarrow> string \<Rightarrow> string \<Rightarrow> hline list \<Rightarrow> string" where
  "request_text m u ma mi ls = request_line m u ma mi @ hlines_text ls @ crlf"

definition request_ok :: "string \<Rightarrow> string \<Rightarrow> string \<Rightarrow> string \<Rightarrow> hline list \<Rightarrow> bool" where
  "request_ok m u ma mi ls \<longleftrightarrow>
     token m \<and> uri_text u \<and> digits ma \<and> digits mi \<and> hlines_ok [] ls"

lemma parse_request_text:
  assumes "request_ok m u ma mi ls" "req_headers r = []"
  shows "parse_chars new_request_parser r (request_text m u ma mi ls @ t)
     = (Good, t, parser_at S_expecting_newline_3, parsed_request u ma mi ls r)"
  using assms
  by (simp add: request_ok_def request_text_def run_request_line run_hlines parsed_request_def
      consume_def move_defs)

section \<open>Only the grammar is accepted\<close>

text \<open>
  \<open>shape r0 s xs p r\<close>: what the machine has read (\<open>xs\<close>) and recorded (\<open>p\<close>, \<open>r\<close>) when it is in
  state \<open>s\<close> and started on the request \<open>r0\<close>.
\<close>

definition head_read :: "request \<Rightarrow> string \<Rightarrow> request \<Rightarrow> bool" where
  "head_read r0 xs r \<longleftrightarrow> (\<exists>m u ma mi ls. request_ok m u ma mi ls
     \<and> xs = request_line m u ma mi @ hlines_text ls \<and> r = parsed_request u ma mi ls r0)"

fun version_tail :: "pstate \<Rightarrow> string" where
  "version_tail S_http_version_t_1 = '' H''"
| "version_tail S_http_version_t_2 = '' HT''"
| "version_tail S_http_version_p = '' HTT''"
| "version_tail S_http_version_slash = '' HTTP''"
| "version_tail _ = '' ''"

definition target_read :: "request \<Rightarrow> string \<Rightarrow> string \<Rightarrow> request \<Rightarrow> bool" where
  "target_read r0 xs tail r \<longleftrightarrow> (\<exists>m u. token m \<and> uri_text u \<and> xs = m @ '' '' @ u @ tail
     \<and> r = r0\<lparr>req_uri := req_uri r0 @ u\<rparr>)"

definition version_read :: "request \<Rightarrow> string \<Rightarrow> string \<Rightarrow> string \<Rightarrow> string \<Rightarrow> request \<Rightarrow> bool" where
  "version_read r0 xs ma mi tail r \<longleftrightarrow> (\<exists>m u. token m \<and> uri_text u
     \<and> xs = m @ '' '' @ u @ '' HTTP/'' @ ma @ tail
     \<and> r = r0\<lparr>req_uri := req_uri r0 @ u, version_major := version_number ma,
              version_minor := version_number mi\<rparr>)"

fun shape :: "request \<Rightarrow> pstate \<Rightarrow> string \<Rightarrow> request_parser \<Rightarrow> request \<Rightarrow> bool" where
  "shape r0 S_method_start xs p r = (xs = [] \<and> r = r0)"
| "shape r0 S_method xs p r = (token xs \<and> r = r0)"
| "shape r0 S_uri xs p r = target_read r0 xs [] r"
| "shape r0 S_http_version_major_start xs p r = version_read r0 xs [] [] [] r"
| "shape r0 S_http_version_major xs p r = (\<exists>ma. digits ma \<and> version_read r0 xs ma [] [] r)"
| "shape r0 S_http_version_minor_start xs p r =
     (\<exists>ma. digits ma \<and> version_read r0 xs ma [] ''.'' r)"
| "shape r0 S_http_version_minor xs p r =
     (\<exists>ma mi. digits ma \<and> digits mi \<and> version_read r0 xs ma mi (''.'' @ mi) r)"
| "shape r0 S_expecting_newline_1 xs p r =
     (\<exists>ma mi. digits ma \<and> digits mi \<and> version_read r0 xs ma mi (''.'' @ mi @ [CR]) r)"
| "shape r0 S_header_line_start xs p r =
     (head_read r0 xs r \<and> temp_key p = [] \<and> temp_value p = [])"
| "shape r0 S_header_lws xs p r =
     (\<exists>h ws. head_read r0 h r \<and> xs = h @ ws \<and> hline_ok (Folded ws []) \<and> req_headers r \<noteq> []
        \<and> temp_key p = [] \<and> temp_value p = [])"
| "shape r0 S_header_name xs p r =
     (\<exists>h. head_read r0 h r \<and> xs = h @ temp_key p \<and> token (temp_key p) \<and> temp_value p = [])"
| "shape r0 S_space_before_header_value xs p r =
     (\<exists>h. head_read r0 h r \<and> xs = h @ temp_key p @ '':'' \<and> token (temp_key p) \<and> temp_value p = [])"
| "shape r0 S_header_value xs p r =
     (\<exists>h. head_read r0 h r \<and>
        ((xs = h @ temp_key p @ '': '' @ temp_value p \<and> token (temp_key p) \<and> field_text (temp_value p))
         \<or> (\<exists>ws. xs = h @ ws @ temp_value p \<and> hline_ok (Folded ws (temp_value p))
               \<and> temp_value p \<noteq> [] \<and> temp_key p = [] \<and> req_headers r \<noteq> [])))"
| "shape r0 S_expecting_newline_2 xs p r =
     (\<exists>h l. head_read r0 h r \<and> xs @ [LF] = h @ hline_text l \<and> hlines_ok (req_headers r) [l]
        \<and> apply_hline l (req_headers r) = smap_set (temp_key p) (temp_value p) (req_headers r))"
| "shape r0 S_expecting_newline_3 xs p r =
     (\<exists>h. head_read r0 h r \<and> xs = h @ [CR] \<and> p = parser_at S_expecting_newline_3)"
| "shape r0 s xs p r = target_read r0 xs (version_tail s) r"

lemma digits_snoc: "isdigit c \<Longrightarrow> ds = [] \<or> digits ds \<Longrightarrow> digits (ds @ [c])"
  by (auto simp: digits_def)

lemma version_number_snoc: "version_number (ds @ [c]) = version_digit (version_number ds) c"
  by (simp add: version_number_def dec_value_snoc version_digit_hom)

lemma version_number_Nil [simp]: "version_number [] = 0"
  by (simp add: version_number_def dec_value_def)

lemma hlines_ok_snoc: "hlines_ok m (ls @ [l]) \<longleftrightarrow> hlines_ok m ls \<and> hlines_ok (fold_hlines ls m) [l]"
  by (induction ls arbitrary: m) (auto simp: fold_hlines_def)

lemma head_read_hline:
  assumes "req_headers r0 = []" "head_read r0 h r" "hlines_ok (req_headers r) [l]"
  shows "head_read r0 (h @ hline_text l) (r\<lparr>req_headers := apply_hline l (req_headers r)\<rparr>)"
proof -
  from assms(2) obtain m u ma mi ls where *: "request_ok m u ma mi ls"
    "h = request_line m u ma mi @ hlines_text ls" "r = parsed_request u ma mi ls r0"
    by (auto simp: head_read_def)
  with assms show ?thesis
    unfolding head_read_def
    by (intro exI [of _ m] exI [of _ u] exI [of _ ma] exI [of _ mi] exI [of _ "ls @ [l]"])
       (simp add: request_ok_def hlines_ok_snoc hlines_text_def parsed_request_def fold_hlines_def)
qed

lemma head_read_start:
  assumes "req_headers r0 = []" "digits ma" "digits mi"
    "version_read r0 xs ma mi (''.'' @ mi @ [CR]) r"
  shows "head_read r0 (xs @ [LF]) r"
proof -
  from assms(4) obtain m u where "token m" "uri_text u"
    "xs = m @ '' '' @ u @ '' HTTP/'' @ ma @ (''.'' @ mi @ [CR])"
    "r = r0\<lparr>req_uri := req_uri r0 @ u, version_major := version_number ma,
          version_minor := version_number mi\<rparr>"
    by (auto simp: version_read_def)
  with assms show ?thesis
    unfolding head_read_def
    by (intro exI [of _ m] exI [of _ u] exI [of _ ma] exI [of _ mi] exI [of _ "[]"])
       (simp add: request_ok_def hlines_text_def parsed_request_def fold_hlines_def request_line_def)
qed

lemma target_read_char:
  "target_read r0 xs [] r \<Longrightarrow> \<not> is_ctl (schar c) \<Longrightarrow> c \<noteq> CHR '' '' \<Longrightarrow>
     target_read r0 (xs @ [c]) [] (r\<lparr>req_uri := req_uri r @ [c]\<rparr>)"
  unfolding target_read_def
  by (elim exE conjE, rule_tac x = m in exI, rule_tac x = "u @ [c]" in exI)
     (simp add: uri_text_def)

lemma target_read_tail: "target_read r0 xs tail r \<Longrightarrow> target_read r0 (xs @ [c]) (tail @ [c]) r"
  by (auto simp: target_read_def)

lemma target_read_begin: "token xs \<Longrightarrow> target_read r0 (xs @ '' '') [] r0"
  unfolding target_read_def by (intro exI [of _ xs] exI [of _ "[]"]) (simp add: uri_text_def)

lemma version_read_begin:
  "target_read r0 xs '' HTTP'' r \<Longrightarrow>
     version_read r0 (xs @ ''/'') [] [] [] (r\<lparr>version_major := 0, version_minor := 0\<rparr>)"
  by (auto simp: target_read_def version_read_def)

lemma version_read_major:
  "version_read r0 xs ma [] [] r \<Longrightarrow>
     version_read r0 (xs @ [c]) (ma @ [c]) [] [] (r\<lparr>version_major := version_digit (version_major r) c\<rparr>)"
  unfolding version_read_def
  by (elim exE conjE, rule_tac x = m in exI, rule_tac x = u in exI) (simp add: version_number_snoc)

lemma version_read_minor:
  "version_read r0 xs ma mi tail r \<Longrightarrow>
     version_read r0 (xs @ [c]) ma (mi @ [c]) (tail @ [c])
       (r\<lparr>version_minor := version_digit (version_minor r) c\<rparr>)"
  unfolding version_read_def
  by (elim exE conjE, rule_tac x = m in exI, rule_tac x = u in exI) (simp add: version_number_snoc)

lemma version_read_tail:
  "version_read r0 xs ma mi tail r \<Longrightarrow> version_read r0 (xs @ [c]) ma mi (tail @ [c]) r"
  by (auto simp: version_read_def)

lemma token_snoc: "xs = [] \<or> token xs \<Longrightarrow> \<not> bad_name_char c \<Longrightarrow> token (xs @ [c])"
  by (auto simp: token_def)

lemma field_text_snoc: "field_text v \<Longrightarrow> \<not> is_ctl (schar c) \<Longrightarrow> field_text (v @ [c])"
  by (auto simp: field_text_def)

lemma field_text_Nil [simp]: "field_text []"
  by (simp add: field_text_def)

text \<open>Each move of the machine keeps the shape: one lemma per part of the request.\<close>

lemmas consume_cases = consume_def goto_def stay_def refuse_def expect_def

lemma step_target:
  assumes "shape r0 (rp_state p) xs p r" "consume p r c = (Indeterminate, p', r')"
    and s: "rp_state p = S_method_start \<or> rp_state p = S_method \<or> rp_state p = S_uri"
  shows "shape r0 (rp_state p') (xs @ [c]) p' r'"
  using s
proof (elim disjE)
  assume "rp_state p = S_method_start"
  with assms show ?thesis by (simp add: consume_cases split: if_splits) (auto simp: token_def)
next
  assume "rp_state p = S_method"
  with assms show ?thesis
    using target_read_begin [of xs r] token_snoc [of xs c]
    by (simp add: consume_cases split: if_splits) auto
next
  assume "rp_state p = S_uri"
  with assms show ?thesis
    using target_read_char [of r0 xs r c] target_read_tail [of r0 xs "[]" r c]
    by (simp add: consume_cases split: if_splits) auto
qed

lemma step_protocol:
  assumes "shape r0 (rp_state p) xs p r" "consume p r c = (Indeterminate, p', r')"
    and s: "rp_state p \<in> set [S_http_version_h, S_http_version_t_1, S_http_version_t_2,
         S_http_version_p]"
  shows "shape r0 (rp_state p') (xs @ [c]) p' r'"
proof -
  have "target_read r0 (xs @ [c]) (version_tail (rp_state p) @ [c]) r"
    using assms by (intro target_read_tail) auto
  with assms show ?thesis by (auto simp: consume_cases split: if_splits)
qed

lemma step_slash:
  assumes "shape r0 (rp_state p) xs p r" "consume p r c = (Indeterminate, p', r')"
    and s: "rp_state p = S_http_version_slash"
  shows "shape r0 (rp_state p') (xs @ [c]) p' r'"
  using assms version_read_begin [of r0 xs r] by (simp add: consume_cases split: if_splits) auto

lemma step_major:
  assumes "shape r0 (rp_state p) xs p r" "consume p r c = (Indeterminate, p', r')"
    and s: "rp_state p = S_http_version_major_start \<or> rp_state p = S_http_version_major"
  shows "shape r0 (rp_state p') (xs @ [c]) p' r'"
proof -
  obtain ma where ma: "version_read r0 xs ma [] [] r"
      "ma = [] \<and> rp_state p = S_http_version_major_start
       \<or> digits ma \<and> rp_state p = S_http_version_major"
    using assms by auto
  show ?thesis
  proof (cases "isdigit c")
    case True
    then have "c \<noteq> CHR ''.''" by (auto simp: isdigit_def schar_def)
    then have "rp_state p' = S_http_version_major
        \<and> r' = r\<lparr>version_major := version_digit (version_major r) c\<rparr>"
      using True assms(2) ma(2) by (auto simp: consume_cases is_digit_iff)
    moreover have "digits (ma @ [c])" using True ma(2) by (auto intro: digits_snoc)
    ultimately show ?thesis using version_read_major [OF ma(1), of c] by auto
  next
    case False
    then have "digits ma \<and> c = CHR ''.'' \<and> rp_state p' = S_http_version_minor_start \<and> r' = r"
      using assms(2) ma(2) by (auto simp: consume_cases is_digit_iff split: if_splits)
    then show ?thesis
      using version_read_tail [OF ma(1), of c] by auto
  qed
qed

lemma step_minor:
  assumes "shape r0 (rp_state p) xs p r" "consume p r c = (Indeterminate, p', r')"
    and s: "rp_state p = S_http_version_minor_start \<or> rp_state p = S_http_version_minor"
  shows "shape r0 (rp_state p') (xs @ [c]) p' r'"
proof -
  obtain ma mi where ma: "digits ma" "version_read r0 xs ma mi (''.'' @ mi) r"
      "mi = [] \<and> rp_state p = S_http_version_minor_start
       \<or> digits mi \<and> rp_state p = S_http_version_minor"
    using assms by auto
  show ?thesis
  proof (cases "isdigit c")
    case True
    then have "c \<noteq> CR" by (auto simp: isdigit_def schar_def)
    then have "rp_state p' = S_http_version_minor
        \<and> r' = r\<lparr>version_minor := version_digit (version_minor r) c\<rparr>"
      using True assms(2) ma(3) by (auto simp: consume_cases is_digit_iff)
    moreover have "digits (mi @ [c])" using True ma(3) by (auto intro: digits_snoc)
    moreover have "version_read r0 (xs @ [c]) ma (mi @ [c]) (''.'' @ mi @ [c])
        (r\<lparr>version_minor := version_digit (version_minor r) c\<rparr>)"
      using version_read_minor [OF ma(2), of c] by simp
    ultimately show ?thesis using ma(1)
      by (simp only: shape.simps) (intro exI [of _ ma] exI [of _ "mi @ [c]"], simp)
  next
    case False
    then have "digits mi \<and> c = CR \<and> rp_state p' = S_expecting_newline_1 \<and> r' = r"
      using assms(2) ma(3) by (auto simp: consume_cases is_digit_iff split: if_splits)
    then show ?thesis
      using version_read_tail [OF ma(2), of c] ma(1) by auto
  qed
qed

text \<open>How the header shapes are entered.\<close>

lemma shape_lws:
  "head_read r0 h r \<Longrightarrow> hline_ok (Folded ws []) \<Longrightarrow> req_headers r \<noteq> [] \<Longrightarrow> temp_key p = [] \<Longrightarrow>
     temp_value p = [] \<Longrightarrow> shape r0 S_header_lws (h @ ws) p r"
  unfolding shape.simps by blast

lemma shape_name:
  "head_read r0 h r \<Longrightarrow> token (temp_key p) \<Longrightarrow> temp_value p = [] \<Longrightarrow>
     shape r0 S_header_name (h @ temp_key p) p r"
  unfolding shape.simps by blast

lemma shape_value_field:
  "head_read r0 h r \<Longrightarrow> token (temp_key p) \<Longrightarrow> field_text (temp_value p) \<Longrightarrow>
     shape r0 S_header_value (h @ temp_key p @ '': '' @ temp_value p) p r"
  unfolding shape.simps by blast

lemma shape_value_folded:
  "head_read r0 h r \<Longrightarrow> hline_ok (Folded ws (temp_value p)) \<Longrightarrow> temp_value p \<noteq> [] \<Longrightarrow>
     temp_key p = [] \<Longrightarrow> req_headers r \<noteq> [] \<Longrightarrow>
     shape r0 S_header_value (h @ ws @ temp_value p) p r"
  unfolding shape.simps by blast

lemma shape_newline_2:
  "head_read r0 h r \<Longrightarrow> xs @ [LF] = h @ hline_text l \<Longrightarrow> hlines_ok (req_headers r) [l] \<Longrightarrow>
     apply_hline l (req_headers r) = smap_set (temp_key p) (temp_value p) (req_headers r) \<Longrightarrow>
     shape r0 S_expecting_newline_2 xs p r"
  unfolding shape.simps by blast

lemma step_line_start:
  assumes "req_headers r0 = []" "shape r0 (rp_state p) xs p r" "consume p r c = (Indeterminate, p', r')"
    and s: "rp_state p = S_expecting_newline_1 \<or> rp_state p = S_header_line_start"
  shows "shape r0 (rp_state p') (xs @ [c]) p' r'"
  using s
proof
  assume "rp_state p = S_expecting_newline_1"
  with assms show ?thesis
    by (auto simp: consume_cases clear_temps_def dest: head_read_start split: if_splits)
next
  assume st: "rp_state p = S_header_line_start"
  then have h: "head_read r0 xs r" "temp_key p = []" "temp_value p = []" using assms(2) by auto
  consider "c = CR" | "c \<noteq> CR" "req_headers r \<noteq> []" "c = CHR '' '' \<or> c = TAB"
    | "c \<noteq> CR" "\<not> (req_headers r \<noteq> [] \<and> (c = CHR '' '' \<or> c = TAB))" "\<not> bad_name_char c"
    using st assms(3) by (auto simp: consume_cases split: if_splits)
  then show ?thesis
  proof cases
    case 1
    then have "p' = p\<lparr>rp_state := S_expecting_newline_3\<rparr>" "r' = r"
      using st h assms(3) by (auto simp: consume_cases)
    then show ?thesis using 1 h by (cases p) auto
  next
    case 2
    then have "p' = p\<lparr>rp_state := S_header_lws\<rparr>" "r' = r"
      using st assms(3) by (auto simp: consume_cases)
    then show ?thesis using 2 h shape_lws [OF h(1), of "[c]" p'] by auto
  next
    case 3
    then have "p' = p\<lparr>temp_key := [c], rp_state := S_header_name\<rparr>" "r' = r"
      using st h assms(3) by (auto simp: consume_cases)
    then show ?thesis using 3 h shape_name [OF h(1), of p'] by (simp add: token_def)
  qed
qed

lemma step_header_name:
  assumes "shape r0 (rp_state p) xs p r" "consume p r c = (Indeterminate, p', r')"
    and s: "rp_state p = S_header_name \<or> rp_state p = S_space_before_header_value"
  shows "shape r0 (rp_state p') (xs @ [c]) p' r'"
  using assms by (auto simp: consume_cases token_snoc split: if_splits)

lemma step_header_lws:
  assumes "req_headers r0 = []" "shape r0 (rp_state p) xs p r" "consume p r c = (Indeterminate, p', r')"
    and s: "rp_state p = S_header_lws"
  shows "shape r0 (rp_state p') (xs @ [c]) p' r'"
proof -
  obtain h ws where h: "head_read r0 h r" "xs = h @ ws" "hline_ok (Folded ws [])"
      "req_headers r \<noteq> []" "temp_key p = []" "temp_value p = []"
    using assms by auto
  consider "c = CR" | "c \<noteq> CR" "c = CHR '' '' \<or> c = TAB"
    | "c \<noteq> CR" "c \<noteq> CHR '' ''" "c \<noteq> TAB" "\<not> is_ctl (schar c)"
    using s assms(3) by (auto simp: consume_cases split: if_splits)
  then show ?thesis
  proof cases
    case 1
    then have "p' = p\<lparr>rp_state := S_expecting_newline_2\<rparr>" "r' = r"
      using s assms(3) by (auto simp: consume_cases)
    then show ?thesis using 1 h shape_newline_2 [OF h(1), of "xs @ [c]" "Folded ws []" p'] by simp
  next
    case 2
    then have "p' = p" "r' = r"
      using s assms(3) by (auto simp: consume_cases)
    then show ?thesis using 2 s h shape_lws [OF h(1), of "ws @ [c]" p] by auto
  next
    case 3
    then have "p' = p\<lparr>temp_value := [c], rp_state := S_header_value\<rparr>" "r' = r"
      using s h assms(3) by (auto simp: consume_cases)
    then show ?thesis
      using 3 h shape_value_folded [OF h(1), of ws p'] by (simp add: field_text_def)
  qed
qed

lemma step_header_value:
  assumes "shape r0 (rp_state p) xs p r" "consume p r c = (Indeterminate, p', r')"
    and s: "rp_state p = S_header_value"
  shows "shape r0 (rp_state p') (xs @ [c]) p' r'"
proof -
  obtain h where hd: "head_read r0 h r" and
      d: "(xs = h @ temp_key p @ '': '' @ temp_value p \<and> token (temp_key p) \<and> field_text (temp_value p))
         \<or> (\<exists>ws. xs = h @ ws @ temp_value p \<and> hline_ok (Folded ws (temp_value p))
               \<and> temp_value p \<noteq> [] \<and> temp_key p = [] \<and> req_headers r \<noteq> [])"
    using assms(1) s unfolding shape.simps s by blast
  from d obtain l where h: "xs @ crlf = h @ hline_text l" "hlines_ok (req_headers r) [l]"
      "apply_hline l = smap_set (temp_key p) (temp_value p)"
      "l = Field (temp_key p) (temp_value p)
       \<or> (\<exists>ws. l = Folded ws (temp_value p) \<and> temp_value p \<noteq> [] \<and> temp_key p = [])"
  proof (elim disjE exE conjE)
    assume "xs = h @ temp_key p @ '': '' @ temp_value p" "token (temp_key p)" "field_text (temp_value p)"
    then show thesis by (intro that [of "Field (temp_key p) (temp_value p)"]) auto
  next
    fix ws
    assume "xs = h @ ws @ temp_value p" "hline_ok (Folded ws (temp_value p))" "temp_value p \<noteq> []"
      "temp_key p = []" "req_headers r \<noteq> []"
    then show thesis by (intro that [of "Folded ws (temp_value p)"]) auto
  qed
  show ?thesis
  proof (cases "c = CR")
    case True
    then have "p' = p\<lparr>rp_state := S_expecting_newline_2\<rparr>" "r' = r"
      using s assms(2) by (auto simp: consume_cases)
    then show ?thesis using True h shape_newline_2 [OF hd, of "xs @ [c]" l p'] by simp
  next
    case False
    then have *: "p' = p\<lparr>temp_value := temp_value p @ [c]\<rparr>" "r' = r" "\<not> is_ctl (schar c)"
      using s assms(2) by (auto simp: consume_cases split: if_splits)
    from h(4) show ?thesis
    proof
      assume l: "l = Field (temp_key p) (temp_value p)"
      with h(1) have "xs = h @ temp_key p @ '': '' @ temp_value p" by simp
      then show ?thesis using * s h l shape_value_field [OF hd, of p']
        by (simp add: field_text_snoc)
    next
      assume "\<exists>ws. l = Folded ws (temp_value p) \<and> temp_value p \<noteq> [] \<and> temp_key p = []"
      then obtain ws where l: "l = Folded ws (temp_value p)" "temp_value p \<noteq> []" "temp_key p = []"
        by blast
      with h(1) have "xs = h @ ws @ temp_value p" by simp
      then show ?thesis using * s h l shape_value_folded [OF hd, of ws p']
        by (auto simp: field_text_snoc split: list.splits)
    qed
  qed
qed

lemma step_newline_2:
  assumes "req_headers r0 = []" "shape r0 (rp_state p) xs p r" "consume p r c = (Indeterminate, p', r')"
    and s: "rp_state p = S_expecting_newline_2"
  shows "shape r0 (rp_state p') (xs @ [c]) p' r'"
proof -
  obtain h l where h: "head_read r0 h r" "xs @ [LF] = h @ hline_text l" "hlines_ok (req_headers r) [l]"
      "apply_hline l (req_headers r) = smap_set (temp_key p) (temp_value p) (req_headers r)"
    using assms(2) unfolding s shape.simps by blast
  have "c = LF" "p' = parser_at S_header_line_start" "r' = store_header p r"
    using s assms(3) by (auto simp: consume_cases clear_temps_def split: if_splits)
  then show ?thesis
    using head_read_hline [OF assms(1) h(1,3)] h(2,4) by (simp add: store_header_def)
qed

lemma step_shape:
  assumes "req_headers r0 = []" "shape r0 (rp_state p) xs p r" "consume p r c = (Indeterminate, p', r')"
  shows "shape r0 (rp_state p') (xs @ [c]) p' r'"
proof (cases "rp_state p")
  case S_expecting_newline_3
  with assms show ?thesis by (auto simp: consume_cases split: if_splits)
qed (simp_all add: step_target [OF assms(2,3)] step_protocol [OF assms(2,3)]
       step_slash [OF assms(2,3)] step_major [OF assms(2,3)] step_minor [OF assms(2,3)]
       step_line_start [OF assms] step_header_name [OF assms(2,3)] step_header_lws [OF assms]
       step_header_value [OF assms(2,3)] step_newline_2 [OF assms])

lemma run_shape:
  assumes "req_headers r0 = []" "shape r0 (rp_state p) xs p r"
    "parse_chars p r s = (Indeterminate, rest, p', r')"
  shows "shape r0 (rp_state p') (xs @ s) p' r'"
  using assms(2,3)
proof (induction p r s arbitrary: xs rule: parse_chars.induct)
  case (1 p r)
  then show ?case by simp
next
  case (2 p r c cs)
  obtain res p1 r1 where c: "consume p r c = (res, p1, r1)" by (cases "consume p r c")
  with "2.prems"(2) have "res = Indeterminate" by (cases res) auto
  with c "2.prems" "2.IH" [OF c [symmetric] refl, of "xs @ [c]"] step_shape [OF assms(1), of p xs r c p1 r1]
  show ?case by simp
qed

lemma parse_chars_last:
  "parse_chars p r s = (res, rest, p', r') \<Longrightarrow> res \<noteq> Indeterminate \<Longrightarrow>
     \<exists>xs c p1 r1. s = xs @ c # rest \<and> parse_chars p r xs = (Indeterminate, [], p1, r1)
       \<and> consume p1 r1 c = (res, p', r')"
proof (induction p r s rule: parse_chars.induct)
  case (1 p r)
  then show ?case by simp
next
  case (2 p r c cs)
  obtain res1 p1 r1 where c: "consume p r c = (res1, p1, r1)" by (cases "consume p r c")
  show ?case
  proof (cases "res1 = Indeterminate")
    case True
    with 2 c obtain xs d p2 r2 where "cs = xs @ d # rest"
      "parse_chars p1 r1 xs = (Indeterminate, [], p2, r2)" "consume p2 r2 d = (res, p', r')"
      by fastforce
    with True c show ?thesis
      by (intro exI [of _ "c # xs"] exI [of _ d] exI [of _ p2] exI [of _ r2]) simp
  next
    case False
    with 2 c show ?thesis
      by (intro exI [of _ "[]"] exI [of _ c] exI [of _ p] exI [of _ r]) (cases res1, auto)
  qed
qed

lemma consume_Good:
  "consume p r c = (Good, p', r') \<Longrightarrow>
     rp_state p = S_expecting_newline_3 \<and> c = LF \<and> p' = p \<and> r' = r"
  by (cases "rp_state p") (auto simp: consume_cases split: if_splits)

lemma shape_start: "shape r (rp_state new_request_parser) [] new_request_parser r"
  by (simp add: new_request_parser_def)

lemma parse_Good_text:
  assumes "req_headers r = []" "parse_chars new_request_parser r s = (Good, rest, p', r')"
  shows "\<exists>m u ma mi ls. request_ok m u ma mi ls \<and> s = request_text m u ma mi ls @ rest
     \<and> p' = parser_at S_expecting_newline_3 \<and> r' = parsed_request u ma mi ls r"
proof -
  obtain xs c p1 r1 where *: "s = xs @ c # rest"
    "parse_chars new_request_parser r xs = (Indeterminate, [], p1, r1)" "consume p1 r1 c = (Good, p', r')"
    using parse_chars_last [OF assms(2)] by auto
  have c: "rp_state p1 = S_expecting_newline_3" "c = LF" "p' = p1" "r' = r1"
    using consume_Good [OF *(3)] by auto
  have "shape r (rp_state p1) xs p1 r1"
    using run_shape [OF assms(1) shape_start *(2)] by simp
  then obtain m u ma mi ls where "request_ok m u ma mi ls" "r1 = parsed_request u ma mi ls r"
      "xs = request_line m u ma mi @ hlines_text ls @ [CR]" "p1 = parser_at S_expecting_newline_3"
    by (auto simp: c(1) head_read_def)
  then show ?thesis
    using *(1) c
    by (intro exI [of _ m] exI [of _ u] exI [of _ ma] exI [of _ mi] exI [of _ ls])
       (simp add: request_text_def)
qed

lemma parse_chars_frame:
  "parse_chars p r s = (res, rest, p', r') \<Longrightarrow>
     req_method r' = req_method r \<and> req_body r' = req_body r \<and> (\<exists>u. req_uri r' = req_uri r @ u)"
proof (induction p r s rule: parse_chars.induct)
  case (1 p r)
  then show ?case by simp
next
  case (2 p r c cs)
  obtain res1 p1 r1 where c: "consume p r c = (res1, p1, r1)" by (cases "consume p r c")
  then have "req_method r1 = req_method r \<and> req_body r1 = req_body r \<and> (\<exists>u. req_uri r1 = req_uri r @ u)"
    by (cases "rp_state p") (auto simp: consume_cases store_header_def split: if_splits)
  with 2 c show ?case by (cases res1) fastforce+
qed

section \<open>Properties\<close>

text \<open>
  C4. The parser accepts the requests of the grammar (method token, URI, version digits, any header
  lines, blank line) and nothing else: on a fresh parser the result is good exactly when the input starts
  with a request of the grammar, and then the part left unread, the parser object and the request
  are the ones of that grammar derivation.
\<close>

theorem accepts_exactly_grammar:
  "parse_chars new_request_parser (new_request mt v w) s = (Good, rest, p', r') \<longleftrightarrow>
     (\<exists>m u ma mi ls. request_ok m u ma mi ls \<and> s = request_text m u ma mi ls @ rest
        \<and> p' = parser_at S_expecting_newline_3
        \<and> r' = parsed_request u ma mi ls (new_request mt v w))"
proof
  show "parse_chars new_request_parser (new_request mt v w) s = (Good, rest, p', r') \<Longrightarrow>
     (\<exists>m u ma mi ls. request_ok m u ma mi ls \<and> s = request_text m u ma mi ls @ rest
        \<and> p' = parser_at S_expecting_newline_3
        \<and> r' = parsed_request u ma mi ls (new_request mt v w))"
    by (rule parse_Good_text) (simp add: new_request_def)
qed (auto simp: parse_request_text new_request_def)

lemma sint_of_int_32: "sint (word_of_int x :: i32) = (x + 2 ^ 31) mod 2 ^ 32 - 2 ^ 31"
  by (simp add: sint_sbintrunc' signed_take_bit_eq_take_bit_shift take_bit_eq_mod)

text \<open>
  A version number is read as 32-bit two's complement: the stored value is the decimal value
  reduced to the range of \<open>int\<close>, so a version of ten or more digits can wrap around and is accepted.
\<close>

theorem version_wraps:
  assumes "request_ok m u ma mi ls"
  shows "\<exists>t p' r'. parse_chars new_request_parser (new_request mt v w) (request_text m u ma mi ls)
       = (Good, t, p', r')
     \<and> sint (version_major r') = (dec_value ma + 2 ^ 31) mod 2 ^ 32 - 2 ^ 31
     \<and> sint (version_minor r') = (dec_value mi + 2 ^ 31) mod 2 ^ 32 - 2 ^ 31"
proof -
  have "parse_chars new_request_parser (new_request mt v w) (request_text m u ma mi ls @ [])
     = (Good, [], parser_at S_expecting_newline_3, parsed_request u ma mi ls (new_request mt v w))"
    using assms by (intro parse_request_text) (simp_all add: new_request_def)
  then show ?thesis
    by (auto simp: parsed_request_def version_number_def sint_of_int_32)
qed

theorem version_wraps_witness:
  "\<exists>t p' r'. parse_chars new_request_parser (new_request None 0 0)
       (request_text ''GET'' ''/'' ''4294967297'' ''0'' []) = (Good, t, p', r')
     \<and> sint (version_major r') = 1"
  using version_wraps [of "''GET''" "''/''" "''4294967297''" "''0''" "[]" None 0 0]
  by (simp add: request_ok_def token_def bad_name_char_def is_char_def is_ctl_def is_tspecial_def
       schar_def uri_text_def digits_def isdigit_def dec_value_def digit_val_def) blast

lemma fold_fields: "fold_hlines (map (\<lambda>(k, v). Field k v) kvs) m = std_map.set_all kvs m"
  by (induction kvs arbitrary: m) (auto simp: fold_hlines_def std_map.set_all_def)

text \<open>
  With plain fields only, the header map is the one a reader of the request expects: looking a
  key up gives the value of its last occurrence, and the map is kept sorted by key.
\<close>

theorem headers_last_wins:
  assumes "request_ok m u ma mi (map (\<lambda>(k, v). Field k v) kvs)"
  shows "\<exists>p' r'. parse_chars new_request_parser (new_request mt v w)
         (request_text m u ma mi (map (\<lambda>(k, v). Field k v) kvs) @ t) = (Good, t, p', r')
       \<and> smap_find (req_headers r') = map_of (rev kvs) \<and> smap_ok (req_headers r')"
proof -
  let ?ls = "map (\<lambda>(k, v). Field k v) kvs"
  have "parse_chars new_request_parser (new_request mt v w) (request_text m u ma mi ?ls @ t)
     = (Good, t, parser_at S_expecting_newline_3, parsed_request u ma mi ?ls (new_request mt v w))"
    using assms by (intro parse_request_text) (simp_all add: new_request_def)
  moreover have "smap_find (fold_hlines ?ls []) = map_of (rev kvs)"
    by (rule ext) (simp add: fold_fields std_map.lookup_set_all map_add_def split: option.splits)
  ultimately show ?thesis
    by (auto simp: parsed_request_def new_request_def fold_fields std_map.invar_set_all)
qed

theorem headers_last_wins_witness:
  "\<exists>p' r'. parse_chars new_request_parser (new_request None 0 0)
       (request_text ''GET'' ''/'' ''1'' ''1'' [Field ''B'' ''x'', Field ''A'' ''y'', Field ''B'' ''z''] @ [])
       = (Good, [], p', r')
     \<and> smap_find (req_headers r') ''B'' = Some ''z''"
  using headers_last_wins [of "''GET''" "''/''" "''1''" "''1''"
      "[(''B'', ''x''), (''A'', ''y''), (''B'', ''z'')]" None 0 0 "[]"]
  by (auto simp: request_ok_def token_def bad_name_char_def is_char_def is_ctl_def is_tspecial_def
       schar_def uri_text_def digits_def isdigit_def field_text_def)

text \<open>
  A folded header line does not continue the header before it: that header keeps the value of
  its own line, and the text of the folded line is filed under the empty header name.
\<close>

theorem folded_line_misfiled:
  assumes "request_ok m u ma mi (ls @ [Field k x, Folded ws y])"
  shows "\<exists>p' r'. parse_chars new_request_parser (new_request mt v w)
         (request_text m u ma mi (ls @ [Field k x, Folded ws y]) @ t) = (Good, t, p', r')
       \<and> smap_find (req_headers r') k = Some x \<and> smap_find (req_headers r') [] = Some y"
proof -
  let ?ls = "ls @ [Field k x, Folded ws y]"
  have "parse_chars new_request_parser (new_request mt v w) (request_text m u ma mi ?ls @ t)
     = (Good, t, parser_at S_expecting_newline_3, parsed_request u ma mi ?ls (new_request mt v w))"
    using assms by (intro parse_request_text) (simp_all add: new_request_def)
  moreover have "hlines_ok [] (ls @ [Field k x])"
    using assms hlines_ok_snoc [of "[]" "ls @ [Field k x]" "Folded ws y"] by (simp add: request_ok_def)
  then have "token k" by (simp add: hlines_ok_snoc)
  ultimately show ?thesis
    by (auto simp: parsed_request_def fold_hlines_def smap_find_set token_def)
qed

theorem folded_line_misfiled_witness:
  "\<exists>p' r'. parse_chars new_request_parser (new_request None 0 0)
       (request_text ''GET'' ''/'' ''1'' ''1'' [Field ''K'' ''x'', Folded '' '' ''y''] @ [])
       = (Good, [], p', r')
     \<and> smap_find (req_headers r') ''K'' = Some ''x'' \<and> smap_find (req_headers r') [] = Some ''y''"
  using folded_line_misfiled [of "''GET''" "''/''" "''1''" "''1''" "[]" "''K''" "''x''" "'' ''" "''y''" None 0 0 "[]"]
  by (simp add: request_ok_def token_def bad_name_char_def is_char_def is_ctl_def is_tspecial_def
       schar_def uri_text_def digits_def isdigit_def field_text_def)

text \<open>
  The branch of the header-line state that would store a pending header is never taken: from a
  fresh parser, on any input, both temporaries are empty whenever a header line starts.
\<close>

theorem no_pending_header:
  assumes "parse_chars new_request_parser (new_request mt v w) s = (Indeterminate, rest, p', r')"
    and "rp_state p' = S_header_line_start"
  shows "temp_key p' = [] \<and> temp_value p' = []"
  using run_shape [OF _ shape_start assms(1)] assms(2) by (simp add: new_request_def)

theorem no_pending_header_witness:
  "\<exists>p' r'. parse_chars new_request_parser (new_request None 0 0) (''G / HTTP/1.1'' @ crlf)
       = (Indeterminate, [], p', r')
     \<and> temp_key p' = [] \<and> temp_value p' = []"
proof -
  obtain p' r' where run: "parse_chars new_request_parser (new_request None 0 0) (''G / HTTP/1.1'' @ crlf)
      = (Indeterminate, [], p', r')" and "rp_state p' = S_header_line_start"
    by (simp add: new_request_parser_def consume_cases clear_temps_def bad_name_char_def is_char_def
        is_ctl_def is_tspecial_def is_digit_def schar_def)
  with no_pending_header [OF run] show ?thesis by blast
qed

text \<open>
  The buffer-level \<open>parse\<close>: the recorded body is the C string at the start of the buffer, up to
  its first NUL and not up to \<open>end\<close>; the method is decided by the first three bytes alone and is
  left as it was when they name no method; and a buffer without a NUL is read past its end.
\<close>

theorem parse_body_and_method:
  assumes "3 \<le> length mem" "n \<le> length mem"
  shows "(NUL \<notin> set mem \<longrightarrow> parse p r mem n = Inl OutOfBoundsRead)
    \<and> (NUL \<in> set mem \<longrightarrow> (\<exists>res rest p' r'. parse p r mem n = Inr (res, rest, p', r')
        \<and> req_body r' = takeWhile (\<lambda>c. c \<noteq> NUL) mem
        \<and> req_method r' = (case map_of method_table (takeWhile (\<lambda>c. c \<noteq> NUL) (take 3 mem)) of
             Some m \<Rightarrow> Some m | None \<Rightarrow> req_method r)))"
proof (cases "NUL \<in> set mem")
  case False
  have gone: "c_string mem = None" using False by simp
  have "parse p r mem n = Inl OutOfBoundsRead" by (simp only: parse_def gone option.case)
  with False show ?thesis by simp
next
  case True
  let ?b = "takeWhile (\<lambda>c. c \<noteq> NUL) mem"
  let ?m = "takeWhile (\<lambda>c. c \<noteq> NUL) (take 3 mem)"
  let ?r = "parse_method (r\<lparr>req_body := ?b\<rparr>) mem"
  have m: "the (c_string (take 3 mem @ [NUL])) = ?m"
    by (simp add: c_string_takeWhile)
  obtain res rest p' r' where run: "parse_chars p ?r (take n mem) = (res, rest, p', r')"
    by (cases "parse_chars p ?r (take n mem)") auto
  then have "parse p r mem n = Inr (res, rest, p', r')"
    using True assms by (simp add: parse_def c_string_takeWhile)
  moreover have "req_body r' = ?b" "req_method r' = req_method ?r"
    using parse_chars_frame [OF run] by (auto simp: parse_method_def split: option.splits)
  moreover have "req_method ?r = (case map_of method_table ?m of Some m \<Rightarrow> Some m | None \<Rightarrow> req_method r)"
    by (simp add: parse_method_def m split: option.splits)
  ultimately show ?thesis using True by simp
qed

theorem parse_body_and_method_witness:
  "parse new_request_parser (new_request None 0 0) ''GET'' 3 = Inl OutOfBoundsRead
   \<and> (\<exists>res rest p' r'. parse new_request_parser (new_request None 0 0) (''GETX /'' @ [NUL, CHR ''z'']) 2
        = Inr (res, rest, p', r') \<and> req_body r' = ''GETX /'' \<and> req_method r' = Some GET_REQ)"
  using parse_body_and_method [of "''GET''" 3 new_request_parser "new_request None 0 0"]
    parse_body_and_method [of "''GETX /'' @ [NUL, CHR ''z'']" 2 new_request_parser "new_request None 0 0"]
  by (simp add: method_table_def)

end
