(* ===== verification/Nginx_Config.thy ===== *)
theory Nginx_Config
  imports Prelude
begin

text \<open>
  The configuration language of \<open>src/config_parser\<close>: statements and blocks
  (\<open>nginx_config_statement.cc\<close>, \<open>nginx_config.cc\<close>), the tokenizer \<open>ParseToken\<close> and the parser
  \<open>Parse\<close> (\<open>nginx_config_parser.cc\<close>), and the look-ups \<open>GetConfig\<close> and \<open>GetPort\<close>.
\<close>

section \<open>Statements and blocks\<close>

text \<open>
  An \<open>NginxConfig\<close> is its list of statements; a statement has its tokens and, when it opened a
  block, the block as its child.
\<close>

datatype nginx_statement =
  Statement (st_tokens: "string list") (st_child: "nginx_statement list option")

type_synonym nginx_config = "nginx_statement list"

definition indent :: "nat \<Rightarrow> string" where
  "indent depth = concat (replicate depth ''  '')"

fun join_tokens :: "string list \<Rightarrow> string" where
  "join_tokens [] = []"
| "join_tokens [t] = t"
| "join_tokens (t # ts) = t @ '' '' @ join_tokens ts"

fun statement_to_string :: "nat \<Rightarrow> nginx_statement \<Rightarrow> string"
and config_to_string :: "nat \<Rightarrow> nginx_config \<Rightarrow> string" where
  "statement_to_string depth (Statement ts ch) =
     indent depth @ join_tokens ts @
     (case ch of
        Some block \<Rightarrow> '' {'' @ [LF] @ config_to_string (Suc depth) block @ indent depth @ ''}''
      | None \<Rightarrow> '';'') @ [LF]"
| "config_to_string depth [] = []"
| "config_to_string depth (s # ss) = statement_to_string depth s @ config_to_string depth ss"

text \<open>
  \<open>GetConfig\<close>: the token after the first token equal to the key, statement by statement, a block
  right after the statement that holds it. The variable \<open>prev\<close> starts as the empty string.
\<close>

fun scan_tokens :: "string \<Rightarrow> string \<Rightarrow> string list \<Rightarrow> string option" where
  "scan_tokens key prev [] = None"
| "scan_tokens key prev (t # ts) = (if prev = key then Some t else scan_tokens key t ts)"

fun get_config :: "string \<Rightarrow> nginx_config \<Rightarrow> string" where
  "get_config key [] = []"
| "get_config key (Statement ts ch # ss) =
     (case scan_tokens key [] ts of
        Some t \<Rightarrow> t
      | None \<Rightarrow>
          (case ch of
             Some block \<Rightarrow>
               (let inner = get_config key block
                in if inner \<noteq> [] then inner else get_config key ss)
           | None \<Rightarrow> get_config key ss))"

section \<open>Tokens\<close>

datatype token_type =
    T_START | T_NORMAL | T_START_BLOCK | T_END_BLOCK
  | T_COMMENT | T_STATEMENT_END | T_EOF | T_ERROR

fun token_type_as_string :: "token_type \<Rightarrow> string" where
  "token_type_as_string T_START = ''TOKEN_TYPE_START''"
| "token_type_as_string T_NORMAL = ''TOKEN_TYPE_NORMAL''"
| "token_type_as_string T_START_BLOCK = ''TOKEN_TYPE_START_BLOCK''"
| "token_type_as_string T_END_BLOCK = ''TOKEN_TYPE_END_BLOCK''"
| "token_type_as_string T_COMMENT = ''TOKEN_TYPE_COMMENT''"
| "token_type_as_string T_STATEMENT_END = ''TOKEN_TYPE_STATEMENT_END''"
| "token_type_as_string T_EOF = ''TOKEN_TYPE_EOF''"
| "token_type_as_string T_ERROR = ''TOKEN_TYPE_ERROR''"

datatype token_state =
    TS_INITIAL_WHITESPACE | TS_SINGLE_QUOTE | TS_DOUBLE_QUOTE | TS_COMMENT | TS_NORMAL

text \<open>
  The loop of \<open>ParseToken\<close> over the characters left in the stream, with the state and the value
  collected so far: the token's type, its value and the stream after it. A normal token is ended by
  a delimiter that is put back (\<open>unget\<close>).
\<close>

definition ends_normal :: "char \<Rightarrow> bool" where
  "ends_normal c \<longleftrightarrow>
     c = CHR '' '' \<or> c = TAB \<or> c = LF \<or> c = TAB \<or> c = CHR '';'' \<or> c = CHR ''{'' \<or> c = CHR ''}''"

fun token_loop :: "token_state \<Rightarrow> string \<Rightarrow> string \<Rightarrow> token_type \<times> string \<times> string" where
  "token_loop st v [] =
     (if st = TS_SINGLE_QUOTE \<or> st = TS_DOUBLE_QUOTE then (T_ERROR, v, []) else (T_EOF, v, []))"
| "token_loop TS_INITIAL_WHITESPACE v (c # cs) =
     (if c = CHR ''{'' then (T_START_BLOCK, [c], cs)
      else if c = CHR ''}'' then (T_END_BLOCK, [c], cs)
      else if c = CHR ''#'' then token_loop TS_COMMENT [c] cs
      else if c = DQUOTE then token_loop TS_DOUBLE_QUOTE [c] cs
      else if c = SQUOTE then token_loop TS_SINGLE_QUOTE [c] cs
      else if c = CHR '';'' then (T_STATEMENT_END, [c], cs)
      else if c = CHR '' '' \<or> c = TAB \<or> c = LF \<or> c = CR then token_loop TS_INITIAL_WHITESPACE v cs
      else token_loop TS_NORMAL (v @ [c]) cs)"
| "token_loop TS_SINGLE_QUOTE v (c # cs) =
     (if c = SQUOTE then (T_NORMAL, v @ [c], cs) else token_loop TS_SINGLE_QUOTE (v @ [c]) cs)"
| "token_loop TS_DOUBLE_QUOTE v (c # cs) =
     (if c = DQUOTE then (T_NORMAL, v @ [c], cs) else token_loop TS_DOUBLE_QUOTE (v @ [c]) cs)"
| "token_loop TS_COMMENT v (c # cs) =
     (if c = LF \<or> c = CR then (T_COMMENT, v, cs) else token_loop TS_COMMENT (v @ [c]) cs)"
| "token_loop TS_NORMAL v (c # cs) =
     (if ends_normal c then (T_NORMAL, v, c # cs) else token_loop TS_NORMAL (v @ [c]) cs)"

definition parse_token :: "string \<Rightarrow> token_type \<times> string \<times> string" where
  "parse_token input = token_loop TS_INITIAL_WHITESPACE [] input"

lemma token_loop_shorter: "length (snd (snd (token_loop st v s))) \<le> length s"
proof (induction s arbitrary: st v)
  case Nil
  then show ?case by simp
next
  case (Cons c cs)
  have later: "length (snd (snd (token_loop st' v' cs))) \<le> Suc (length cs)" for st' v'
    using Cons.IH [of st' v'] by simp
  show ?case by (cases st) (simp_all add: later)
qed

lemma parse_token_progress:
  assumes "parse_token s = (ty, t, rest)" "ty \<noteq> T_EOF" "ty \<noteq> T_ERROR"
  shows "length rest < length s"
proof -
  have "fst (token_loop TS_INITIAL_WHITESPACE v s) \<in> {T_EOF, T_ERROR}
      \<or> length (snd (snd (token_loop TS_INITIAL_WHITESPACE v s))) < length s" for v
  proof (induction s arbitrary: v)
    case Nil
    then show ?case by simp
  next
    case (Cons c cs)
    have later: "length (snd (snd (token_loop st' v' cs))) < Suc (length cs)" for st' v'
      using token_loop_shorter [of st' v' cs] by simp
    show ?case by (simp add: later)
  qed
  from this [of "[]"] assms show ?thesis by (simp add: parse_token_def)
qed

section \<open>The parser\<close>

text \<open>
  The stack of open blocks, innermost first. In the code every block but the outermost is the
  child of the last statement of the block below it; \<open>close_blocks\<close> is the tree those pointers
  make.
\<close>

record config_parser =
  blocks :: "nginx_config list"
  last_token :: token_type
  block_counter :: int

definition set_last_child :: "nginx_config \<Rightarrow> nginx_config \<Rightarrow> nginx_config" where
  "set_last_child outer inner =
     butlast outer @ [Statement (st_tokens (last outer)) (Some inner)]"

fun close_blocks :: "nginx_config list \<Rightarrow> nginx_config" where
  "close_blocks [] = []"
| "close_blocks [b] = b"
| "close_blocks (b # outer # bs) = close_blocks (set_last_child outer b # bs)"

datatype step_result = Go_on config_parser | Accept | Reject

text \<open>\<open>statements_.back()\<close> of an empty vector is undefined, as is popping the last block.\<close>

definition append_token :: "string \<Rightarrow> nginx_config list \<Rightarrow> cpp_fault + nginx_config list" where
  "append_token t bs =
     (case bs of
        b # outer \<Rightarrow>
          (if b = [] then Inl OutOfBoundsRead
           else Inr ((butlast b @ [Statement (st_tokens (last b) @ [t]) (st_child (last b))]) # outer))
      | [] \<Rightarrow> Inl OutOfBoundsRead)"

definition new_statement :: "nginx_config list \<Rightarrow> nginx_config list" where
  "new_statement bs = (case bs of b # outer \<Rightarrow> (b @ [Statement [] None]) # outer | [] \<Rightarrow> [])"

definition parse_step :: "config_parser \<Rightarrow> token_type \<Rightarrow> string \<Rightarrow> cpp_fault + step_result" where
  "parse_step p ty tok =
     (let lt = last_token p in
      case ty of
        T_ERROR \<Rightarrow> Inr Reject
      | T_COMMENT \<Rightarrow> Inr (Go_on p)
      | T_START \<Rightarrow> Inr Reject
      | T_NORMAL \<Rightarrow>
          (if lt = T_START \<or> lt = T_STATEMENT_END \<or> lt = T_START_BLOCK \<or> lt = T_END_BLOCK \<or> lt = T_NORMAL
           then rbind (append_token tok (if lt \<noteq> T_NORMAL then new_statement (blocks p) else blocks p))
                  (\<lambda>bs. Inr (Go_on (p\<lparr>blocks := bs, last_token := ty\<rparr>)))
           else Inr Reject)
      | T_STATEMENT_END \<Rightarrow>
          (if lt \<noteq> T_NORMAL then Inr Reject else Inr (Go_on (p\<lparr>last_token := ty\<rparr>)))
      | T_START_BLOCK \<Rightarrow>
          (if lt \<noteq> T_NORMAL then Inr Reject
           else case blocks p of
                  b # outer \<Rightarrow>
                    (if b = [] then Inl OutOfBoundsRead
                     else Inr (Go_on (p\<lparr>blocks := [] # b # outer,
                            block_counter := block_counter p + 1, last_token := ty\<rparr>)))
                | [] \<Rightarrow> Inl OutOfBoundsRead)
      | T_END_BLOCK \<Rightarrow>
          (if (lt \<noteq> T_STATEMENT_END \<and> lt \<noteq> T_START_BLOCK \<and> lt \<noteq> T_END_BLOCK) \<or> block_counter p \<le> 0
           then Inr Reject
           else case blocks p of
                  b # outer # bs \<Rightarrow>
                    Inr (Go_on (p\<lparr>blocks := set_last_child outer b # bs,
                          block_counter := block_counter p - 1, last_token := ty\<rparr>))
                | _ \<Rightarrow> Inl OutOfBoundsRead)
      | T_EOF \<Rightarrow>
          (if (lt \<noteq> T_STATEMENT_END \<and> lt \<noteq> T_END_BLOCK \<and> lt \<noteq> T_START) \<or> block_counter p \<noteq> 0
           then Inr Reject else Inr Accept))"

text \<open>
  The \<open>while (true)\<close> loop: whether the file is valid, the configuration as far as it was built and,
  on an error, the message that is logged.
\<close>

definition bad_transition :: "token_type \<Rightarrow> token_type \<Rightarrow> string" where
  "bad_transition lt ty =
     ''Bad config file transition from '' @ token_type_as_string lt @ '' to '' @ token_type_as_string ty"

lemma parse_step_stops:
  "ty = T_EOF \<or> ty = T_ERROR \<Longrightarrow> parse_step p ty tok \<noteq> Inr (Go_on p')"
  by (auto simp: parse_step_def Let_def)

lemma parse_step_progress:
  "(ty, tok, rest) = parse_token s \<Longrightarrow> parse_step p ty tok = Inr (Go_on p') \<Longrightarrow> length rest < length s"
  using parse_step_stops [of ty p tok p'] parse_token_progress [of s ty tok rest] by auto

function parse_loop :: "config_parser \<Rightarrow> string \<Rightarrow> cpp_fault + (bool \<times> nginx_config \<times> string option)" where
  "parse_loop p input =
     (case parse_token input of (ty, tok, rest) \<Rightarrow>
        (case parse_step p ty tok of
           Inl e \<Rightarrow> Inl e
         | Inr Accept \<Rightarrow> Inr (True, close_blocks (blocks p), None)
         | Inr Reject \<Rightarrow>
             Inr (False, close_blocks (blocks p), Some (bad_transition (last_token p) ty))
         | Inr (Go_on p') \<Rightarrow> parse_loop p' rest))"
  by pat_completeness auto
termination by (relation "measure (\<lambda>(p, input). length input)") (auto dest: parse_step_progress)

declare parse_loop.simps [simp del]

definition parse_config :: "string \<Rightarrow> nginx_config \<Rightarrow> cpp_fault + (bool \<times> nginx_config \<times> string option)" where
  "parse_config input config =
     parse_loop \<lparr>blocks = [config], last_token = T_START, block_counter = 0\<rparr> input"

section \<open>Files and the port\<close>

text \<open>
  \<open>Parse\<close> of a file name: \<open>None\<close> is a file that cannot be opened. The messages that are logged are
  the last component.
\<close>

definition parse_file ::
  "string \<Rightarrow> string option \<Rightarrow> nginx_config \<Rightarrow> cpp_fault + (bool \<times> nginx_config \<times> string option)" where
  "parse_file name content config =
     (case content of
        None \<Rightarrow> Inr (False, config, Some (''Failed to open config file: '' @ name))
      | Some text \<Rightarrow> parse_config text config)"

text \<open>
  \<open>GetPort\<close> does not look at what \<open>Parse\<close> returned; every exception of \<open>stoi\<close> is caught, leaving
  -1, and its \<open>int\<close> is converted to \<open>short\<close>. The pointer through which it calls \<open>Parse\<close> is never set;
  that is undefined behaviour in C++. \<open>Parse\<close> is not virtual and uses no member of its object that it
  does not set first, so the call is rendered as the one a compiler makes of it: a call that works.
\<close>

type_synonym i16 = "16 word"

definition get_port :: "string \<Rightarrow> string option \<Rightarrow> nginx_config \<Rightarrow> cpp_fault + (i16 \<times> nginx_config)" where
  "get_port name content config =
     rbind (parse_file name content config) (\<lambda>(valid, cfg, msg).
       case stoi (get_config ''port'' cfg) of
         Inr n \<Rightarrow> Inr (word_of_int n, cfg)
       | Inl e \<Rightarrow> Inr (- 1, cfg))"

section \<open>What the printer writes and the tokenizer reads\<close>

text \<open>
  A token the tokenizer can yield: a bare word, or a quoted text with its quotes. A configuration
  the parser can build: every statement has at least one token and all its tokens are of that form.
\<close>

definition ends_initial :: "char \<Rightarrow> bool" where
  "ends_initial c \<longleftrightarrow>
     c = CHR ''{'' \<or> c = CHR ''}'' \<or> c = CHR ''#'' \<or> c = DQUOTE \<or> c = SQUOTE \<or> c = CHR '';''
     \<or> c = CHR '' '' \<or> c = TAB \<or> c = LF \<or> c = CR"

definition bare_word :: "string \<Rightarrow> bool" where
  "bare_word t \<longleftrightarrow> (case t of [] \<Rightarrow> False | c # cs \<Rightarrow> \<not> ends_initial c \<and> list_all (\<lambda>x. \<not> ends_normal x) cs)"

definition quoted :: "char \<Rightarrow> string \<Rightarrow> bool" where
  "quoted q t \<longleftrightarrow> 2 \<le> length t \<and> hd t = q \<and> last t = q \<and> q \<notin> set (butlast (tl t))"

definition token_ok :: "string \<Rightarrow> bool" where
  "token_ok t \<longleftrightarrow> bare_word t \<or> quoted SQUOTE t \<or> quoted DQUOTE t"

fun statement_ok :: "nginx_statement \<Rightarrow> bool" where
  "statement_ok (Statement ts ch) \<longleftrightarrow>
     ts \<noteq> [] \<and> list_all token_ok ts \<and> (case ch of None \<Rightarrow> True | Some b \<Rightarrow> list_all statement_ok b)"

abbreviation config_ok :: "nginx_config \<Rightarrow> bool" where
  "config_ok cfg \<equiv> list_all statement_ok cfg"

lemma quoted_iff: "quoted q t \<longleftrightarrow> (\<exists>w. t = q # w @ [q] \<and> q \<notin> set w)"
proof
  assume q: "quoted q t"
  then obtain a b cs where t: "t = a # b # cs"
    by (metis quoted_def One_nat_def Suc_1 Suc_le_length_iff)
  then have "t = q # butlast (b # cs) @ [q]"
    using q append_butlast_last_id [of "b # cs"] by (simp add: quoted_def)
  moreover have "q \<notin> set (butlast (b # cs))"
    using q t by (simp add: quoted_def)
  ultimately show "\<exists>w. t = q # w @ [q] \<and> q \<notin> set w" by blast
qed (auto simp: quoted_def butlast_append)

lemma token_ok_cases:
  assumes "token_ok t"
  obtains (bare) c cs where "t = c # cs" "\<not> ends_initial c" "list_all (\<lambda>x. \<not> ends_normal x) cs"
    | (quoted) q w where "q = SQUOTE \<or> q = DQUOTE" "t = q # w @ [q]" "q \<notin> set w"
  using assms by (auto simp: token_ok_def bare_word_def quoted_iff split: list.splits)

lemma token_ok_nonempty: "token_ok t \<Longrightarrow> t \<noteq> []"
  by (auto elim: token_ok_cases)

lemma loop_normal:
  "list_all (\<lambda>x. \<not> ends_normal x) cs \<Longrightarrow> ends_normal c \<Longrightarrow>
     token_loop TS_NORMAL v (cs @ c # s) = (T_NORMAL, v @ cs, c # s)"
  by (induction cs arbitrary: v) auto

lemma loop_normal_end:
  "list_all (\<lambda>x. \<not> ends_normal x) cs \<Longrightarrow> token_loop TS_NORMAL v cs = (T_EOF, v @ cs, [])"
  by (induction cs arbitrary: v) auto

lemma loop_quote:
  "SQUOTE \<notin> set w \<Longrightarrow>
     token_loop TS_SINGLE_QUOTE v (w @ SQUOTE # s) = (T_NORMAL, v @ w @ [SQUOTE], s)"
  "DQUOTE \<notin> set w \<Longrightarrow>
     token_loop TS_DOUBLE_QUOTE v (w @ DQUOTE # s) = (T_NORMAL, v @ w @ [DQUOTE], s)"
  by (induction w arbitrary: v) auto

lemma loop_quote_end:
  "SQUOTE \<notin> set w \<Longrightarrow> token_loop TS_SINGLE_QUOTE v w = (T_ERROR, v @ w, [])"
  "DQUOTE \<notin> set w \<Longrightarrow> token_loop TS_DOUBLE_QUOTE v w = (T_ERROR, v @ w, [])"
  by (induction w arbitrary: v) auto

lemma loop_comment:
  "LF \<notin> set w \<Longrightarrow> CR \<notin> set w \<Longrightarrow> c = LF \<or> c = CR \<Longrightarrow>
     token_loop TS_COMMENT v (w @ c # s) = (T_COMMENT, v @ w, s)"
  by (induction w arbitrary: v) auto

named_theorems scan_simps

lemma scan_token [scan_simps]:
  assumes "token_ok t" "ends_normal c"
  shows "parse_token (t @ c # s) = (T_NORMAL, t, c # s)"
  using assms(1)
proof (cases rule: token_ok_cases)
  case (bare a cs)
  then show ?thesis
    using assms(2) by (simp add: parse_token_def ends_initial_def loop_normal)
next
  case (quoted q w)
  then show ?thesis
    using assms(2) by (auto simp: parse_token_def loop_quote)
qed

lemma scan_blank [scan_simps]:
  "parse_token (CHR '' '' # s) = parse_token s"
  "parse_token (LF # s) = parse_token s"
  by (simp_all add: parse_token_def)

lemma scan_indent [scan_simps]: "parse_token (indent d @ s) = parse_token s"
  by (induction d) (simp_all add: indent_def scan_blank)

lemma scan_mark [scan_simps]:
  "parse_token (CHR '';'' # s) = (T_STATEMENT_END, '';'', s)"
  "parse_token (CHR ''{'' # s) = (T_START_BLOCK, ''{'', s)"
  "parse_token (CHR ''}'' # s) = (T_END_BLOCK, ''}'', s)"
  "parse_token [] = (T_EOF, [], [])"
  by (simp_all add: parse_token_def)

lemma parse_loop_eq: "parse_token s = parse_token s' \<Longrightarrow> parse_loop p s = parse_loop p s'"
  by (subst (1 2) parse_loop.simps) simp

lemmas loop_skip = parse_loop_eq [OF scan_blank(1)] parse_loop_eq [OF scan_blank(2)]
  parse_loop_eq [OF scan_indent]

section \<open>Parsing what was printed\<close>

text \<open>The token types after which a statement can begin.\<close>

definition at_boundary :: "token_type \<Rightarrow> bool" where
  "at_boundary ty \<longleftrightarrow> ty = T_START \<or> ty = T_STATEMENT_END \<or> ty = T_START_BLOCK \<or> ty = T_END_BLOCK"

lemma loop_next_token:
  assumes "token_ok t" "ends_normal c"
  shows "parse_loop \<lparr>blocks = (b @ [Statement ts None]) # outer, last_token = T_NORMAL, block_counter = n\<rparr>
      (t @ c # s) =
    parse_loop \<lparr>blocks = (b @ [Statement (ts @ [t]) None]) # outer, last_token = T_NORMAL, block_counter = n\<rparr>
      (c # s)"
  by (subst parse_loop.simps) (simp add: scan_simps assms parse_step_def append_token_def)

lemma loop_first_token:
  assumes "token_ok t" "ends_normal c" "at_boundary lt"
  shows "parse_loop \<lparr>blocks = b # outer, last_token = lt, block_counter = n\<rparr> (t @ c # s) =
    parse_loop \<lparr>blocks = (b @ [Statement [t] None]) # outer, last_token = T_NORMAL, block_counter = n\<rparr>
      (c # s)"
  using assms(3)
  by (subst parse_loop.simps)
     (auto simp: scan_simps assms parse_step_def append_token_def new_statement_def at_boundary_def)

lemma loop_more_tokens:
  assumes "list_all token_ok us" "ends_normal c"
  shows "parse_loop \<lparr>blocks = (b @ [Statement ts None]) # outer, last_token = T_NORMAL, block_counter = n\<rparr>
      (join_tokens us @ c # s) =
    parse_loop \<lparr>blocks = (b @ [Statement (ts @ us) None]) # outer, last_token = T_NORMAL, block_counter = n\<rparr>
      (c # s)"
  using assms(1)
proof (induction us arbitrary: ts rule: join_tokens.induct)
  case (3 t u us)
  have "ends_normal (CHR '' '')" by (simp add: ends_normal_def)
  with 3 show ?case by (simp add: loop_next_token loop_skip)
qed (simp_all add: loop_next_token assms(2))

lemma loop_tokens:
  assumes "list_all token_ok ts" "ts \<noteq> []" "ends_normal c" "at_boundary lt"
  shows "parse_loop \<lparr>blocks = b # outer, last_token = lt, block_counter = n\<rparr> (join_tokens ts @ c # s) =
    parse_loop \<lparr>blocks = (b @ [Statement ts None]) # outer, last_token = T_NORMAL, block_counter = n\<rparr>
      (c # s)"
proof (cases ts rule: join_tokens.cases)
  case (3 t u us)
  have "ends_normal (CHR '' '')" by (simp add: ends_normal_def)
  with 3 assms show ?thesis
    using loop_more_tokens [of "u # us" c b "[t]" outer n s]
    by (simp add: loop_first_token loop_skip)
qed (use assms in \<open>simp_all add: loop_first_token\<close>)

lemma loop_end_statement:
  "parse_loop \<lparr>blocks = bs, last_token = T_NORMAL, block_counter = n\<rparr> (CHR '';'' # s) =
    parse_loop \<lparr>blocks = bs, last_token = T_STATEMENT_END, block_counter = n\<rparr> s"
  by (subst parse_loop.simps) (simp add: scan_simps parse_step_def)

lemma loop_open_block:
  "b \<noteq> [] \<Longrightarrow>
    parse_loop \<lparr>blocks = b # outer, last_token = T_NORMAL, block_counter = n\<rparr> (CHR ''{'' # s) =
    parse_loop \<lparr>blocks = [] # b # outer, last_token = T_START_BLOCK, block_counter = n + 1\<rparr> s"
  by (subst parse_loop.simps) (simp add: scan_simps parse_step_def)

lemma loop_close_block:
  "at_boundary lt \<Longrightarrow> lt \<noteq> T_START \<Longrightarrow> 0 < n \<Longrightarrow>
    parse_loop \<lparr>blocks = inner # (b @ [Statement ts None]) # outer, last_token = lt, block_counter = n\<rparr>
      (CHR ''}'' # s) =
    parse_loop \<lparr>blocks = (b @ [Statement ts (Some inner)]) # outer, last_token = T_END_BLOCK,
      block_counter = n - 1\<rparr> s"
  by (subst parse_loop.simps)
     (auto simp: scan_simps parse_step_def at_boundary_def set_last_child_def)

fun end_token :: "nginx_statement \<Rightarrow> token_type" where
  "end_token (Statement ts ch) = (if ch = None then T_STATEMENT_END else T_END_BLOCK)"

definition token_after :: "token_type \<Rightarrow> nginx_config \<Rightarrow> token_type" where
  "token_after lt cfg = (if cfg = [] then lt else end_token (last cfg))"

lemma end_token_boundary [simp]: "at_boundary (end_token st)" "end_token st \<noteq> T_START"
  by (cases st; simp add: at_boundary_def)+

lemma token_after_boundary: "at_boundary lt \<Longrightarrow> at_boundary (token_after lt cfg)"
  by (simp add: token_after_def)

lemma token_after_Cons: "token_after (end_token st) cfg = token_after lt (st # cfg)"
  by (simp add: token_after_def)

lemma loop_statement:
  "statement_ok st \<Longrightarrow> at_boundary lt \<Longrightarrow> 0 \<le> n \<Longrightarrow>
    parse_loop \<lparr>blocks = b # outer, last_token = lt, block_counter = n\<rparr> (statement_to_string d st @ s) =
    parse_loop \<lparr>blocks = (b @ [st]) # outer, last_token = end_token st, block_counter = n\<rparr> s"
  "config_ok cfg \<Longrightarrow> at_boundary lt \<Longrightarrow> 0 \<le> n \<Longrightarrow>
    parse_loop \<lparr>blocks = b # outer, last_token = lt, block_counter = n\<rparr> (config_to_string d cfg @ s) =
    parse_loop \<lparr>blocks = (b @ cfg) # outer, last_token = token_after lt cfg, block_counter = n\<rparr> s"
proof (induction d st and d cfg arbitrary: b outer lt n s and b outer lt n s
    rule: statement_to_string_config_to_string.induct)
  case (1 d ts ch)
  have delim: "ends_normal (CHR '' '')" "ends_normal (CHR '';'')"
    by (simp_all add: ends_normal_def)
  have block: "at_boundary T_START_BLOCK" by (simp add: at_boundary_def)
  show ?case
  proof (cases ch)
    case None
    with 1 delim show ?thesis
      by (simp add: loop_skip loop_tokens loop_end_statement)
  next
    case (Some inner)
    have after: "at_boundary (token_after T_START_BLOCK inner)" "token_after T_START_BLOCK inner \<noteq> T_START"
      by (simp_all add: block token_after_boundary token_after_def)
    from 1 Some have "list_all token_ok ts" "ts \<noteq> []" "config_ok inner" by auto
    with 1 Some delim block after show ?thesis
      by (simp add: loop_skip loop_tokens loop_open_block loop_close_block)
  qed
next
  case (2 d)
  then show ?case by (simp add: token_after_def)
next
  case (3 d st ss)
  then show ?case by (simp add: token_after_Cons [of st ss lt])
qed

section \<open>What every parse keeps\<close>

text \<open>
  The stack has one block more than there are open braces; below the top, each block ends in the
  statement whose child is still open; after a word the top block ends in a statement without child.
\<close>

definition block_open :: "nginx_config \<Rightarrow> bool" where
  "block_open b \<longleftrightarrow> b \<noteq> [] \<and> st_child (last b) = None"

definition parser_ok :: "config_parser \<Rightarrow> bool" where
  "parser_ok p \<longleftrightarrow>
     blocks p \<noteq> [] \<and> int (length (blocks p)) = block_counter p + 1
     \<and> list_all config_ok (blocks p) \<and> list_all block_open (tl (blocks p))
     \<and> (last_token p = T_NORMAL \<longrightarrow> block_open (hd (blocks p)))
     \<and> (last_token p = T_NORMAL \<or> at_boundary (last_token p))"

lemma statement_ok_alt:
  "statement_ok st \<longleftrightarrow> st_tokens st \<noteq> [] \<and> list_all token_ok (st_tokens st)
     \<and> (case st_child st of None \<Rightarrow> True | Some b \<Rightarrow> config_ok b)"
  by (cases st) simp

lemma config_ok_snoc: "config_ok b \<Longrightarrow> b \<noteq> [] \<Longrightarrow> config_ok (butlast b) \<and> statement_ok (last b)"
  by (cases b rule: rev_cases) auto

lemma snoc_cases: "b \<noteq> [] \<Longrightarrow> \<exists>b' ts ch. b = b' @ [Statement ts ch]"
  by (metis append_butlast_last_id nginx_statement.exhaust)

lemma word_ok:
  assumes "parse_token s = (T_NORMAL, t, rest)"
  shows "token_ok t"
proof -
  have normal: "token_loop TS_NORMAL (c # v) s = (T_NORMAL, t, rest) \<Longrightarrow>
      list_all (\<lambda>x. \<not> ends_normal x) v \<Longrightarrow> \<not> ends_initial c \<Longrightarrow> bare_word t" for c v s
    by (induction s arbitrary: v) (force simp: bare_word_def split: if_splits)+
  have single: "token_loop TS_SINGLE_QUOTE (SQUOTE # v) s = (T_NORMAL, t, rest) \<Longrightarrow> SQUOTE \<notin> set v \<Longrightarrow>
      quoted SQUOTE t" for v s
    by (induction s arbitrary: v) (force simp: quoted_iff split: if_splits)+
  have double: "token_loop TS_DOUBLE_QUOTE (DQUOTE # v) s = (T_NORMAL, t, rest) \<Longrightarrow> DQUOTE \<notin> set v \<Longrightarrow>
      quoted DQUOTE t" for v s
    by (induction s arbitrary: v) (force simp: quoted_iff split: if_splits)+
  have comment: "token_loop TS_COMMENT v s \<noteq> (T_NORMAL, t, rest)" for v s
    by (induction s arbitrary: v) auto
  from assms show ?thesis
    unfolding parse_token_def
  proof (induction s)
    case Nil
    then show ?case by simp
  next
    case (Cons c cs)
    show ?case
    proof (cases "ends_initial c")
      case True
      with Cons single [of "[]" cs] double [of "[]" cs] comment [of "[c]" cs] show ?thesis
        unfolding ends_initial_def by (elim disjE) (simp_all add: token_ok_def)
    next
      case False
      with Cons.prems normal [of c "[]" cs] show ?thesis
        by (simp add: token_ok_def ends_initial_def)
    qed
  qed
qed

lemma step_word:
  assumes "parser_ok p" "token_ok t"
  shows "\<exists>p'. parse_step p T_NORMAL t = Inr (Go_on p') \<and> parser_ok p'"
proof -
  obtain b outer where p: "blocks p = b # outer"
    using assms(1) by (cases "blocks p") (auto simp: parser_ok_def)
  show ?thesis
  proof (cases "last_token p = T_NORMAL")
    case True
    with p assms obtain b' ts where "b = b' @ [Statement ts None]"
      using snoc_cases [of b] by (auto simp: parser_ok_def block_open_def)
    with True p assms show ?thesis
      by (auto simp: parse_step_def append_token_def parser_ok_def block_open_def)
  next
    case False
    with p assms show ?thesis
      by (auto simp: parse_step_def append_token_def new_statement_def parser_ok_def block_open_def
            at_boundary_def)
  qed
qed

lemma step_open:
  assumes "parser_ok p"
  shows "\<exists>q. parse_step p T_START_BLOCK t = Inr q \<and> (\<forall>p'. q = Go_on p' \<longrightarrow> parser_ok p') \<and> q \<noteq> Accept"
proof -
  obtain b outer where p: "blocks p = b # outer"
    using assms by (cases "blocks p") (auto simp: parser_ok_def)
  with assms show ?thesis
    by (auto simp: parse_step_def parser_ok_def block_open_def at_boundary_def)
qed

lemma step_close:
  assumes "parser_ok p"
  shows "\<exists>q. parse_step p T_END_BLOCK t = Inr q \<and> (\<forall>p'. q = Go_on p' \<longrightarrow> parser_ok p') \<and> q \<noteq> Accept"
proof (cases "last_token p \<noteq> T_NORMAL \<and> 0 < block_counter p")
  case True
  with assms obtain inner b outer where p: "blocks p = inner # b # outer"
    by (cases "blocks p" rule: remdups_adj.cases) (auto simp: parser_ok_def)
  with assms obtain b' ts where "b = b' @ [Statement ts None]"
    using snoc_cases [of b] by (auto simp: parser_ok_def block_open_def)
  with True p assms show ?thesis
    by (auto simp: parse_step_def parser_ok_def set_last_child_def at_boundary_def)
next
  case False
  then show ?thesis by (auto simp: parse_step_def)
qed

lemma step_other:
  assumes "parser_ok p" "ty \<notin> {T_NORMAL, T_START_BLOCK, T_END_BLOCK}"
  shows "\<exists>q. parse_step p ty t = Inr q \<and> (\<forall>p'. q = Go_on p' \<longrightarrow> parser_ok p')
    \<and> (q = Accept \<longrightarrow> last_token p \<noteq> T_NORMAL \<and> block_counter p = 0)"
  using assms by (cases ty) (auto simp: parse_step_def parser_ok_def block_open_def at_boundary_def)

lemma parse_step_ok:
  assumes "parser_ok p" "parse_token s = (ty, t, rest)"
  obtains (Go_on) p' where "parse_step p ty t = Inr (Go_on p')" "parser_ok p'"
    | (Accept) "parse_step p ty t = Inr Accept" "last_token p \<noteq> T_NORMAL" "block_counter p = 0"
    | (Reject) "parse_step p ty t = Inr Reject"
proof (cases "parse_step p ty t")
  case (Inl e)
  have "\<exists>q. parse_step p ty t = Inr q"
    using step_word [OF assms(1), of t] step_open [OF assms(1), of t] step_close [OF assms(1), of t]
      step_other [OF assms(1), of ty t] word_ok [of s t rest] assms(2)
    by (cases ty) auto
  with Inl show thesis by simp
next
  case (Inr q)
  have ok: "(\<forall>p'. q = Go_on p' \<longrightarrow> parser_ok p')
      \<and> (q = Accept \<longrightarrow> last_token p \<noteq> T_NORMAL \<and> block_counter p = 0)"
    using step_word [OF assms(1), of t] step_open [OF assms(1), of t] step_close [OF assms(1), of t]
      step_other [OF assms(1), of ty t] word_ok [of s t rest] assms(2) Inr
    by (cases ty) auto
  show thesis
    using Inr ok that by (cases q) auto
qed

lemma parse_loop_ok:
  assumes "parser_ok p"
  shows "\<exists>valid cfg msg. parse_loop p s = Inr (valid, cfg, msg)
    \<and> (valid \<longrightarrow> config_ok cfg \<and> msg = None) \<and> (\<not> valid \<longrightarrow> msg \<noteq> None)"
  using assms
proof (induction p s rule: parse_loop.induct)
  case (1 p s)
  obtain ty t rest where tok: "parse_token s = (ty, t, rest)" by (cases "parse_token s") auto
  from \<open>parser_ok p\<close> tok show ?case
  proof (cases rule: parse_step_ok)
    case (Go_on p')
    with tok show ?thesis
      using "1.IH" [OF tok [symmetric] refl Go_on(1) refl Go_on(2)]
      by (subst parse_loop.simps) simp
  next
    case Accept
    with \<open>parser_ok p\<close> have "length (blocks p) = 1" by (simp add: parser_ok_def)
    then obtain b where "blocks p = [b]" by (auto simp: length_Suc_conv)
    with Accept \<open>parser_ok p\<close> tok show ?thesis
      by (subst parse_loop.simps) (auto simp: parser_ok_def)
  next
    case Reject
    with tok show ?thesis by (subst parse_loop.simps) auto
  qed
qed

lemma initial_parser_ok:
  "config_ok cfg \<Longrightarrow> parser_ok \<lparr>blocks = [cfg], last_token = T_START, block_counter = 0\<rparr>"
  by (simp add: parser_ok_def at_boundary_def)

lemma loop_accept:
  "at_boundary lt \<Longrightarrow> lt \<noteq> T_START_BLOCK \<Longrightarrow> parse_token s = (T_EOF, t, r) \<Longrightarrow>
    parse_loop \<lparr>blocks = [b], last_token = lt, block_counter = 0\<rparr> s = Inr (True, b, None)"
  by (subst parse_loop.simps) (auto simp: parse_step_def at_boundary_def)

lemma parse_config_print:
  assumes "config_ok cfg"
  shows "parse_config (config_to_string d cfg @ s) old =
    parse_loop \<lparr>blocks = [old @ cfg], last_token = token_after T_START cfg, block_counter = 0\<rparr> s"
  using loop_statement(2) [OF assms, of T_START 0 old "[]" d s]
  by (simp add: parse_config_def at_boundary_def)

lemma after_print: "at_boundary (token_after T_START cfg)" "token_after T_START cfg \<noteq> T_START_BLOCK"
  by (cases "last cfg"; simp add: token_after_def at_boundary_def)+

text \<open>
  C14. Printing and parsing: a configuration printed by \<open>ToString\<close>, at any depth, is parsed back to
  exactly that configuration, appended to what the out-parameter already held.
\<close>

theorem config_round_trip:
  assumes "config_ok cfg"
  shows "parse_config (config_to_string d cfg) old = Inr (True, old @ cfg, None)"
  using parse_config_print [OF assms, of d "[]" old] loop_accept [of "token_after T_START cfg" "[]" "[]" "[]"]
    after_print [of cfg]
  by (simp add: scan_mark)

theorem config_round_trip_witness:
  "parse_config (''server {'' @ [LF] @ ''  port 80;'' @ [LF] @ ''}'' @ [LF]) [] =
     Inr (True, [Statement [''server''] (Some [Statement [''port'', ''80''] None])], None)"
  using config_round_trip [of "[Statement [''server''] (Some [Statement [''port'', ''80''] None])]" 0 "[]"]
  by (simp add: indent_def token_ok_def bare_word_def ends_initial_def ends_normal_def)

text \<open>
  C21. The parser is total and safe: for any input it returns, without reading the back of an empty
  statement list or popping its last block; an error carries the message that is logged; and what
  it accepts is a configuration whose every statement has a token and whose tokens are bare words
  or quoted texts, so printing it and parsing again gives the same configuration.
\<close>

theorem config_parse_safe:
  "\<exists>valid cfg msg. parse_config s [] = Inr (valid, cfg, msg)
     \<and> valid = (msg = None)
     \<and> (if valid then config_ok cfg \<and> parse_config (config_to_string d cfg) [] = Inr (True, cfg, None)
        else True)"
proof -
  obtain valid cfg msg where r: "parse_config s [] = Inr (valid, cfg, msg)"
    and ok: "valid \<longrightarrow> config_ok cfg \<and> msg = None" "\<not> valid \<longrightarrow> msg \<noteq> None"
    using parse_loop_ok [OF initial_parser_ok, of "[]" s] by (auto simp: parse_config_def)
  have "parse_config (config_to_string d cfg) [] = Inr (True, cfg, None)" if "config_ok cfg"
    using parse_config_print [OF that, of d "[]" "[]"] after_print [of cfg]
      loop_accept [of "token_after T_START cfg" "[]" "[]" "[]"]
    by (simp add: scan_mark)
  with r ok show ?thesis by auto
qed

text \<open>
  The ends of a file: after complete statements, a last word without its semicolon is dropped
  and the file is still accepted; a quotation that is not closed rejects it.
\<close>

theorem config_file_ends:
  assumes "config_ok cfg" "bare_word w" "DQUOTE \<notin> set v"
  shows "parse_config (config_to_string d cfg @ w) [] = Inr (True, cfg, None)
    \<and> parse_config (config_to_string d cfg @ DQUOTE # v) [] =
        Inr (False, cfg, Some (bad_transition (token_after T_START cfg) T_ERROR))"
proof -
  obtain c cs where w: "w = c # cs" "\<not> ends_initial c" "list_all (\<lambda>x. \<not> ends_normal x) cs"
    using assms(2) by (auto simp: bare_word_def split: list.splits)
  then have "parse_token w = (T_EOF, w, [])"
    by (simp add: parse_token_def ends_initial_def loop_normal_end)
  moreover have "parse_token (DQUOTE # v) = (T_ERROR, DQUOTE # v, [])"
    using assms(3) by (simp add: parse_token_def loop_quote_end)
  then have "parse_loop \<lparr>blocks = [cfg], last_token = lt, block_counter = 0\<rparr> (DQUOTE # v) =
      Inr (False, cfg, Some (bad_transition lt T_ERROR))" for lt
    by (subst parse_loop.simps) (simp add: parse_step_def)
  ultimately show ?thesis
    using assms(1) after_print [of cfg] by (simp add: parse_config_print loop_accept)
qed

theorem config_file_ends_witness:
  "parse_config (''a b;'' @ [LF] @ ''listen'') [] = Inr (True, [Statement [''a'', ''b''] None], None)"
  using config_file_ends [of "[Statement [''a'', ''b''] None]" "''listen''" "[]" 0]
  by (simp add: indent_def token_ok_def bare_word_def ends_initial_def ends_normal_def)

text \<open>
  Comments: between two complete statements a comment up to the end of its line has no effect.
\<close>

theorem config_comment_ignored:
  assumes "config_ok a" "config_ok b" "LF \<notin> set w" "CR \<notin> set w"
  shows "parse_config (config_to_string d a @ CHR ''#'' # w @ LF # config_to_string e b) [] =
    Inr (True, a @ b, None)"
proof -
  let ?s = "config_to_string e b"
  have comment: "parse_token (CHR ''#'' # w @ LF # ?s) = (T_COMMENT, CHR ''#'' # w, ?s)"
    using assms(3,4) by (simp add: parse_token_def loop_comment)
  have skip: "parse_loop p (CHR ''#'' # w @ LF # ?s) = parse_loop p ?s" for p
    by (subst parse_loop.simps) (simp add: comment parse_step_def)
  have boundary: "at_boundary (token_after (token_after T_START a) b)"
    "token_after (token_after T_START a) b \<noteq> T_START_BLOCK"
    using after_print [of a] after_print [of b] by (auto simp: token_after_def split: if_splits)
  show ?thesis
    using loop_statement(2) [OF assms(2), of "token_after T_START a" 0 a "[]" e "[]"]
      after_print(1) [of a] boundary
    by (simp add: parse_config_print assms(1) skip loop_accept scan_mark)
qed

theorem config_comment_ignored_witness:
  "parse_config (''a;'' @ [LF] @ ''# x { ;'' @ [LF] @ ''b;'' @ [LF]) [] =
     Inr (True, [Statement [''a''] None, Statement [''b''] None], None)"
  using config_comment_ignored [of "[Statement [''a''] None]" "[Statement [''b''] None]" "'' x { ;''" 0 0]
  by (simp add: indent_def token_ok_def bare_word_def ends_initial_def ends_normal_def)

section \<open>Looking up a key\<close>

text \<open>The statements of a configuration in the order of the text, as their token lists.\<close>

fun statement_rows :: "nginx_statement \<Rightarrow> string list list" where
  "statement_rows (Statement ts ch) =
     ts # (case ch of None \<Rightarrow> [] | Some b \<Rightarrow> concat (map statement_rows b))"

abbreviation config_rows :: "nginx_config \<Rightarrow> string list list" where
  "config_rows cfg \<equiv> concat (map statement_rows cfg)"

fun first_hit :: "string \<Rightarrow> string list list \<Rightarrow> string" where
  "first_hit key [] = []"
| "first_hit key (ts # rows) = (case scan_tokens key [] ts of Some t \<Rightarrow> t | None \<Rightarrow> first_hit key rows)"

lemma scan_tokens_member: "scan_tokens key prev ts = Some t \<Longrightarrow> t \<in> set ts"
  by (induction key prev ts rule: scan_tokens.induct) (auto split: if_splits)

lemma first_hit_append:
  "first_hit key (xs @ ys) = (if \<exists>ts \<in> set xs. scan_tokens key [] ts \<noteq> None then first_hit key xs
     else first_hit key ys)"
  by (induction xs) (auto split: option.splits)

lemma first_hit_nonempty:
  assumes "\<forall>ts \<in> set rows. list_all token_ok ts"
  shows "first_hit key rows \<noteq> [] \<longleftrightarrow> (\<exists>ts \<in> set rows. scan_tokens key [] ts \<noteq> None)"
  using assms
proof (induction rows)
  case (Cons ts rows)
  show ?case
  proof (cases "scan_tokens key [] ts")
    case (Some t)
    with Cons.prems have "t \<noteq> []"
      using scan_tokens_member [OF Some] token_ok_nonempty by (auto simp: list_all_iff)
    with Some show ?thesis by simp
  qed (use Cons in auto)
qed simp

lemma config_rows_ok:
  "statement_ok st \<Longrightarrow> \<forall>ts \<in> set (statement_rows st). list_all token_ok ts"
  by (induction st rule: statement_rows.induct) (fastforce simp: list_all_iff split: option.splits)

text \<open>
  \<open>GetConfig\<close> on a configuration the parser can build: the statements are searched in the order
  of the text, blocks included, and the answer is the token after the first occurrence of the key
  in the first statement that has one, or the empty string.
\<close>

theorem get_config_in_text_order:
  assumes "config_ok cfg"
  shows "get_config key cfg = first_hit key (config_rows cfg)"
  using assms
proof (induction key cfg rule: get_config.induct)
  case (2 key ts ch ss)
  have ok: "\<forall>us \<in> set (config_rows b). list_all token_ok us" if "config_ok b" for b
    using that config_rows_ok by (fastforce simp: list_all_iff)
  show ?case
  proof (cases "scan_tokens key [] ts")
    case None
    show ?thesis
    proof (cases ch)
      case (Some b)
      with 2 None have "config_ok b" "get_config key b = first_hit key (config_rows b)" by auto
      moreover have "get_config key ss = first_hit key (config_rows ss)" if "get_config key b = []"
        using "2.IH"(3) [OF None Some refl] that "2.prems" by simp
      ultimately show ?thesis
        using first_hit_nonempty [OF ok [of b], of key] None Some
        by (auto simp: first_hit_append Let_def)
    qed (use 2 None in simp)
  qed simp
qed simp

theorem get_config_in_text_order_witness:
  "get_config ''port'' [Statement [''server''] (Some [Statement [''port'', ''80''] None])] = ''80''"
  using get_config_in_text_order [of "[Statement [''server''] (Some [Statement [''port'', ''80''] None])]"
      "''port''"]
  by (simp add: token_ok_def bare_word_def ends_initial_def ends_normal_def)

lemma get_port_printed:
  assumes "config_ok cfg" "get_config ''port'' cfg = to_string n" "n < 2 ^ 31"
  shows "get_port name (Some (config_to_string d cfg)) [] = Inr (word_of_int (int n), cfg)"
proof -
  have "parse_config (config_to_string d cfg) [] = Inr (True, cfg, None)"
    using parse_config_print [OF assms(1), of d "[]" "[]"] after_print [of cfg]
      loop_accept [of "token_after T_START cfg" "[]" "[]" "[]"]
    by (simp add: scan_mark)
  then show ?thesis
    using assms(2,3) stoi_to_string [of n] by (simp add: get_port_def parse_file_def)
qed

lemma sint_i16_small: "n < 32768 \<Longrightarrow> sint (word_of_nat n :: i16) = int n"
  using int_word_sint [of "int n", where 'a=16] by simp

lemma sint_i16_large:
  assumes "32768 \<le> n" "n < 65536"
  shows "sint (word_of_nat n :: i16) = int n - 65536"
proof -
  have "sint (word_of_nat n :: i16) = (int n + 32768) mod 65536 - 32768"
    using int_word_sint [of "int n", where 'a=16] by (simp add: ac_simps)
  also have "(int n + 32768) mod 65536 = int n - 32768"
    using assms mod_add_self2 [of "int n - 32768" 65536] by (simp add: add.commute)
  finally show ?thesis using assms by simp
qed

text \<open>
  The port: for a printed configuration whose port is a number below \<open>2^31\<close>, \<open>GetPort\<close> is that
  number modulo \<open>2^16\<close> as a signed short, so it is the number itself exactly below 32768, and it is
  negative (which \<open>main\<close> refuses) for the valid ports from 32768 to 65535.
\<close>

theorem get_port_wraps:
  assumes "config_ok cfg" "get_config ''port'' cfg = to_string n" "n < 2 ^ 31"
  shows "\<exists>p. get_port name (Some (config_to_string d cfg)) [] = Inr (p, cfg)
    \<and> sint p = int (n + 2 ^ 15) mod 2 ^ 16 - 2 ^ 15
    \<and> (sint p = int n \<longleftrightarrow> n < 32768)
    \<and> (n < 65536 \<longrightarrow> (sint p < 0 \<longleftrightarrow> 32768 \<le> n))"
proof -
  note port = get_port_printed [OF assms]
  have s: "sint (word_of_int (int n) :: i16) = int (n + 2 ^ 15) mod 2 ^ 16 - 2 ^ 15"
    by (subst int_word_sint) (simp add: ac_simps)
  let ?m = "(int n + 32768) mod 65536"
  have lo: "?m = int n + 32768" if "n < 32768" using that by simp
  have mid: "?m = int n - 32768" if "32768 \<le> n" "n < 65536"
    using that mod_add_self2 [of "int n - 32768" 65536] by (simp add: add.commute)
  have hi: "?m < 65536" by simp
  have "(?m - 32768 = int n) = (n < 32768)"
    using lo hi by (cases "n < 32768") auto
  moreover have "n < 65536 \<longrightarrow> (?m - 32768 < 0) = (32768 \<le> n)"
    using lo mid by (cases "n < 32768") auto
  ultimately show ?thesis unfolding port using s by simp
qed

theorem get_port_wraps_witness:
  "\<exists>p. get_port ''conf'' (Some (''port 40000;'' @ [LF])) [] = Inr (p, [Statement [''port'', ''40000''] None])
     \<and> sint p < 0"
proof -
  let ?cfg = "[Statement [''port'', ''40000''] None]"
  have number: "to_string 40000 = ''40000''" by (simp add: to_string.simps)
  have ok: "config_ok ?cfg"
    by (simp add: token_ok_def bare_word_def ends_initial_def ends_normal_def)
  have print: "config_to_string 0 ?cfg = ''port 40000;'' @ [LF]" by (simp add: indent_def)
  have "get_config ''port'' ?cfg = to_string 40000" by (simp add: number)
  from get_port_wraps [OF ok this, of "''conf''" 0] show ?thesis
    unfolding print by force
qed

end
