(* ===== verification/Regex.thy ===== *)
theory Regex
  imports Prelude
begin

text \<open>
  The part of \<open>std::regex\<close> (ECMAScript grammar) that the Markdown parser under
  \<open>src/include/maddy\<close> uses: the backtracking matcher as a list of successes in the order in which
  it tries them, \<open>std::regex_match\<close> and \<open>std::regex_replace\<close>. In the patterns of the code a
  repetition always repeats one character of a class.
\<close>

section \<open>Patterns and the matcher\<close>

datatype char_class = One char | Dot | In "char list" | NotIn "char list"

text \<open>\<open>.\<close> matches every character but a line feed and a carriage return.\<close>

fun in_class :: "char \<Rightarrow> char_class \<Rightarrow> bool" where
  "in_class c (One x) = (c = x)"
| "in_class c Dot = (c \<noteq> LF \<and> c \<noteq> CR)"
| "in_class c (In cs) = (c \<in> set cs)"
| "in_class c (NotIn cs) = (c \<notin> set cs)"

datatype regex =
    Ch char_class
  | Many char_class
  | Times nat nat char_class
  | Seq regex regex
  | Alt regex regex
  | Group nat regex
  | NotAhead regex
  | Bol
  | Eol

type_synonym captures = "(nat \<times> string) list"

text \<open>A greedy \<open>*\<close> and \<open>{lo,hi}\<close>: what is taken and what is left, the longest first.\<close>

fun many :: "char_class \<Rightarrow> string \<Rightarrow> (string \<times> string) list" where
  "many k [] = [([], [])]"
| "many k (c # s) = (if in_class c k then map (\<lambda>(u, v). (c # u, v)) (many k s) else []) @ [([], c # s)]"

fun times :: "nat \<Rightarrow> nat \<Rightarrow> char_class \<Rightarrow> string \<Rightarrow> (string \<times> string) list" where
  "times lo 0 k s = (if lo = 0 then [([], s)] else [])"
| "times lo (Suc hi) k [] = (if lo = 0 then [([], [])] else [])"
| "times lo (Suc hi) k (c # s) =
     (if in_class c k then map (\<lambda>(u, v). (c # u, v)) (times (lo - 1) hi k s) else [])
     @ (if lo = 0 then [([], c # s)] else [])"

text \<open>
  \<open>first\<close> tells whether the position is the beginning of the whole text, the only place where \<open>^\<close>
  matches (no \<open>multiline\<close> flag is set, and \<open>regex_replace\<close> searches on with \<open>match_prev_avail\<close>).
  A success is what was matched, what is left and the captured groups.
\<close>

fun matches :: "regex \<Rightarrow> bool \<Rightarrow> string \<Rightarrow> captures \<Rightarrow> (string \<times> string \<times> captures) list" where
  "matches (Ch k) first s g =
     (case s of [] \<Rightarrow> [] | c # cs \<Rightarrow> if in_class c k then [([c], cs, g)] else [])"
| "matches (Many k) first s g = map (\<lambda>(u, v). (u, v, g)) (many k s)"
| "matches (Times lo hi k) first s g = map (\<lambda>(u, v). (u, v, g)) (times lo hi k s)"
| "matches (Seq p q) first s g =
     concat (map (\<lambda>(u, v, h). map (\<lambda>(u', v', h'). (u @ u', v', h')) (matches q (first \<and> u = []) v h))
       (matches p first s g))"
| "matches (Alt p q) first s g = matches p first s g @ matches q first s g"
| "matches (Group i p) first s g = map (\<lambda>(u, v, h). (u, v, (i, u) # h)) (matches p first s g)"
| "matches (NotAhead p) first s g = (if matches p first s g = [] then [([], s, g)] else [])"
| "matches Bol first s g = (if first then [([], s, g)] else [])"
| "matches Eol first s g = (if s = [] then [([], s, g)] else [])"

definition regex_match :: "regex \<Rightarrow> string \<Rightarrow> bool" where
  "regex_match p s \<longleftrightarrow> list_ex (\<lambda>(u, v, g). v = []) (matches p True s [])"

text \<open>The replacement text: literal text and groups (\<open>$1\<close>, \<open>$2\<close>); a group not matched is empty.\<close>

datatype format_part = Text string | Sub nat

fun format_one :: "captures \<Rightarrow> format_part \<Rightarrow> string" where
  "format_one g (Text t) = t"
| "format_one g (Sub i) = (case map_of g i of Some u \<Rightarrow> u | None \<Rightarrow> [])"

definition format :: "format_part list \<Rightarrow> captures \<Rightarrow> string" where
  "format fmt g = concat (map (format_one g) fmt)"

text \<open>
  \<open>regex_replace\<close>: from the left, the first success at each position. A success that took nothing
  would leave the text alone here; \<open>min_length\<close> below shows that no pattern of the code has one.
\<close>

function replace_from :: "regex \<Rightarrow> format_part list \<Rightarrow> bool \<Rightarrow> string \<Rightarrow> string" where
  "replace_from p fmt first [] = []"
| "replace_from p fmt first (c # cs) =
     (case matches p first (c # cs) [] of
        (u, v, g) # _ \<Rightarrow>
          (if length v < length (c # cs) then format fmt g @ replace_from p fmt False v
           else c # replace_from p fmt False cs)
      | [] \<Rightarrow> c # replace_from p fmt False cs)"
  by pat_completeness auto
termination by (relation "measure (\<lambda>(p, fmt, first, s). length s)") auto

definition regex_replace :: "string \<Rightarrow> regex \<Rightarrow> format_part list \<Rightarrow> string" where
  "regex_replace s p fmt = replace_from p fmt True s"

section \<open>Facts about the matcher\<close>

fun min_length :: "regex \<Rightarrow> nat" where
  "min_length (Ch k) = 1"
| "min_length (Many k) = 0"
| "min_length (Times lo hi k) = lo"
| "min_length (Seq p q) = min_length p + min_length q"
| "min_length (Alt p q) = min (min_length p) (min_length q)"
| "min_length (Group i p) = min_length p"
| "min_length (NotAhead p) = 0"
| "min_length Bol = 0"
| "min_length Eol = 0"

lemma many_split: "(u, v) \<in> set (many k s) \<longleftrightarrow> s = u @ v \<and> (\<forall>c \<in> set u. in_class c k)"
proof (induction s arbitrary: u)
  case (Cons c s)
  note IH = Cons.IH
  have step: "(c # w, v) \<in> (\<lambda>(u, v). (c # u, v)) ` A \<longleftrightarrow> (w, v) \<in> A" for w A
    by (force simp: image_iff)
  show ?case
  proof (cases u)
    case (Cons a w)
    then show ?thesis by (cases "a = c") (simp add: step IH, blast, auto)
  qed auto
qed auto

lemma times_split:
  "(u, v) \<in> set (times lo hi k s) \<Longrightarrow> s = u @ v \<and> lo \<le> length u \<and> length u \<le> hi \<and> (\<forall>c \<in> set u. in_class c k)"
proof (induction lo hi k s arbitrary: u rule: times.induct)
  case (3 lo hi k c s)
  then show ?case by (fastforce split: if_splits)
qed (auto split: if_splits)

lemma matches_split: "(u, v, h) \<in> set (matches p b s g) \<Longrightarrow> s = u @ v"
proof (induction p arbitrary: b s g u v h)
  case (Seq p q)
  then show ?case by fastforce
qed (auto simp: many_split split: list.splits if_splits dest: times_split)

lemma matches_min_length: "(u, v, h) \<in> set (matches p b s g) \<Longrightarrow> min_length p \<le> length u"
proof (induction p arbitrary: b s g u v h)
  case (Seq p q)
  then show ?case by (fastforce intro: add_mono)
next
  case (Alt p q)
  then show ?case by (fastforce simp: min_le_iff_disj)
qed (auto simp: many_split split: list.splits if_splits dest: times_split)

lemma replace_from_step:
  assumes "0 < min_length p"
  shows "replace_from p fmt b (c # cs) =
    (case matches p b (c # cs) [] of
       (u, v, g) # _ \<Rightarrow> format fmt g @ replace_from p fmt False v
     | [] \<Rightarrow> c # replace_from p fmt False cs)"
proof (cases "matches p b (c # cs) []")
  case (Cons m ms)
  obtain u v g where m: "m = (u, v, g)" by (cases m) auto
  with Cons have "c # cs = u @ v" "min_length p \<le> length u"
    using matches_split [of u v g p b "c # cs" "[]"] matches_min_length [of u v g p b "c # cs" "[]"]
    by auto
  then have "length v < length (c # cs)"
    using assms by (metis add_diff_cancel_right' length_append less_add_same_cancel2 le_0_eq not_gr_zero)
  with Cons m show ?thesis by simp
qed simp

lemma replace_from_miss:
  "matches p b s [] = [] \<Longrightarrow> replace_from p fmt b s = (case s of [] \<Rightarrow> [] | c # cs \<Rightarrow> c # replace_from p fmt False cs)"
  by (cases s) auto

text \<open>A pattern without \<open>^\<close> does not look at where it stands.\<close>

fun anchored :: "regex \<Rightarrow> bool" where
  "anchored (Seq p q) = (anchored p \<or> anchored q)"
| "anchored (Alt p q) = (anchored p \<or> anchored q)"
| "anchored (Group i p) = anchored p"
| "anchored (NotAhead p) = anchored p"
| "anchored Bol = True"
| "anchored p = False"

lemma matches_unanchored: "\<not> anchored p \<Longrightarrow> matches p b s g = matches p True s g"
proof (induction p arbitrary: b s g)
  case (Seq p q)
  have q: "matches q b' v h = matches q True v h" for b' v h using Seq by simp
  have "matches p b s g = matches p True s g" using Seq by simp
  then show ?case
    by (simp only: matches.simps q [of "_ \<and> _"])
next
  case (Alt p q)
  have "matches p b s g = matches p True s g" "matches q b s g = matches q True s g"
    using Alt by simp_all
  then show ?case by simp
next
  case (Group i p)
  have "matches p b s g = matches p True s g" using Group by simp
  then show ?case by simp
next
  case (NotAhead p)
  have "matches p b s g = matches p True s g" using NotAhead by simp
  then show ?case by simp
qed auto

lemma replace_from_unanchored:
  assumes "\<not> anchored p"
  shows "replace_from p fmt b s = regex_replace s p fmt"
proof (cases s)
  case (Cons c cs)
  show ?thesis
    unfolding Cons regex_replace_def
    by (simp add: matches_unanchored [OF assms, of b] split: list.splits)
qed (simp add: regex_replace_def)

end
