(* ===== verification/Line_Parsers.thy ===== *)
theory Line_Parsers
  imports Regex
begin

text \<open>
  The line parsers of \<open>src/include/maddy\<close>: each rewrites the inline markup of one line with a
  regular expression. \<open>run_line_parser\<close> is \<open>Parser::runLineParser\<close>, which runs them in order.
\<close>

section \<open>The patterns and the parsers\<close>

fun lits :: "string \<Rightarrow> regex" where
  "lits [] = Times 0 0 Dot"
| "lits [c] = Ch (One c)"
| "lits (c # cs) = Seq (Ch (One c)) (lits cs)"

text \<open>\<open>(?!.*`.*|.*<code>.*)\<close> and the same with the closing tag.\<close>

definition not_before :: "string \<Rightarrow> regex" where
  "not_before tag =
     NotAhead (Alt (Seq (Many Dot) (Seq (Ch (One BQUOTE)) (Many Dot)))
                   (Seq (Many Dot) (Seq (lits tag) (Many Dot))))"

text \<open>A marker, the text up to the next marker character, the marker again.\<close>

definition span_pattern :: "string \<Rightarrow> char list \<Rightarrow> regex" where
  "span_pattern marker stops =
     Seq (not_before ''<code>'') (Seq (lits marker) (Seq (not_before ''</code>'')
       (Seq (Group 1 (Many (NotIn stops))) (Seq (lits marker) (not_before ''</code>'')))))"

definition link_pattern :: regex where
  "link_pattern =
     Seq (lits ''['') (Seq (Group 1 (Many (NotIn '']''))) (Seq (lits '']('')
       (Seq (Group 2 (Many (NotIn '']''))) (lits '')''))))"

definition image_parse :: "string \<Rightarrow> string" where
  "image_parse line = regex_replace line (Seq (lits ''!'') link_pattern)
     [Text (''<img src='' @ [DQUOTE]), Sub 2, Text ([DQUOTE] @ '' alt='' @ [DQUOTE]), Sub 1,
      Text ([DQUOTE] @ ''/>'')]"

definition link_parse :: "string \<Rightarrow> string" where
  "link_parse line = regex_replace line link_pattern
     [Text (''<a href='' @ [DQUOTE]), Sub 2, Text ([DQUOTE] @ ''>''), Sub 1, Text ''</a>'']"

text \<open>\<open>StrongParser\<close> runs two patterns one after the other.\<close>

definition strong_star :: "string \<Rightarrow> string" where
  "strong_star line =
     regex_replace line (span_pattern ''**'' ''*'') [Text ''<strong>'', Sub 1, Text ''</strong>'']"

definition strong_underscore :: "string \<Rightarrow> string" where
  "strong_underscore line =
     regex_replace line (span_pattern ''__'' ''_'') [Text ''<strong>'', Sub 1, Text ''</strong>'']"

definition strong_parse :: "string \<Rightarrow> string" where
  "strong_parse line = strong_underscore (strong_star line)"

definition emphasized_parse :: "string \<Rightarrow> string" where
  "emphasized_parse line =
     regex_replace line (span_pattern ''_'' ''_'') [Text ''<em>'', Sub 1, Text ''</em>'']"

definition strike_through_parse :: "string \<Rightarrow> string" where
  "strike_through_parse line =
     regex_replace line (span_pattern ''~~'' ''~'') [Text ''<s>'', Sub 1, Text ''</s>'']"

definition inline_code_parse :: "string \<Rightarrow> string" where
  "inline_code_parse line =
     regex_replace line (Seq (lits [BQUOTE]) (Seq (Group 1 (Many (NotIn [BQUOTE]))) (lits [BQUOTE])))
       [Text ''<code>'', Sub 1, Text ''</code>'']"

definition italic_parse :: "string \<Rightarrow> string" where
  "italic_parse line =
     regex_replace line (span_pattern ''*'' ''*'') [Text ''<i>'', Sub 1, Text ''</i>'']"

definition break_line_parse :: "string \<Rightarrow> string" where
  "break_line_parse line = regex_replace line (Group 1 (Alt (lits crlf) (lits [CR]))) [Text ''<br>'']"

text \<open>
  \<open>ParserConfig\<close>; the server never passes one (\<open>None\<close> is the null pointer), which leaves every line
  parser on.
\<close>

record parser_config =
  emphasized_enabled :: bool
  html_wrapped :: bool

definition default_config :: parser_config where
  "default_config = \<lparr>emphasized_enabled = True, html_wrapped = True\<rparr>"

definition run_line_parser :: "parser_config option \<Rightarrow> string \<Rightarrow> string" where
  "run_line_parser config line =
     (let s1 = link_parse (image_parse line);
          s2 = strong_parse s1;
          s3 = (case config of
                  None \<Rightarrow> emphasized_parse s2
                | Some c \<Rightarrow> if emphasized_enabled c then emphasized_parse s2 else s2);
          s4 = italic_parse (inline_code_parse (strike_through_parse s3))
      in break_line_parse s4)"

section \<open>Rewriting around a marker\<close>

text \<open>
  Every match of a line parser begins with its trigger character, so text without the trigger is
  passed through and the rest is rewritten as if it stood alone.
\<close>

locale line_parser =
  fixes rewrite :: "string \<Rightarrow> string"
    and trigger :: char
  assumes rewrite_nil: "rewrite [] = []"
    and rewrite_other: "c \<noteq> trigger \<Longrightarrow> rewrite (c # s) = c # rewrite s"
begin

lemma rewrite_prefix: "trigger \<notin> set u \<Longrightarrow> rewrite (u @ s) = u @ rewrite s"
  by (induction u) (auto simp: rewrite_other)

lemma rewrite_plain: "trigger \<notin> set s \<Longrightarrow> rewrite s = s"
  using rewrite_prefix [of s "[]"] by (simp add: rewrite_nil)

lemma rewrite_untriggered: "trigger \<notin> set u \<Longrightarrow> rewrite u @ rewrite s = rewrite (u @ s)"
  by (simp add: rewrite_prefix rewrite_plain)

end

text \<open>A pattern all of whose matches begin with a given character, and that never takes nothing.\<close>

definition starts_on :: "char \<Rightarrow> regex \<Rightarrow> bool" where
  "starts_on t p \<longleftrightarrow> \<not> anchored p \<and> 0 < min_length p \<and>
     (\<forall>c s. c \<noteq> t \<longrightarrow> matches p True (c # s) [] = [])"

lemma line_parser_of_pattern:
  assumes "starts_on t p"
  shows "line_parser (\<lambda>s. regex_replace s p fmt) t"
proof
  show "regex_replace [] p fmt = []" by (simp add: regex_replace_def)
  show "regex_replace (c # s) p fmt = c # regex_replace s p fmt" if "c \<noteq> t" for c s
    using assms that by (simp add: starts_on_def regex_replace_def [of "c # s"] replace_from_unanchored)
qed

lemma anchored_lits [simp]: "\<not> anchored (lits t)"
  by (induction t rule: lits.induct) auto

lemma min_length_lits [simp]: "min_length (lits t) = length t"
  by (induction t rule: lits.induct) auto

lemma matches_lits: "matches (lits t) b s g = (if starts_with t s then [(t, drop (length t) s, g)] else [])"
proof (induction t arbitrary: b s rule: lits.induct)
  case 1
  then show ?case by (cases s) auto
next
  case (2 c)
  then show ?case by (cases s) auto
next
  case (3 c d cs)
  then show ?case by (cases s) auto
qed

lemma matches_not_before:
  "matches (not_before tag) b s g = [] \<or> matches (not_before tag) b s g = [([], s, g)]"
  by (simp add: not_before_def)

lemma span_pattern_shape [simp]:
  "\<not> anchored (span_pattern marker stops)" "min_length (span_pattern marker stops) = 2 * length marker"
  by (simp_all add: span_pattern_def not_before_def)

lemma span_pattern_head:
  assumes "c \<noteq> t"
  shows "matches (span_pattern (t # ms) stops) True (c # s) [] = []"
proof -
  have "\<not> starts_with (t # ms) (c # s)" using assms by simp
  then show ?thesis
    using matches_not_before [of "''<code>''" True "c # s" "[]"]
    by (auto simp only: span_pattern_def matches.simps matches_lits if_False list.map concat.simps
        prod.case append.simps simp_thms)
qed

lemma starts_on_span: "marker = t # ms \<Longrightarrow> starts_on t (span_pattern marker stops)"
  by (simp add: starts_on_def span_pattern_head)

lemma starts_on_link: "starts_on (CHR ''['') link_pattern"
  by (simp add: starts_on_def link_pattern_def)

lemma starts_on_image: "starts_on (CHR ''!'') (Seq (lits ''!'') link_pattern)"
  by (simp add: starts_on_def link_pattern_def)

interpretation image: line_parser image_parse "CHR ''!''"
  unfolding image_parse_def by (rule line_parser_of_pattern [OF starts_on_image])

interpretation link: line_parser link_parse "CHR ''[''"
  unfolding link_parse_def by (rule line_parser_of_pattern [OF starts_on_link])

interpretation emphasized: line_parser emphasized_parse "CHR ''_''"
  unfolding emphasized_parse_def by (rule line_parser_of_pattern [OF starts_on_span]) simp

interpretation strike_through: line_parser strike_through_parse "CHR ''~''"
  unfolding strike_through_parse_def by (rule line_parser_of_pattern [OF starts_on_span]) simp

interpretation italic: line_parser italic_parse "CHR ''*''"
  unfolding italic_parse_def by (rule line_parser_of_pattern [OF starts_on_span]) simp

interpretation inline_code: line_parser inline_code_parse BQUOTE
  unfolding inline_code_parse_def
  by (rule line_parser_of_pattern) (simp add: starts_on_def)

interpretation break_line: line_parser break_line_parse CR
  unfolding break_line_parse_def
  by (rule line_parser_of_pattern) (simp add: starts_on_def)

interpretation strong_star: line_parser strong_star "CHR ''*''"
  unfolding strong_star_def by (rule line_parser_of_pattern [OF starts_on_span]) simp

interpretation strong_underscore: line_parser strong_underscore "CHR ''_''"
  unfolding strong_underscore_def by (rule line_parser_of_pattern [OF starts_on_span]) simp

section \<open>What a single match looks like\<close>

text \<open>
  A greedy run followed by something that cannot begin inside the run: only the longest run counts.
\<close>

lemma concat_many_Cons:
  "concat (map f (many k (c # s))) =
    (if in_class c k then concat (map (\<lambda>(u, w). f (c # u, w)) (many k s)) else []) @ f ([], c # s)"
  by (simp add: comp_def split_def)

lemma concat_many_mid:
  assumes "\<forall>x \<in> set v. in_class x k" "r = [] \<or> \<not> in_class (hd r) k"
    "\<And>u a w. in_class a k \<Longrightarrow> f (u, a # w) = []"
  shows "concat (map f (many k (v @ r))) = f (v, r)"
  using assms
proof (induction v arbitrary: f)
  case Nil
  then show ?case by (cases r) auto
next
  case (Cons x v)
  have "concat (map (\<lambda>(u, w). f (x # u, w)) (many k (v @ r))) = f (x # v, r)"
    using Cons.IH [of "\<lambda>(u, w). f (x # u, w)"] Cons.prems by auto
  with Cons.prems show ?case by (simp only: append_Cons concat_many_Cons) simp
qed

text \<open>A greedy run followed by one character of its own class: the last one in reach is taken.\<close>

lemma concat_many_none:
  assumes "\<And>u w. w = [] \<or> hd w \<noteq> c \<Longrightarrow> f (u, w) = []" "c \<notin> set r"
    "rest = [] \<or> \<not> in_class (hd rest) k" "in_class c k"
  shows "concat (map f (many k (r @ rest))) = []"
  using assms
proof (induction r arbitrary: f)
  case Nil
  have "f ([], rest) = []" by (rule Nil.prems(1)) (use Nil.prems in auto)
  with Nil.prems show ?case by (cases rest) auto
next
  case (Cons x r)
  have "concat (map (\<lambda>(u, w). f (x # u, w)) (many k (r @ rest))) = []"
    by (rule Cons.IH) (use Cons.prems in auto)
  moreover have "f ([], x # r @ rest) = []"
    by (rule Cons.prems(1)) (use Cons.prems in auto)
  ultimately show ?case by (simp only: append_Cons concat_many_Cons) simp
qed

lemma concat_many_last:
  assumes "\<forall>x \<in> set v. in_class x k" "in_class c k" "rest = [] \<or> \<not> in_class (hd rest) k" "c \<notin> set r"
    "\<And>u w. w = [] \<or> hd w \<noteq> c \<Longrightarrow> f (u, w) = []"
  shows "\<exists>others. concat (map f (many k (v @ c # r @ rest))) = f (v, c # r @ rest) @ others"
  using assms
proof (induction v arbitrary: f)
  case Nil
  have "concat (map (\<lambda>(u, w). f (c # u, w)) (many k (r @ rest))) = []"
    by (rule concat_many_none [of c]) (use Nil.prems in auto)
  then show ?case by (simp only: append_Nil concat_many_Cons) simp
next
  case (Cons x v)
  obtain others where "concat (map (\<lambda>(u, w). f (x # u, w)) (many k (v @ c # r @ rest))) =
      f (x # v, c # r @ rest) @ others"
    using Cons.IH [of "\<lambda>(u, w). f (x # u, w)"] Cons.prems by auto
  with Cons.prems show ?case by (simp only: append_Cons concat_many_Cons) simp
qed

lemma matches_group_many:
  "matches (Seq (Group i (Many k)) q) b s g =
    concat (map (\<lambda>(u, v). map (\<lambda>(u', v', h). (u @ u', v', h)) (matches q (b \<and> u = []) v ((i, u) # g)))
      (many k s))"
  by (simp add: comp_def split_def)

lemma matches_lits_seq:
  "matches (Seq (lits t) q) b s g =
    (if starts_with t s
     then map (\<lambda>(u, v, h). (t @ u, v, h)) (matches q (b \<and> t = []) (drop (length t) s) g) else [])"
  by (simp add: matches_lits)

lemma matches_group_many_mid:
  assumes "\<forall>x \<in> set v. in_class x k" "r = [] \<or> \<not> in_class (hd r) k"
    "\<And>b a w h. in_class a k \<Longrightarrow> matches q b (a # w) h = []"
  shows "matches (Seq (Group i (Many k)) q) b (v @ r) g =
    map (\<lambda>(u, w, h). (v @ u, w, h)) (matches q (b \<and> v = []) r ((i, v) # g))"
  unfolding matches_group_many using assms(1,2)
  by (subst concat_many_mid) (simp_all add: assms(3))

section \<open>Code spans\<close>

lemma replace_head:
  assumes "\<not> anchored p" "0 < min_length p" "matches p True s [] = (u, v, g) # others"
  shows "regex_replace s p fmt = format fmt g @ regex_replace v p fmt"
proof (cases s)
  case Nil
  then show ?thesis
    using assms matches_split [of u v g p True s "[]"] matches_min_length [of u v g p True s "[]"] by simp
next
  case (Cons c cs)
  with assms(1,3) replace_from_step [OF assms(2), of fmt True c cs] show ?thesis
    by (simp add: regex_replace_def [of s] replace_from_unanchored del: replace_from.simps)
qed

lemma replace_skip:
  assumes "\<not> anchored p" "matches p True (c # s) [] = []"
  shows "regex_replace (c # s) p fmt = c # regex_replace s p fmt"
  using assms by (simp add: regex_replace_def [of "c # s"] replace_from_unanchored)

abbreviation (input) code_pattern :: regex where
  "code_pattern \<equiv> Seq (lits [BQUOTE]) (Seq (Group 1 (Many (NotIn [BQUOTE]))) (lits [BQUOTE]))"

lemma code_pattern_match:
  assumes "BQUOTE \<notin> set v"
  shows "matches code_pattern True (BQUOTE # v @ BQUOTE # s) [] = [(BQUOTE # v @ [BQUOTE], s, [(1, v)])]"
    and "matches code_pattern True (BQUOTE # v) [] = []"
proof -
  have stop: "matches (lits [BQUOTE]) b (a # w) h = []" if "in_class a (NotIn [BQUOTE])" for b a w h
    using that by simp
  have "matches (Seq (Group 1 (Many (NotIn [BQUOTE]))) (lits [BQUOTE])) False (v @ BQUOTE # s) [] =
      [(v @ [BQUOTE], s, [(1, v)])]"
    by (subst matches_group_many_mid [OF _ _ stop]) (use assms in auto)
  then show "matches code_pattern True (BQUOTE # v @ BQUOTE # s) [] = [(BQUOTE # v @ [BQUOTE], s, [(1, v)])]"
    by (subst matches_lits_seq) simp
  have "matches (Seq (Group 1 (Many (NotIn [BQUOTE]))) (lits [BQUOTE])) False (v @ []) [] = []"
    by (subst matches_group_many_mid [OF _ _ stop]) (use assms in auto)
  then show "matches code_pattern True (BQUOTE # v) [] = []"
    by (subst matches_lits_seq) simp
qed

text \<open>
  Inline code: the two back quotes that come first are turned into a \<open>code\<close> element with the text
  between them as it is, the rest of the line goes on from there, and a back quote without a partner
  stays. The equations determine the parser on every line.
\<close>

theorem inline_code_pairs:
  assumes "BQUOTE \<notin> set u" "BQUOTE \<notin> set v"
  shows "inline_code_parse u = u
    \<and> inline_code_parse (u @ BQUOTE # v) = u @ BQUOTE # v
    \<and> inline_code_parse (u @ BQUOTE # v @ BQUOTE # s) =
        u @ ''<code>'' @ v @ ''</code>'' @ inline_code_parse s"
proof -
  have "inline_code_parse (BQUOTE # v @ BQUOTE # s) = ''<code>'' @ v @ ''</code>'' @ inline_code_parse s"
    unfolding inline_code_parse_def
    by (subst replace_head [OF _ _ code_pattern_match(1) [OF assms(2)]]) (simp_all add: format_def)
  moreover have "inline_code_parse (BQUOTE # v) = BQUOTE # inline_code_parse v"
    unfolding inline_code_parse_def
    by (rule replace_skip [OF _ code_pattern_match(2) [OF assms(2)]]) simp
  ultimately show ?thesis
    using assms by (simp add: inline_code.rewrite_prefix inline_code.rewrite_plain)
qed

theorem inline_code_pairs_witness:
  "inline_code_parse ''a `x*y` b `'' = ''a <code>x*y</code> b `''"
  using inline_code_pairs [of "''a ''" "''x*y''" "'' b `''"] inline_code_pairs [of "'' b ''" "[]" "[]"]
  by simp

section \<open>Marked spans\<close>

text \<open>The part of the line that \<open>.*\<close> can reach, and the lookahead in terms of it.\<close>

definition reach :: "string \<Rightarrow> string" where
  "reach s = takeWhile (\<lambda>c. in_class c Dot) s"

definition clear :: "string \<Rightarrow> string \<Rightarrow> bool" where
  "clear tag s \<longleftrightarrow> BQUOTE \<notin> set (reach s) \<and> find_str (reach s) tag = None"

lemma takeWhile_dots: "\<forall>c \<in> set u. in_class c Dot \<Longrightarrow> takeWhile (\<lambda>c. in_class c Dot) (u @ w) = u @ reach w"
  by (simp add: reach_def takeWhile_append2)

lemma reach_split: "\<exists>w. s = reach s @ w"
  by (metis reach_def takeWhile_dropWhile_id)

lemma matches_Seq_Nil:
  "matches (Seq p q) b s g = [] \<longleftrightarrow>
    (\<forall>(u, v, h) \<in> set (matches p b s g). matches q (b \<and> u = []) v h = [])"
  by (simp add: split_def)

lemma dots_before_none:
  assumes "t \<noteq> []" "\<forall>c \<in> set t. in_class c Dot"
  shows "matches (Seq (Many Dot) (Seq (lits t) (Many Dot))) b s g = [] \<longleftrightarrow> find_str (reach s) t = None"
proof -
  have many_some: "many Dot w \<noteq> []" for w by (cases w) auto
  have single: "matches (Seq (lits t) (Many Dot)) b' v h = [] \<longleftrightarrow> \<not> starts_with t v" for b' v h
    by (simp add: matches_lits_seq many_some del: matches.simps(4))
  have "matches (Seq (Many Dot) (Seq (lits t) (Many Dot))) b s g = []
      \<longleftrightarrow> (\<forall>(u, v) \<in> set (many Dot s). \<not> starts_with t v)"
    unfolding matches_Seq_Nil [of "Many Dot"] single
    by (simp only: matches.simps(2) set_map ball_simps split_def fst_conv snd_conv)
  also have "\<dots> \<longleftrightarrow> \<not> (\<exists>u w. s = u @ t @ w \<and> (\<forall>c \<in> set u. in_class c Dot))"
  proof -
    have "(\<forall>(u, v) \<in> set (many Dot s). \<not> starts_with t v)
        \<longleftrightarrow> \<not> (\<exists>u v w. (u, v) \<in> set (many Dot s) \<and> v = t @ w)"
      unfolding starts_with_iff by blast
    then show ?thesis unfolding many_split by blast
  qed
  also have "(\<exists>u w. s = u @ t @ w \<and> (\<forall>c \<in> set u. in_class c Dot)) \<longleftrightarrow> (\<exists>u w. reach s = u @ t @ w)"
  proof
    assume "\<exists>u w. s = u @ t @ w \<and> (\<forall>c \<in> set u. in_class c Dot)"
    then obtain u w where s: "s = u @ t @ w" and u: "\<forall>c \<in> set u. in_class c Dot" by blast
    from s u assms(2) have "reach s = u @ t @ reach w"
      using takeWhile_dots [of "u @ t" w] by (simp add: reach_def)
    then show "\<exists>u w. reach s = u @ t @ w" by blast
  next
    assume "\<exists>u w. reach s = u @ t @ w"
    then obtain u w where r: "reach s = u @ t @ w" by blast
    have "\<forall>c \<in> set (reach s). in_class c Dot"
      by (auto simp: reach_def dest: set_takeWhileD simp del: in_class.simps)
    moreover obtain w' where "s = reach s @ w'" using reach_split by blast
    ultimately show "\<exists>u w. s = u @ t @ w \<and> (\<forall>c \<in> set u. in_class c Dot)"
      using r by (metis UnCI append.assoc set_append)
  qed
  also have "(\<not> (\<exists>u w. reach s = u @ t @ w)) \<longleftrightarrow> find_str (reach s) t = None"
    by (simp add: find_str_None)
  finally show ?thesis .
qed

lemma find_str_single: "find_str s [c] = find_char s c"
  by (induction s) auto

lemma matches_not_before_clear:
  assumes "tag \<noteq> []" "\<forall>c \<in> set tag. in_class c Dot"
  shows "matches (not_before tag) b s g = (if clear tag s then [([], s, g)] else [])"
proof -
  have "matches (Seq (Many Dot) (Seq (Ch (One BQUOTE)) (Many Dot))) b s g = []
      \<longleftrightarrow> find_str (reach s) [BQUOTE] = None"
    using dots_before_none [of "[BQUOTE]" b s g] by (simp del: find_str.simps)
  then show ?thesis
    using dots_before_none [OF assms, of b s g]
    by (simp add: not_before_def clear_def find_str_single del: matches.simps(4))
qed

lemma clear_code_tags:
  "matches (not_before ''<code>'') b s g = (if clear ''<code>'' s then [([], s, g)] else [])"
  "matches (not_before ''</code>'') b s g = (if clear ''</code>'' s then [([], s, g)] else [])"
  by (subst matches_not_before_clear; simp)+

definition span_clear :: "string \<Rightarrow> string \<Rightarrow> string \<Rightarrow> bool" where
  "span_clear m v s \<longleftrightarrow>
     clear ''<code>'' (m @ v @ m @ s) \<and> clear ''</code>'' (v @ m @ s) \<and> clear ''</code>'' s"

lemma matches_guard_Seq:
  assumes "matches p b s g = (if P then [([], s, g)] else [])"
  shows "matches (Seq p q) b s g = (if P then matches q b s g else [])"
  by (simp add: assms)

lemma span_match:
  assumes "m = t # ms" "t \<notin> set v"
  shows "matches (span_pattern m [t]) True (m @ v @ m @ s) [] =
      (if span_clear m v s then [(m @ v @ m, s, [(1, v)])] else [])"
    and "t \<notin> set w \<Longrightarrow> matches (span_pattern [t] [t]) True (t # w) [] = []"
proof -
  have stop: "matches (Seq (lits (t # ms)) (not_before ''</code>'')) b (a # w) h = []"
    if "in_class a (NotIn [t])" for b a w h ms
    using that by (simp add: matches_lits_seq del: matches.simps(4))
  let ?tail = "Seq (lits m) (not_before ''</code>'')"
  have tail: "matches (Seq (Group 1 (Many (NotIn [t]))) ?tail) False (v @ m @ s) [] =
      (if clear ''</code>'' s then [(v @ m, s, [(1, v)])] else [])"
    unfolding assms(1)
    by (subst matches_group_many_mid [OF _ _ stop])
       (use assms(2) in \<open>auto simp: matches_lits_seq clear_code_tags simp del: matches.simps(4)\<close>)
  show "matches (span_pattern m [t]) True (m @ v @ m @ s) [] =
      (if span_clear m v s then [(m @ v @ m, s, [(1, v)])] else [])"
    unfolding span_pattern_def matches_guard_Seq [OF clear_code_tags(1)]
      matches_lits_seq [of m _ True] matches_guard_Seq [OF clear_code_tags(2)]
    using assms(1) tail by (simp add: span_clear_def del: matches.simps(4))
  have "matches (Seq (Group 1 (Many (NotIn [t]))) (Seq (lits [t]) (not_before ''</code>''))) False (w @ []) [] = []"
    if "t \<notin> set w"
    by (subst matches_group_many_mid [OF _ _ stop]) (use that in auto)
  then show "matches (span_pattern [t] [t]) True (t # w) [] = []" if "t \<notin> set w"
    unfolding span_pattern_def matches_guard_Seq [OF clear_code_tags(1)]
      matches_lits_seq [of "[t]" _ True] matches_guard_Seq [OF clear_code_tags(2)]
    using that by simp
qed

lemma span_replace:
  assumes "m = t # ms" "t \<notin> set v"
  shows "regex_replace (m @ v @ m @ s) (span_pattern m [t]) fmt =
    (if span_clear m v s then format fmt [(1, v)] @ regex_replace s (span_pattern m [t]) fmt
     else t # regex_replace (ms @ v @ m @ s) (span_pattern m [t]) fmt)"
proof (cases "span_clear m v s")
  case True
  then have found: "matches (span_pattern m [t]) True (m @ v @ m @ s) [] = [(m @ v @ m, s, [(1, v)])]"
    by (simp only: span_match(1) [OF assms] if_True)
  have "0 < min_length (span_pattern m [t])" using assms(1) by simp
  with True show ?thesis by (simp add: replace_head [OF _ _ found])
next
  case False
  with assms show ?thesis
    using replace_skip [of "span_pattern m [t]" t "ms @ v @ m @ s" fmt] span_match(1) [OF assms, of s]
    by simp
qed

text \<open>
  Emphasis: of two underscores the text between them becomes an \<open>em\<close> element exactly when no
  back quote and no \<open>code\<close> tag follows on the line; otherwise the first underscore is kept and the
  search goes on after it. An underscore without a partner stays.
\<close>

theorem emphasized_pairs:
  assumes "CHR ''_'' \<notin> set u" "CHR ''_'' \<notin> set v"
  shows "emphasized_parse (u @ CHR ''_'' # v) = u @ CHR ''_'' # v
    \<and> emphasized_parse (u @ CHR ''_'' # v @ CHR ''_'' # s) =
        (if span_clear ''_'' v s then u @ ''<em>'' @ v @ ''</em>'' @ emphasized_parse s
         else u @ CHR ''_'' # v @ emphasized_parse (CHR ''_'' # s))"
proof -
  have "emphasized_parse (CHR ''_'' # v @ CHR ''_'' # s) =
      (if span_clear ''_'' v s then ''<em>'' @ v @ ''</em>'' @ emphasized_parse s
       else CHR ''_'' # emphasized_parse (v @ CHR ''_'' # s))"
    using span_replace [of "''_''" "CHR ''_''" "[]" v s] assms(2)
    unfolding emphasized_parse_def by (simp add: format_def)
  moreover have "emphasized_parse (CHR ''_'' # v) = CHR ''_'' # emphasized_parse v"
    unfolding emphasized_parse_def
    by (rule replace_skip [OF _ span_match(2) [of "''_''" _ "[]" "[]"]]) (use assms in simp_all)
  ultimately show ?thesis
    using assms by (simp add: emphasized.rewrite_prefix emphasized.rewrite_plain)
qed

theorem emphasized_pairs_witness:
  "emphasized_parse ''a _b_ c'' = ''a <em>b</em> c''
    \<and> emphasized_parse (''_b_ '' @ [BQUOTE] @ ''c'') = ''_b_ '' @ [BQUOTE] @ ''c''"
  using emphasized_pairs [of "''a ''" "''b''" "'' c''"]
    emphasized_pairs [of "[]" "''b''" "'' '' @ [BQUOTE] @ ''c''"]
    emphasized_pairs [of "[]" "'' '' @ [BQUOTE] @ ''c''" "[]"]
  by (simp add: span_clear_def clear_def reach_def emphasized.rewrite_plain)

section \<open>Links\<close>

lemma link_match:
  assumes "CHR '']'' \<notin> set t" "CHR '']'' \<notin> set h" "CHR '')'' \<notin> set r"
    "rest = [] \<or> hd rest = CHR '']''"
  shows "\<exists>others. matches link_pattern True (CHR ''['' # t @ '']('' @ h @ CHR '')'' # r @ rest) [] =
    (''['' @ t @ '']('' @ h @ '')'', r @ rest, [(2, h), (1, t)]) # others"
proof -
  let ?k = "NotIn '']''"
  let ?f = "\<lambda>(u, v). map (\<lambda>(u', v', i). (u @ u', v', i))
    (matches (lits '')'') (False \<and> u = []) v ((2, u) # [(1, t)]))"
  have "\<exists>others. concat (map ?f (many ?k (h @ CHR '')'' # r @ rest))) = ?f (h, CHR '')'' # r @ rest) @ others"
  proof (rule concat_many_last)
    show "?f (u, w) = []" if "w = [] \<or> hd w \<noteq> CHR '')''" for u w
      using that by (cases w) auto
  qed (use assms in auto)
  moreover define z where z: "z = h @ CHR '')'' # r @ rest"
  ultimately obtain others where tail:
    "matches (Seq (Group 2 (Many ?k)) (lits '')'')) False z [(Suc 0, t)] =
      (h @ '')'', r @ rest, [(2, h), (Suc 0, t)]) # others"
    unfolding matches_group_many by auto
  have stop: "matches (Seq (lits '']('') (Seq (Group 2 (Many ?k)) (lits '')''))) b (a # w) g = []"
    if "in_class a ?k" for b a w g
    using that by (simp add: matches_lits_seq del: matches.simps(4) lits.simps)
  have "matches (Seq (Group 1 (Many ?k)) (Seq (lits '']('') (Seq (Group 2 (Many ?k)) (lits '')''))))
      False (t @ ('']('' @ z)) [] =
    (t @ '']('' @ h @ '')'', r @ rest, [(2, h), (1, t)])
      # map (\<lambda>(u, v, g). (t @ '']('' @ u, v, g)) others"
    by (subst matches_group_many_mid [OF _ _ stop])
       (use assms(1) in \<open>auto simp: matches_lits_seq tail comp_def split_def simp del: matches.simps(4) lits.simps\<close>)
  then show ?thesis
    by (simp add: link_pattern_def matches_lits_seq z del: matches.simps(4) lits.simps)
qed

text \<open>
  A link: the first bracketed text followed by a parenthesis becomes an anchor, and its target
  runs to the LAST closing parenthesis that stands before the next closing bracket, so a target may
  contain parentheses and a second parenthesis on the line is swallowed by the first link.
\<close>

theorem link_to_last_parenthesis:
  assumes "CHR ''['' \<notin> set u" "CHR '']'' \<notin> set t" "CHR '']'' \<notin> set h" "CHR '')'' \<notin> set r"
    "rest = [] \<or> hd rest = CHR '']''"
  shows "link_parse (u @ CHR ''['' # t @ '']('' @ h @ CHR '')'' # r @ rest) =
    u @ ''<a href='' @ [DQUOTE] @ h @ [DQUOTE] @ ''>'' @ t @ ''</a>'' @ link_parse (r @ rest)"
proof -
  obtain others where m: "matches link_pattern True (CHR ''['' # t @ '']('' @ h @ CHR '')'' # r @ rest) [] =
      (''['' @ t @ '']('' @ h @ '')'', r @ rest, [(2, h), (1, t)]) # others"
    using link_match [OF assms(2-5)] by blast
  have shape: "\<not> anchored link_pattern" "0 < min_length link_pattern"
    by (simp_all add: link_pattern_def)
  have "link_parse (CHR ''['' # t @ '']('' @ h @ CHR '')'' # r @ rest) =
      ''<a href='' @ [DQUOTE] @ h @ [DQUOTE] @ ''>'' @ t @ ''</a>'' @ link_parse (r @ rest)"
    unfolding link_parse_def by (subst replace_head [OF shape m]) (simp add: format_def)
  then show ?thesis using assms(1) by (simp add: link.rewrite_prefix)
qed

theorem link_to_last_parenthesis_witness:
  "link_parse ''see [a](b) and (c).'' =
     ''see <a href='' @ [DQUOTE] @ ''b) and (c'' @ [DQUOTE] @ ''>a</a>.''"
  using link_to_last_parenthesis [of "''see ''" "''a''" "''b) and (c''" "''.''" "[]"]
  by (simp add: link.rewrite_plain)

section \<open>Lines without markup\<close>

lemma replace_none:
  assumes "\<not> anchored p" "\<And>u v. s = u @ v \<Longrightarrow> matches p True v [] = []"
  shows "regex_replace s p fmt = s"
  using assms(2)
proof (induction s)
  case Nil
  then show ?case by (simp add: regex_replace_def)
next
  case (Cons c s)
  have "matches p True (c # s) [] = []" using Cons.prems [of "[]"] by simp
  moreover have "regex_replace s p fmt = s"
    using Cons.IH Cons.prems by (metis append_Cons)
  ultimately show ?case using assms(1) by (simp add: replace_skip)
qed

lemma image_needs_bracket: "CHR ''['' \<notin> set s \<Longrightarrow> image_parse s = s"
  unfolding image_parse_def
proof (rule replace_none)
  show "\<not> anchored (Seq (lits ''!'') link_pattern)" by (simp add: link_pattern_def)
  show "matches (Seq (lits ''!'') link_pattern) True v [] = []"
    if "CHR ''['' \<notin> set s" "s = u @ v" for u v
  proof -
    have "matches link_pattern b w g = []" if "CHR ''['' \<notin> set w" for b w g
      using that by (cases w) (simp_all add: link_pattern_def matches_lits_seq del: matches.simps(4) lits.simps)
    moreover have "CHR ''['' \<notin> set (drop 1 v)"
      using that by (metis UnCI in_set_dropD set_append)
    ultimately show ?thesis
      by (simp add: matches_lits_seq del: matches.simps(4) lits.simps drop_Suc)
  qed
qed

lemma run_line_parser_plain:
  assumes "set s \<inter> {CHR ''['', CHR ''*'', CHR ''_'', CHR ''~'', BQUOTE, CR} = {}"
  shows "run_line_parser config s = s"
proof -
  have "link_parse (image_parse s) = s"
    using assms by (simp add: image_needs_bracket link.rewrite_plain)
  moreover have "strong_parse s = s"
    using assms by (simp add: strong_parse_def strong_star.rewrite_plain strong_underscore.rewrite_plain)
  moreover have "emphasized_parse s = s" "strike_through_parse s = s" "inline_code_parse s = s"
    "italic_parse s = s" "break_line_parse s = s"
    using assms by (simp_all add: emphasized.rewrite_plain strike_through.rewrite_plain
        inline_code.rewrite_plain italic.rewrite_plain break_line.rewrite_plain)
  ultimately show ?thesis
    by (simp add: run_line_parser_def split: option.splits)
qed

text \<open>
  The line parsers only touch markup: whatever the configuration, a line with no bracket,
  asterisk, underscore, tilde, back quote or carriage return is left as it is.
\<close>

theorem plain_line_unchanged:
  assumes "set s \<inter> {CHR ''['', CHR ''*'', CHR ''_'', CHR ''~'', BQUOTE, CR} = {}"
  shows "run_line_parser config s = s"
  using assms by (rule run_line_parser_plain)

theorem plain_line_unchanged_witness:
  "run_line_parser None ''Hi! 1 < 2 (really) <b>x</b>'' = ''Hi! 1 < 2 (really) <b>x</b>''"
  using plain_line_unchanged [of "''Hi! 1 < 2 (really) <b>x</b>''" None] by simp

end
