(* ===== verification/Inline_Markup.thy ===== *)
theory Inline_Markup
  imports Line_Parsers
begin

text \<open>
  The inline markup that the line parsers understand together: a line is written as a list of
  elements, and \<open>Parser::runLineParser\<close>, which runs eight parsers over the text one after the
  other, is shown to turn each element into its own HTML. The elements are a specification, not a
  part of the code; the code is \<open>run_line_parser\<close> of \<open>Line_Parsers\<close>.
\<close>

section \<open>Elements of a line\<close>

datatype inline =
    Plain string
  | Stars string
  | Underscores string
  | Emph string
  | Strike string
  | Italic string
  | Code_span string
  | Anchor string string
  | Picture string string

fun markup :: "inline \<Rightarrow> string" where
  "markup (Plain t) = t"
| "markup (Stars t) = ''**'' @ t @ ''**''"
| "markup (Underscores t) = ''__'' @ t @ ''__''"
| "markup (Emph t) = ''_'' @ t @ ''_''"
| "markup (Strike t) = ''~~'' @ t @ ''~~''"
| "markup (Italic t) = ''*'' @ t @ ''*''"
| "markup (Code_span t) = BQUOTE # t @ [BQUOTE]"
| "markup (Anchor t h) = ''['' @ t @ '']('' @ h @ '')''"
| "markup (Picture t h) = ''!['' @ t @ '']('' @ h @ '')''"

fun rendered :: "inline \<Rightarrow> string" where
  "rendered (Plain t) = t"
| "rendered (Stars t) = ''<strong>'' @ t @ ''</strong>''"
| "rendered (Underscores t) = ''<strong>'' @ t @ ''</strong>''"
| "rendered (Emph t) = ''<em>'' @ t @ ''</em>''"
| "rendered (Strike t) = ''<s>'' @ t @ ''</s>''"
| "rendered (Italic t) = ''<i>'' @ t @ ''</i>''"
| "rendered (Code_span t) = ''<code>'' @ t @ ''</code>''"
| "rendered (Anchor t h) = ''<a href='' @ [DQUOTE] @ h @ [DQUOTE] @ ''>'' @ t @ ''</a>''"
| "rendered (Picture t h) = ''<img src='' @ [DQUOTE] @ h @ [DQUOTE] @ '' alt='' @ [DQUOTE] @ t @ [DQUOTE] @ ''/>''"

text \<open>A line in the middle of the work: the elements of the kinds in \<open>ready\<close> are HTML already.\<close>

definition shown :: "(inline \<Rightarrow> bool) \<Rightarrow> inline \<Rightarrow> string" where
  "shown ready x = (if ready x then rendered x else markup x)"

definition line_of :: "(inline \<Rightarrow> bool) \<Rightarrow> inline list \<Rightarrow> string" where
  "line_of ready xs = concat (map (shown ready) xs)"

abbreviation (input) source_line :: "inline list \<Rightarrow> string" where
  "source_line xs \<equiv> line_of (\<lambda>x. False) xs"

fun is_span :: "inline \<Rightarrow> bool" where
  "is_span (Stars t) = True"
| "is_span (Underscores t) = True"
| "is_span (Emph t) = True"
| "is_span (Strike t) = True"
| "is_span (Italic t) = True"
| "is_span x = False"

fun is_code :: "inline \<Rightarrow> bool" where
  "is_code (Code_span t) = True"
| "is_code x = False"

text \<open>
  What the whole line becomes: every element its HTML, but a marked span with inline code somewhere
  after it stays as it was written.
\<close>

fun inline_html :: "inline list \<Rightarrow> string" where
  "inline_html [] = []"
| "inline_html (x # xs) =
     (if is_span x \<and> list_ex is_code xs then markup x else rendered x) @ inline_html xs"

text \<open>
  Which lines: texts and targets are free of the characters that open or close an element (and of
  \<open><\<close>); inline code may hold the markers of spans. An exclamation mark does not meet a bracket, and a
  span marked with one character is not empty and does not meet that character.
\<close>

definition text_ok :: "string \<Rightarrow> bool" where
  "text_ok t \<longleftrightarrow>
     set t \<inter> {CHR ''['', CHR '']'', CHR '')'', CHR ''*'', CHR ''_'', CHR ''~'', CHR ''<'', BQUOTE, CR, LF} = {}"

definition code_ok :: "string \<Rightarrow> bool" where
  "code_ok t \<longleftrightarrow> set t \<inter> {CHR ''['', CHR '']'', CHR '')'', BQUOTE, CR, LF} = {}"

fun element_ok :: "inline \<Rightarrow> bool" where
  "element_ok (Plain t) = text_ok t"
| "element_ok (Stars t) = text_ok t"
| "element_ok (Underscores t) = text_ok t"
| "element_ok (Emph t) = (t \<noteq> [] \<and> text_ok t)"
| "element_ok (Strike t) = text_ok t"
| "element_ok (Italic t) = (t \<noteq> [] \<and> text_ok t)"
| "element_ok (Code_span t) = code_ok t"
| "element_ok (Anchor t h) = (text_ok t \<and> text_ok h)"
| "element_ok (Picture t h) = (text_ok t \<and> text_ok h)"

fun meets :: "inline \<Rightarrow> string \<Rightarrow> bool" where
  "meets (Plain t) s = (t \<noteq> [] \<and> last t = CHR ''!'' \<and> starts_with ''['' s)"
| "meets (Emph t) s = starts_with ''_'' s"
| "meets (Italic t) s = starts_with ''*'' s"
| "meets x s = False"

fun fits :: "inline list \<Rightarrow> bool" where
  "fits [] = True"
| "fits (x # xs) = (element_ok x \<and> \<not> meets x (source_line xs) \<and> fits xs)"

lemma line_of_Nil [simp]: "line_of ready [] = []"
  by (simp add: line_of_def)

lemma line_of_Cons [simp]: "line_of ready (x # xs) = shown ready x @ line_of ready xs"
  by (simp add: line_of_def)

lemma line_of_append [simp]: "line_of ready (xs @ ys) = line_of ready xs @ line_of ready ys"
  by (simp add: line_of_def)

lemma fits_append: "fits (xs @ ys) \<Longrightarrow> fits ys"
  by (induction xs) auto

lemma fits_ok: "fits xs \<Longrightarrow> x \<in> set xs \<Longrightarrow> element_ok x"
  by (induction xs) auto

text \<open>A parser that moves along the line element by element.\<close>

locale inline_pass =
  fixes pass :: "string \<Rightarrow> string"
    and before after :: "inline \<Rightarrow> bool"
    and good :: "inline list \<Rightarrow> bool"
  assumes pass_nil: "pass [] = []"
    and good_tl: "good (x # xs) \<Longrightarrow> good xs"
    and pass_element: "good (x # xs) \<Longrightarrow>
      pass (shown before x @ line_of before xs) = shown after x @ pass (line_of before xs)"
begin

lemma pass_line: "good xs \<Longrightarrow> pass (line_of before xs) = line_of after xs"
  by (induction xs) (auto simp: pass_nil pass_element dest: good_tl)

end

section \<open>Images and links\<close>

lemma text_ok_simps:
  assumes "text_ok t"
  shows "CHR ''['' \<notin> set t" "CHR '']'' \<notin> set t" "CHR '')'' \<notin> set t" "CHR ''*'' \<notin> set t" "CHR ''_'' \<notin> set t"
    "CHR ''~'' \<notin> set t" "CHR ''<'' \<notin> set t" "BQUOTE \<notin> set t" "CR \<notin> set t" "LF \<notin> set t"
  using assms by (simp_all add: text_ok_def)

lemma code_ok_simps:
  assumes "code_ok t"
  shows "CHR ''['' \<notin> set t" "CHR '']'' \<notin> set t" "CHR '')'' \<notin> set t" "BQUOTE \<notin> set t" "CR \<notin> set t" "LF \<notin> set t"
  using assms by (simp_all add: code_ok_def)

lemma markup_dots: "element_ok x \<Longrightarrow> CR \<notin> set (markup x) \<and> LF \<notin> set (markup x)"
  by (cases x) (simp_all add: text_ok_simps(9,10) code_ok_simps(5,6))

lemma rendered_dots: "element_ok x \<Longrightarrow> CR \<notin> set (rendered x) \<and> LF \<notin> set (rendered x)"
  by (cases x) (simp_all add: text_ok_simps(9,10) code_ok_simps(5,6))

lemma element_dots: "element_ok x \<Longrightarrow> CR \<notin> set (shown ready x) \<and> LF \<notin> set (shown ready x)"
  by (simp add: shown_def markup_dots rendered_dots)

lemma line_dots: "fits xs \<Longrightarrow> CR \<notin> set (line_of ready xs) \<and> LF \<notin> set (line_of ready xs)"
  by (induction xs) (auto dest: element_dots)

text \<open>No closing parenthesis before the next closing bracket.\<close>

definition link_safe :: "string \<Rightarrow> bool" where
  "link_safe s \<longleftrightarrow> CHR '')'' \<notin> set (takeWhile (\<lambda>c. c \<noteq> CHR '']'') s)"

lemma link_safe_Nil [simp]: "link_safe []"
  by (simp add: link_safe_def)

lemma link_safe_Cons [simp]: "link_safe (c # s) \<longleftrightarrow> c = CHR '']'' \<or> c \<noteq> CHR '')'' \<and> link_safe s"
  by (auto simp: link_safe_def)

lemma link_safe_append [simp]:
  "CHR '']'' \<notin> set u \<Longrightarrow> CHR '')'' \<notin> set u \<Longrightarrow> link_safe (u @ s) \<longleftrightarrow> link_safe s"
  by (induction u) auto

lemma link_safe_line: "fits xs \<Longrightarrow> link_safe (line_of ready xs)"
proof (induction xs)
  case (Cons x xs)
  then show ?case by (cases x) (auto simp: shown_def text_ok_simps code_ok_simps)
qed simp

lemma link_replace:
  assumes "CHR '']'' \<notin> set t" "CHR '']'' \<notin> set h" "link_safe s"
  shows "link_parse (''['' @ t @ '']('' @ h @ '')'' @ s) = rendered (Anchor t h) @ link_parse s"
    and "image_parse (''!['' @ t @ '']('' @ h @ '')'' @ s) = rendered (Picture t h) @ image_parse s"
proof -
  define r rest where "r = takeWhile (\<lambda>c. c \<noteq> CHR '']'') s" and "rest = dropWhile (\<lambda>c. c \<noteq> CHR '']'') s"
  then have s: "s = r @ rest" and r: "CHR '')'' \<notin> set r" and rest: "rest = [] \<or> hd rest = CHR '']''"
    using assms(3) hd_dropWhile [of "\<lambda>c. c \<noteq> CHR '']''" s] by (auto simp: link_safe_def)
  obtain others where m: "matches link_pattern True (CHR ''['' # t @ '']('' @ h @ CHR '')'' # s) [] =
      (''['' @ t @ '']('' @ h @ '')'', s, [(2, h), (1, t)]) # others"
    using link_match [OF assms(1,2) r rest] s by auto
  have shape: "\<not> anchored link_pattern" "0 < min_length link_pattern"
    by (simp_all add: link_pattern_def)
  show "link_parse (''['' @ t @ '']('' @ h @ '')'' @ s) = rendered (Anchor t h) @ link_parse s"
    unfolding link_parse_def using replace_head [OF shape m] by (simp add: format_def)
  have "matches (Seq (lits ''!'') link_pattern) True (CHR ''!'' # CHR ''['' # t @ '']('' @ h @ CHR '')'' # s) [] =
      (''!['' @ t @ '']('' @ h @ '')'', s, [(2, h), (1, t)])
        # map (\<lambda>(u, v, g). (''!'' @ u, v, g)) others"
    using m by (simp add: matches_lits_seq matches_unanchored [OF shape(1), of False] del: matches.simps(4) lits.simps)
  from replace_head [OF _ _ this] shape
  show "image_parse (''!['' @ t @ '']('' @ h @ '')'' @ s) = rendered (Picture t h) @ image_parse s"
    unfolding image_parse_def by (simp add: format_def)
qed

lemma image_skip:
  "CHR ''['' \<notin> set u \<Longrightarrow> \<not> (u \<noteq> [] \<and> last u = CHR ''!'' \<and> starts_with ''['' s) \<Longrightarrow> image_parse (u @ s) = u @ image_parse s"
proof (induction u)
  case (Cons c u)
  have "image_parse ((c # u) @ s) = c # image_parse (u @ s)"
  proof (cases "c = CHR ''!''")
    case True
    then have "\<not> starts_with ''['' (u @ s)" using Cons.prems by (cases u) auto
    then have "matches (Seq (lits ''!'') link_pattern) True (c # (u @ s)) [] = []"
      by (simp add: link_pattern_def matches_lits_seq del: matches.simps(4) lits.simps)
    then show ?thesis
      unfolding image_parse_def by (simp add: replace_skip link_pattern_def)
  qed (simp add: image.rewrite_other)
  with Cons show ?case by (auto split: if_splits)
qed simp

text \<open>Which of the parsers deals with an element, by its place in the order they run.\<close>

fun pass_of :: "inline \<Rightarrow> nat" where
  "pass_of (Picture t h) = 1"
| "pass_of (Anchor t h) = 2"
| "pass_of (Stars t) = 3"
| "pass_of (Underscores t) = 4"
| "pass_of (Emph t) = 5"
| "pass_of (Strike t) = 6"
| "pass_of (Code_span t) = 7"
| "pass_of (Italic t) = 8"
| "pass_of (Plain t) = 9"

abbreviation until :: "nat \<Rightarrow> inline \<Rightarrow> bool" where
  "until k x \<equiv> pass_of x \<le> k"

lemma markup_no_bracket:
  "element_ok x \<Longrightarrow> \<not> pass_of x \<le> 2 \<Longrightarrow>
    CHR ''['' \<notin> set (markup x) \<and> (markup x \<noteq> [] \<and> last (markup x) = CHR ''!'' \<longrightarrow> x = Plain (markup x))"
  by (cases x) (simp_all add: text_ok_simps(1) code_ok_simps(1))

lemma image_element:
  assumes "fits (x # xs)"
  shows "image_parse (shown (\<lambda>x. False) x @ source_line xs) = shown (until 1) x @ image_parse (source_line xs)"
proof (cases "pass_of x \<le> 2")
  case False
  then have "markup x \<noteq> [] \<and> last (markup x) = CHR ''!'' \<longrightarrow> \<not> starts_with ''['' (source_line xs)"
    using assms markup_no_bracket [of x] by (cases x) auto
  then have "image_parse (markup x @ source_line xs) = markup x @ image_parse (source_line xs)"
    using assms False markup_no_bracket [of x] by (intro image_skip) auto
  moreover have "\<not> until 1 x" using False by (cases x) auto
  ultimately show ?thesis by (simp add: shown_def)
next
  case True
  then consider t h where "x = Anchor t h" | t h where "x = Picture t h" by (cases x) auto
  then show ?thesis
  proof cases
    case 1
    then have "image_parse (t @ '']('' @ h @ '')'' @ source_line xs) = t @ '']('' @ h @ '')'' @ image_parse (source_line xs)"
      using assms image_skip [of "t @ '']('' @ h @ '')''" "source_line xs"] by (simp add: text_ok_simps(1))
    with 1 show ?thesis by (simp add: shown_def image.rewrite_other)
  next
    case 2
    then show ?thesis
      using assms link_replace(2) [of t h "source_line xs"] link_safe_line [of xs] by (simp add: shown_def text_ok_simps(2))
  qed
qed

interpretation images: inline_pass image_parse "\<lambda>x. False" "until 1" fits
  by unfold_locales (simp add: image.rewrite_plain, simp, erule image_element)

lemma link_element:
  assumes "fits (x # xs)"
  shows "link_parse (shown (until 1) x @ line_of (until 1) xs) = shown (until 2) x @ link_parse (line_of (until 1) xs)"
proof (cases "\<exists>t h. x = Anchor t h")
  case True
  then obtain t h where "x = Anchor t h" by blast
  then show ?thesis
    using assms link_replace(1) [of t h "line_of (until 1) xs"] link_safe_line [of xs "until 1"]
    by (simp add: shown_def text_ok_simps(2))
next
  case False
  with assms have "CHR ''['' \<notin> set (shown (until 1) x)" "shown (until 2) x = shown (until 1) x"
    by (cases x; simp add: shown_def text_ok_simps(1) code_ok_simps(1))+
  then show ?thesis by (simp add: link.rewrite_prefix)
qed

interpretation links: inline_pass link_parse "until 1" "until 2" fits
  by unfold_locales (simp add: link.rewrite_plain, simp, erule link_element)

lemma images_and_links: "fits xs \<Longrightarrow> link_parse (image_parse (source_line xs)) = line_of (until 2) xs"
  by (simp only: images.pass_line links.pass_line)

section \<open>Spans that no code follows\<close>

text \<open>No back quote, no line end and no \<open>code\<close> tag: the lookaheads of the span patterns succeed.\<close>

fun codeless :: "string \<Rightarrow> bool" where
  "codeless [] = True"
| "codeless (c # s) =
     (c \<notin> {BQUOTE, CR, LF} \<and> \<not> starts_with ''<code>'' (c # s) \<and> \<not> starts_with ''</code>'' (c # s) \<and> codeless s)"

lemma codeless_clear: "codeless s \<Longrightarrow> clear ''<code>'' s \<and> clear ''</code>'' s"
proof -
  have "codeless s \<Longrightarrow> reach s = s \<and> BQUOTE \<notin> set s \<and> find_str s ''<code>'' = None \<and> find_str s ''</code>'' = None"
    by (induction s) (auto simp: reach_def)
  then show "codeless s \<Longrightarrow> clear ''<code>'' s \<and> clear ''</code>'' s"
    by (simp add: clear_def)
qed

lemma codeless_text: "text_ok t \<Longrightarrow> codeless s \<Longrightarrow> codeless (t @ s)"
  by (induction t) (auto simp: text_ok_def)

lemma codeless_element: "element_ok x \<Longrightarrow> \<not> is_code x \<Longrightarrow> codeless s \<Longrightarrow> codeless (shown ready x @ s)"
  by (cases x) (simp_all add: shown_def codeless_text)

lemma codeless_line: "fits xs \<Longrightarrow> \<not> list_ex is_code xs \<Longrightarrow> codeless (line_of ready xs)"
  by (induction xs) (simp_all add: codeless_element)

lemma span_pass:
  assumes "m = t # ms" "t \<notin> {BQUOTE, CR, LF, CHR ''<''}" "set ms \<subseteq> {t}" "t \<notin> set v" "text_ok v" "codeless s"
  shows "regex_replace (m @ v @ m @ s) (span_pattern m [t]) fmt =
    format fmt [(1, v)] @ regex_replace s (span_pattern m [t]) fmt"
proof -
  have m: "codeless (m @ w)" if "codeless w" for w
  proof -
    have "set m \<subseteq> {t}" using assms(1,3) by simp
    then show ?thesis using that assms(2) by (induction m) auto
  qed
  have "span_clear m v s"
    unfolding span_clear_def using assms(5,6) by (simp add: m codeless_text codeless_clear)
  then show ?thesis by (simp add: span_replace [OF assms(1,4)])
qed

lemma span_no_marker:
  assumes "\<not> starts_with m s"
  shows "matches (span_pattern m stops) True s [] = []"
  using assms matches_not_before [of "''<code>''" True s "[]"]
  by (auto simp only: span_pattern_def matches.simps matches_lits if_False list.map concat.simps
      prod.case append.simps simp_thms)

text \<open>A character on its own does not open a span with a doubled marker.\<close>

lemma span_single:
  assumes "\<not> starts_with (t # ms) (c # s)"
  shows "regex_replace (c # s) (span_pattern (t # ms) stops) fmt = c # regex_replace s (span_pattern (t # ms) stops) fmt"
  using assms by (intro replace_skip span_no_marker) simp_all

lemma starts_with_one: "starts_with [c] (u @ s) \<longleftrightarrow> (if u = [] then starts_with [c] s else c = hd u)"
  by (cases u) auto

lemma line_starts:
  assumes "starts_with [c] (line_of ready xs)" "c \<noteq> CHR ''<''"
  shows "starts_with [c] (source_line xs)"
  using assms
proof (induction xs)
  case (Cons x xs)
  then show ?case by (cases x) (auto simp: shown_def starts_with_one split: if_splits)
qed simp

text \<open>A span with a single marker is passed by the parser of the doubled marker.\<close>

lemma single_marked:
  assumes "line_parser (\<lambda>s. regex_replace s (span_pattern [t, t] stops) fmt) t"
    "v \<noteq> []" "t \<notin> set v" "\<not> starts_with [t] s"
  shows "regex_replace (t # v @ t # s) (span_pattern [t, t] stops) fmt =
    t # v @ t # regex_replace s (span_pattern [t, t] stops) fmt"
proof -
  have "\<not> starts_with [t, t] (t # v @ t # s)" using assms(2,3) by (cases v) auto
  moreover have "\<not> starts_with [t, t] (t # s)" using assms(4) by simp
  ultimately show ?thesis using assms(3) by (simp add: span_single line_parser.rewrite_prefix [OF assms(1)])
qed

definition exposed :: "inline list \<Rightarrow> bool" where
  "exposed xs \<longleftrightarrow> fits xs \<and> \<not> list_ex is_code xs"

lemma exposed_Cons: "exposed (x # xs) \<longleftrightarrow> element_ok x \<and> \<not> meets x (source_line xs) \<and> \<not> is_code x \<and> exposed xs"
  by (auto simp: exposed_def)

lemma exposed_codeless: "exposed xs \<Longrightarrow> codeless (line_of ready xs)"
  by (simp add: exposed_def codeless_line)

lemma other_marker:
  "exposed (x # xs) \<Longrightarrow> pass_of x \<noteq> 3 \<and> pass_of x \<noteq> 8 \<Longrightarrow> CHR ''*'' \<notin> set (shown ready x)"
  "exposed (x # xs) \<Longrightarrow> pass_of x \<noteq> 4 \<and> pass_of x \<noteq> 5 \<Longrightarrow> CHR ''_'' \<notin> set (shown ready x)"
  "exposed (x # xs) \<Longrightarrow> pass_of x \<noteq> 6 \<Longrightarrow> CHR ''~'' \<notin> set (shown ready x)"
  "exposed (x # xs) \<Longrightarrow> pass_of x \<noteq> 7 \<Longrightarrow> BQUOTE \<notin> set (shown ready x)"
  by (cases x; simp add: exposed_Cons shown_def text_ok_simps)+

text \<open>
  What a span parser may find in front of it: a span of its own, one with half its marker, or a text
  without its character.
\<close>

definition passes :: "char \<Rightarrow> string \<Rightarrow> format_part list \<Rightarrow> string \<Rightarrow> string \<Rightarrow> string \<Rightarrow> bool" where
  "passes t m fmt u w s \<longleftrightarrow>
     (\<exists>v. u = m @ v @ m \<and> w = format fmt [(1, v)] \<and> text_ok v \<and> t \<notin> set v)
     \<or> (\<exists>v. m = [t, t] \<and> u = t # v @ [t] \<and> w = u \<and> v \<noteq> [] \<and> t \<notin> set v \<and> \<not> starts_with [t] s)
     \<or> t \<notin> set u \<and> w = u"

lemma passes_element:
  assumes "line_parser (\<lambda>s. regex_replace s (span_pattern m [t]) fmt) t" "m \<in> {[t], [t, t]}"
    "t \<notin> {BQUOTE, CR, LF, CHR ''<''}" "codeless s" "passes t m fmt u w s"
  shows "regex_replace (u @ s) (span_pattern m [t]) fmt = w @ regex_replace s (span_pattern m [t]) fmt"
proof -
  obtain ms where m: "m = t # ms" "set ms \<subseteq> {t}" using assms(2) by auto
  consider v where "u = m @ v @ m" "w = format fmt [(1, v)]" "text_ok v" "t \<notin> set v"
    | v where "m = [t, t]" "u = t # v @ [t]" "w = u" "v \<noteq> []" "t \<notin> set v" "\<not> starts_with [t] s"
    | "t \<notin> set u" "w = u"
    using assms(5) unfolding passes_def by blast
  then show ?thesis
  proof cases
    case 1
    then show ?thesis using span_pass [OF m(1) assms(3) m(2), of v s fmt] assms(4) by simp
  next
    case 2
    then show ?thesis using single_marked [of t "[t]" fmt v s] assms(1) by simp
  next
    case 3
    then show ?thesis by (simp add: line_parser.rewrite_prefix [OF assms(1)])
  qed
qed

lemma star_passes:
  assumes "exposed (x # xs)"
  shows "passes (CHR ''*'') ''**'' [Text ''<strong>'', Sub 1, Text ''</strong>'']
    (shown (until 2) x) (shown (until 3) x) (line_of (until 2) xs)"
  using assms line_starts [of "CHR ''*''" "until 2" xs]
  by (cases x; force simp: passes_def exposed_Cons shown_def text_ok_simps format_def)

lemma underscore_passes:
  assumes "exposed (x # xs)"
  shows "passes (CHR ''_'') ''__'' [Text ''<strong>'', Sub 1, Text ''</strong>'']
    (shown (until 3) x) (shown (until 4) x) (line_of (until 3) xs)"
  using assms line_starts [of "CHR ''_''" "until 3" xs]
  by (cases x; force simp: passes_def exposed_Cons shown_def text_ok_simps format_def)

lemma emphasized_passes:
  assumes "exposed (x # xs)"
  shows "passes (CHR ''_'') ''_'' [Text ''<em>'', Sub 1, Text ''</em>'']
    (shown (until 4) x) (shown (until 5) x) (line_of (until 4) xs)"
  using assms line_starts [of "CHR ''_''" "until 4" xs]
  by (cases x; force simp: passes_def exposed_Cons shown_def text_ok_simps format_def)

lemma strike_passes:
  assumes "exposed (x # xs)"
  shows "passes (CHR ''~'') ''~~'' [Text ''<s>'', Sub 1, Text ''</s>'']
    (shown (until 5) x) (shown (until 6) x) (line_of (until 5) xs)"
  using assms line_starts [of "CHR ''~''" "until 5" xs]
  by (cases x; force simp: passes_def exposed_Cons shown_def text_ok_simps format_def)

lemma italic_passes:
  assumes "exposed (x # xs)"
  shows "passes (CHR ''*'') ''*'' [Text ''<i>'', Sub 1, Text ''</i>'']
    (shown (until 7) x) (shown (until 8) x) (line_of (until 7) xs)"
  using assms line_starts [of "CHR ''*''" "until 7" xs]
  by (cases x; force simp: passes_def exposed_Cons shown_def text_ok_simps format_def)

lemma exposed_pass:
  assumes "P = (\<lambda>s. regex_replace s (span_pattern m [t]) fmt)" "line_parser P t" "m \<in> {[t], [t, t]}"
    "t \<notin> {BQUOTE, CR, LF, CHR ''<''}"
    "\<And>x xs. exposed (x # xs) \<Longrightarrow> passes t m fmt (shown before x) (shown after x) (line_of before xs)"
  shows "inline_pass P before after exposed"
proof
  show "P [] = []" by (rule line_parser.rewrite_nil [OF assms(2)])
  show "exposed xs" if "exposed (x # xs)" for x xs using that by (simp add: exposed_Cons)
  show "P (shown before x @ line_of before xs) = shown after x @ P (line_of before xs)"
    if "exposed (x # xs)" for x xs
  proof -
    have "codeless (line_of before xs)" using that by (simp add: exposed_Cons exposed_codeless)
    from passes_element [OF assms(2) [unfolded assms(1)] assms(3,4) this assms(5) [OF that]]
    show ?thesis unfolding assms(1) .
  qed
qed

interpretation star_pass: inline_pass strong_star "until 2" "until 3" exposed
  by (rule exposed_pass [OF _ strong_star.line_parser_axioms _ _ star_passes]) (auto simp: strong_star_def)

interpretation underscore_pass: inline_pass strong_underscore "until 3" "until 4" exposed
  by (rule exposed_pass [OF _ strong_underscore.line_parser_axioms _ _ underscore_passes]) (auto simp: strong_underscore_def)

interpretation emphasized_pass: inline_pass emphasized_parse "until 4" "until 5" exposed
  by (rule exposed_pass [OF _ emphasized.line_parser_axioms _ _ emphasized_passes]) (auto simp: emphasized_parse_def)

interpretation strike_pass: inline_pass strike_through_parse "until 5" "until 6" exposed
  by (rule exposed_pass [OF _ strike_through.line_parser_axioms _ _ strike_passes]) (auto simp: strike_through_parse_def)

interpretation italic_pass: inline_pass italic_parse "until 7" "until 8" exposed
  by (rule exposed_pass [OF _ italic.line_parser_axioms _ _ italic_passes]) (auto simp: italic_parse_def)

section \<open>Spans that code follows\<close>

text \<open>Up to the last back quote, or the last closing \<open>code\<close> tag, the span parsers change nothing.\<close>

lemma span_shielded:
  assumes "CR \<notin> set u" "LF \<notin> set u" "(\<exists>w. s = BQUOTE # w) \<or> (\<exists>w. s = ''</code>'' @ w)"
    "m \<noteq> []" "BQUOTE \<notin> set m" "CHR ''<'' \<notin> set m"
  shows "regex_replace (u @ s) (span_pattern m stops) fmt = u @ regex_replace s (span_pattern m stops) fmt"
  using assms(1,2)
proof (induction u)
  case (Cons c u)
  have "matches (span_pattern m stops) True (c # u @ s) [] = []"
  proof (cases "starts_with m (c # u @ s)")
    case True
    obtain d w where s: "s = d # w" "d \<notin> set m" using assms(3,5,6) by auto
    from True obtain r where "(c # u) @ s = m @ r" by (auto simp: starts_with_iff)
    then obtain v where "c # u = m @ v \<or> m = (c # u) @ v \<and> s = v @ r"
      using append_eq_append_conv2 [of "c # u" s m r] by auto
    then have "c # u = m @ (if c # u = m @ v then v else [])"
      using s by (cases v) auto
    then have rest: "drop (length m) (c # u @ s) = drop (length m) (c # u) @ s"
      using drop_append [of "length m" "c # u" s] by (metis append_Cons append_eq_conv_conj append_assoc)
    have dots: "\<forall>x \<in> set (drop (length m) (c # u)). in_class x Dot"
      using Cons.prems by (auto dest!: in_set_dropD)
    from assms(3) have "\<not> clear ''</code>'' (drop (length m) (c # u) @ s)"
    proof
      assume "\<exists>w. s = BQUOTE # w"
      then show ?thesis using takeWhile_dots [OF dots, of s] by (auto simp: clear_def reach_def)
    next
      assume "\<exists>w. s = ''</code>'' @ w"
      then obtain w where "s = ''</code>'' @ w" ..
      then have "reach (drop (length m) (c # u) @ s) = drop (length m) (c # u) @ ''</code>'' @ reach w"
        using takeWhile_dots [OF dots, of s] by (simp add: reach_def)
      then show ?thesis by (auto simp: clear_def find_str_None)
    qed
    then show ?thesis
      unfolding span_pattern_def matches_guard_Seq [OF clear_code_tags(1)] matches_lits_seq [of m _ True]
        matches_guard_Seq [OF clear_code_tags(2)] rest by simp
  qed (rule span_no_marker)
  then show ?case using Cons by (simp add: replace_skip)
qed simp

lemma span_after_code:
  assumes "P = (\<lambda>s. regex_replace s (span_pattern m stops) fmt)" "line_parser P t" "t \<in> {CHR ''*'', CHR ''_'', CHR ''~''}"
    "m \<in> {[t], [t, t]}" "CR \<notin> set u" "LF \<notin> set u"
  shows "P (u @ BQUOTE # s) = u @ BQUOTE # P s" "P (u @ ''</code>'' @ s) = u @ ''</code>'' @ P s"
proof -
  have m: "m \<noteq> []" "BQUOTE \<notin> set m" "CHR ''<'' \<notin> set m" using assms(3,4) by auto
  have "P (u @ w) = u @ P w" if "(\<exists>s. w = BQUOTE # s) \<or> (\<exists>s. w = ''</code>'' @ s)" for w
    unfolding assms(1) by (rule span_shielded [OF assms(5,6) that m])
  moreover have "P (BQUOTE # s) = BQUOTE # P s" using assms(3) by (intro line_parser.rewrite_other [OF assms(2)]) auto
  moreover have "P (''</code>'' @ s) = ''</code>'' @ P s" using assms(3) by (intro line_parser.rewrite_prefix [OF assms(2)]) auto
  ultimately show "P (u @ BQUOTE # s) = u @ BQUOTE # P s" "P (u @ ''</code>'' @ s) = u @ ''</code>'' @ P s" by auto
qed

lemma code_line:
  assumes "\<forall>x \<in> set xs. element_ok x"
  shows "inline_code_parse (line_of (until 2) xs @ s) = line_of (\<lambda>x. \<not> is_span x) xs @ inline_code_parse s"
  using assms
proof (induction xs)
  case (Cons x xs)
  show ?case
  proof (cases "\<exists>t. x = Code_span t")
    case True
    then show ?thesis using Cons inline_code_pairs [of "[]"] by (auto simp: shown_def code_ok_simps(4))
  next
    case False
    with Cons.prems have "BQUOTE \<notin> set (shown (until 2) x)" "shown (until 2) x = shown (\<lambda>x. \<not> is_span x) x"
      by (cases x; simp add: shown_def text_ok_simps(8))+
    with Cons show ?thesis by (simp add: inline_code.rewrite_prefix)
  qed
qed simp

section \<open>The whole line\<close>

lemma last_code:
  assumes "list_ex is_code xs"
  obtains ys t zs where "xs = ys @ Code_span t # zs" "\<not> list_ex is_code zs"
proof -
  from assms have "\<exists>x \<in> set xs. is_code x" by (simp add: list_ex_iff)
  then obtain ys x zs where "xs = ys @ x # zs" "is_code x" "\<forall>z \<in> set zs. \<not> is_code z"
    by (rule split_list_last_propE)
  moreover from this obtain t where "x = Code_span t" by (cases x) auto
  ultimately show ?thesis using that by (simp add: list_ex_iff)
qed

lemma inline_html_exposed: "\<not> list_ex is_code xs \<Longrightarrow> inline_html xs = line_of (until 8) xs"
proof (induction xs)
  case (Cons x xs)
  then have "shown (until 8) x = rendered x" by (cases x) (auto simp: shown_def)
  with Cons show ?case by simp
qed simp

lemma inline_html_shielded:
  "inline_html (ys @ Code_span t # zs) = line_of (\<lambda>x. \<not> is_span x) (ys @ [Code_span t]) @ inline_html zs"
  by (induction ys) (auto simp: shown_def)

lemma run_line_parser_cases:
  "run_line_parser None line =
    break_line_parse (italic_parse (inline_code_parse (strike_through_parse (emphasized_parse
      (strong_underscore (strong_star (link_parse (image_parse line))))))))"
  by (simp add: run_line_parser_def strong_parse_def)

lemma break_line_dots: "CR \<notin> set s \<Longrightarrow> break_line_parse s = s"
  by (rule break_line.rewrite_plain)

lemma source_line_markup: "source_line xs = concat (map markup xs)"
  by (simp add: line_of_def shown_def [abs_def])

lemma shown_next: "pass_of x \<noteq> Suc k \<Longrightarrow> shown (until (Suc k)) x = shown (until k) x"
  by (auto simp: shown_def le_Suc_eq)

lemma exposed_line:
  assumes "exposed xs"
  shows "strike_through_parse (emphasized_parse (strong_underscore (strong_star (line_of (until 2) xs)))) = line_of (until 6) xs"
    and "inline_code_parse (line_of (until 6) xs) = line_of (until 7) xs"
    and "italic_parse (line_of (until 7) xs) = line_of (until 8) xs"
proof -
  show "strike_through_parse (emphasized_parse (strong_underscore (strong_star (line_of (until 2) xs)))) = line_of (until 6) xs"
    using assms by (simp only: star_pass.pass_line underscore_pass.pass_line emphasized_pass.pass_line strike_pass.pass_line)
  have "BQUOTE \<notin> set (line_of (until 6) xs) \<and> line_of (until 7) xs = line_of (until 6) xs"
    using assms
  proof (induction xs)
    case (Cons x xs)
    then show ?case
      using other_marker(4) [OF Cons.prems, of "until 6"] shown_next [of x 6] by (cases x) (auto simp: exposed_Cons)
  qed simp
  then show "inline_code_parse (line_of (until 6) xs) = line_of (until 7) xs"
    by (simp add: inline_code.rewrite_plain)
  show "italic_parse (line_of (until 7) xs) = line_of (until 8) xs"
    using assms by (rule italic_pass.pass_line)
qed

lemma shielded_passes:
  assumes "CR \<notin> set u" "LF \<notin> set u"
  shows "strong_star (u @ BQUOTE # s) = u @ BQUOTE # strong_star s"
    and "strong_underscore (u @ BQUOTE # s) = u @ BQUOTE # strong_underscore s"
    and "emphasized_parse (u @ BQUOTE # s) = u @ BQUOTE # emphasized_parse s"
    and "strike_through_parse (u @ BQUOTE # s) = u @ BQUOTE # strike_through_parse s"
    and "italic_parse (u @ ''</code>'' @ s) = u @ ''</code>'' @ italic_parse s"
proof -
  show "strong_star (u @ BQUOTE # s) = u @ BQUOTE # strong_star s"
    by (rule span_after_code [OF _ strong_star.line_parser_axioms _ _ assms]) (auto simp: strong_star_def)
  show "strong_underscore (u @ BQUOTE # s) = u @ BQUOTE # strong_underscore s"
    by (rule span_after_code [OF _ strong_underscore.line_parser_axioms _ _ assms]) (auto simp: strong_underscore_def)
  show "emphasized_parse (u @ BQUOTE # s) = u @ BQUOTE # emphasized_parse s"
    by (rule span_after_code [OF _ emphasized.line_parser_axioms _ _ assms]) (auto simp: emphasized_parse_def)
  show "strike_through_parse (u @ BQUOTE # s) = u @ BQUOTE # strike_through_parse s"
    by (rule span_after_code [OF _ strike_through.line_parser_axioms _ _ assms]) (auto simp: strike_through_parse_def)
  show "italic_parse (u @ ''</code>'' @ s) = u @ ''</code>'' @ italic_parse s"
    by (rule span_after_code [OF _ italic.line_parser_axioms _ _ assms]) (auto simp: italic_parse_def)
qed

lemma shielded_line:
  assumes "fits (ys @ Code_span t # zs)" "\<not> list_ex is_code zs"
  shows "run_line_parser None (source_line (ys @ Code_span t # zs)) =
    line_of (\<lambda>x. \<not> is_span x) (ys @ [Code_span t]) @ line_of (until 8) zs"
proof -
  let ?f = "line_of (until 2) ys @ BQUOTE # t" and ?g = "line_of (\<lambda>x. \<not> is_span x) ys @ ''<code>'' @ t"
  have zs: "exposed zs" using assms fits_append [of "ys @ [Code_span t]" zs] by (simp add: exposed_def)
  have ok: "\<forall>x \<in> set (ys @ [Code_span t]). element_ok x"
    using fits_ok [OF assms(1)] by (metis Un_iff append_Cons append_Nil append_assoc set_append)
  have dots: "CR \<notin> set (line_of ready (ys @ [Code_span t])) \<and> LF \<notin> set (line_of ready (ys @ [Code_span t]))" for ready
    using line_dots [OF assms(1), of ready] by simp
  have f: "CR \<notin> set ?f" "LF \<notin> set ?f" using dots [of "until 2"] by (simp_all add: shown_def)
  have g: "CR \<notin> set ?g" "LF \<notin> set ?g" using dots [of "\<lambda>x. \<not> is_span x"] by (simp_all add: shown_def)
  have "line_of (until 2) (ys @ Code_span t # zs) = ?f @ BQUOTE # line_of (until 2) zs"
    by (simp add: shown_def)
  then have "strike_through_parse (emphasized_parse (strong_underscore (strong_star
      (line_of (until 2) (ys @ Code_span t # zs))))) = ?f @ BQUOTE # line_of (until 6) zs"
    using exposed_line(1) [OF zs] by (simp only: shielded_passes [OF f])
  also have "\<dots> = line_of (until 2) (ys @ [Code_span t]) @ line_of (until 6) zs" by (simp add: shown_def)
  finally have "inline_code_parse (strike_through_parse (emphasized_parse (strong_underscore (strong_star
      (line_of (until 2) (ys @ Code_span t # zs)))))) = ?g @ ''</code>'' @ line_of (until 7) zs"
    using exposed_line(2) [OF zs] by (simp only: code_line [OF ok]) (simp add: shown_def)
  then have "run_line_parser None (source_line (ys @ Code_span t # zs)) =
      break_line_parse (?g @ ''</code>'' @ line_of (until 8) zs)"
    using exposed_line(3) [OF zs]
    by (simp only: run_line_parser_cases images_and_links [OF assms(1)] shielded_passes(5) [OF g])
  moreover have "CR \<notin> set (?g @ ''</code>'' @ line_of (until 8) zs)"
    using g(1) line_dots [of zs "until 8"] zs by (simp add: exposed_def)
  ultimately show ?thesis by (simp add: break_line_dots shown_def)
qed

text \<open>
  The parsers work on text, not on elements, so the HTML written by one is rewritten by the next: two
  underscores in the target of a link become an \<open>em\<close> element inside the \<open>href\<close> attribute, and the
  link leads somewhere else.
\<close>

theorem emphasis_in_link_target:
  assumes "text_ok t" "text_ok a" "text_ok b" "text_ok c" "b \<noteq> []" "CHR ''!'' \<notin> set (t @ a @ b @ c)"
  shows "run_line_parser None (markup (Anchor t (a @ ''_'' @ b @ ''_'' @ c))) =
    rendered (Anchor t (a @ rendered (Emph b) @ c))"
proof -
  let ?u = "''<a href='' @ [DQUOTE] @ a" and ?s = "c @ [DQUOTE] @ ''>'' @ t @ ''</a>''"
  note ok = text_ok_simps [OF assms(1)] text_ok_simps [OF assms(2)] text_ok_simps [OF assms(3)] text_ok_simps [OF assms(4)]
  let ?line = "markup (Anchor t (a @ ''_'' @ b @ ''_'' @ c))"
  have "image_parse ?line = ?line" using assms(6) by (simp add: image.rewrite_plain)
  moreover have "link_parse ?line = ?u @ CHR ''_'' # b @ CHR ''_'' # ?s"
    using link_replace(1) [of t "a @ ''_'' @ b @ ''_'' @ c" "[]"] ok by (simp add: link.rewrite_nil)
  moreover have "strong_star (?u @ CHR ''_'' # b @ CHR ''_'' # ?s) = ?u @ CHR ''_'' # b @ CHR ''_'' # ?s"
    using ok by (simp add: strong_star.rewrite_plain)
  moreover have "strong_underscore (?u @ CHR ''_'' # b @ CHR ''_'' # ?s) = ?u @ CHR ''_'' # b @ CHR ''_'' # ?s"
  proof -
    have "\<not> starts_with ''_'' ?s" using ok by (cases c) auto
    from single_marked [OF strong_underscore.line_parser_axioms [unfolded strong_underscore_def] assms(5) ok(25) this]
    have "strong_underscore (CHR ''_'' # b @ CHR ''_'' # ?s) = CHR ''_'' # b @ CHR ''_'' # strong_underscore ?s"
      unfolding strong_underscore_def by simp
    moreover have "CHR ''_'' \<notin> set ?u" "strong_underscore ?s = ?s"
      using ok by (simp_all add: strong_underscore.rewrite_plain)
    ultimately show ?thesis by (simp only: strong_underscore.rewrite_prefix simp_thms)
  qed
  moreover have "emphasized_parse (?u @ CHR ''_'' # b @ CHR ''_'' # ?s) = ?u @ ''<em>'' @ b @ ''</em>'' @ ?s"
  proof -
    have "codeless ?s" using assms(1,4) by (simp add: codeless_text)
    then have "emphasized_parse (CHR ''_'' # b @ CHR ''_'' # ?s) = ''<em>'' @ b @ ''</em>'' @ emphasized_parse ?s"
      using span_pass [of "''_''" "CHR ''_''" "[]" b ?s] assms(3) ok(25) by (simp add: emphasized_parse_def format_def)
    moreover have "CHR ''_'' \<notin> set ?u" "emphasized_parse ?s = ?s"
      using ok by (simp_all add: emphasized.rewrite_plain)
    ultimately show ?thesis by (simp only: emphasized.rewrite_prefix simp_thms)
  qed
  moreover have "italic_parse (inline_code_parse (strike_through_parse (?u @ ''<em>'' @ b @ ''</em>'' @ ?s))) =
      ?u @ ''<em>'' @ b @ ''</em>'' @ ?s" "break_line_parse (?u @ ''<em>'' @ b @ ''</em>'' @ ?s) = ?u @ ''<em>'' @ b @ ''</em>'' @ ?s"
    using ok by (simp_all add: strike_through.rewrite_plain inline_code.rewrite_plain italic.rewrite_plain break_line.rewrite_plain)
  ultimately have "run_line_parser None ?line = ?u @ ''<em>'' @ b @ ''</em>'' @ ?s"
    by (simp only: run_line_parser_cases)
  then show ?thesis by simp
qed

theorem emphasis_in_link_target_witness:
  "run_line_parser None ''[x](/my_site_map)'' = ''<a href='' @ [DQUOTE] @ ''/my<em>site</em>map'' @ [DQUOTE] @ ''>x</a>''"
  using emphasis_in_link_target [of "''x''" "''/my''" "''site''" "''map''"] by (simp add: text_ok_def)

lemma inline_markup_run:
  assumes "fits xs"
  shows "run_line_parser None (source_line xs) = inline_html xs"
proof (cases "list_ex is_code xs")
  case False
  have exposed: "exposed xs" using assms False by (simp add: exposed_def)
  have "run_line_parser None (source_line xs) = break_line_parse (line_of (until 8) xs)"
    by (simp only: run_line_parser_cases images_and_links [OF assms] exposed_line [OF exposed])
  then show ?thesis
    using line_dots [OF assms] False by (simp add: break_line_dots inline_html_exposed)
next
  case True
  then obtain ys t zs where "xs = ys @ Code_span t # zs" "\<not> list_ex is_code zs" by (rule last_code)
  with assms show ?thesis
    by (metis shielded_line inline_html_shielded inline_html_exposed)
qed

section \<open>Properties\<close>

text \<open>
  C36. Inline markup: on a line made of plain text, images, links, inline code and marked spans that
  meets \<open>fits\<close>, the eight rewritings of \<open>runLineParser\<close> one after the other do what one would expect of a
  single pass: every image, link and inline code becomes its own HTML, every marked span becomes its
  element unless inline code follows it anywhere on the line, in which case it is left as it was written,
  and nothing else changes; what stands inside inline code is not rewritten. \<open>fits\<close> asks that texts and
  targets hold none of the characters \<open>[\<close>, \<open>]\<close>, \<open>)\<close>, \<open>*\<close>, \<open>_\<close>, \<open>~\<close>, \<open><\<close>, backquote, CR and LF (inline
  code may hold \<open>*\<close>, \<open>_\<close>, \<open>~\<close> and \<open><\<close>), that no text that ends in \<open>!\<close> meets a \<open>[\<close>, and that a span
  marked with one character is not empty and does not meet that character. Without this it is false:
  markers in the target of a link are rewritten like any others.
\<close>

theorem inline_markup_line:
  assumes "fits xs"
  shows "run_line_parser None (concat (map markup xs)) = inline_html xs"
  using inline_markup_run [OF assms] by (simp only: source_line_markup)

theorem inline_markup_line_witness:
  "run_line_parser None (''see **x** [it](/a), '' @ BQUOTE # ''p_q_*r*'' @ [BQUOTE] @ '' but _not_ ~~that~~ *one*!'') =
    ''see **x** <a href='' @ [DQUOTE] @ ''/a'' @ [DQUOTE] @ ''>it</a>, <code>p_q_*r*</code> but <em>not</em> <s>that</s> <i>one</i>!''"
  using inline_markup_line [of "[Plain ''see '', Stars ''x'', Plain '' '', Anchor ''it'' ''/a'', Plain '', '',
      Code_span ''p_q_*r*'', Plain '' but '', Emph ''not'', Plain '' '', Strike ''that'', Plain '' '', Italic ''one'',
      Plain ''!'']"]
  by (simp add: text_ok_def code_ok_def shown_def)

end
