(* ===== verification/Markdown.thy ===== *)
theory Markdown
  imports Line_Parsers
begin

text \<open>
  The block parsers and the driver of \<open>src/include/maddy\<close>: the class hierarchy under
  \<open>BlockParser\<close> as a datatype, \<open>AddLine\<close>, \<open>getBlockParserForLine\<close> and \<open>Parser::Parse\<close>.
\<close>

section \<open>The block parsers\<close>

text \<open>
  The fields of the derived classes: \<open>isStarted\<close>, \<open>isFinished\<close>, for HTML \<open>isGreaterThanFound\<close>, for a
  table \<open>currentBlock\<close>, \<open>currentRow\<close> and the cells by block, row and column. A \<open>BlockParser\<close> adds the
  text produced so far and the child parser.
\<close>

datatype block_data =
    Checklist bool bool
  | CodeBlock bool bool
  | Headline
  | HorizontalLine
  | Html bool bool bool
  | OrderedList bool bool
  | Paragraph bool bool
  | Quote bool bool
  | TableBlock bool bool nat nat "string list list list"
  | UnorderedList bool bool

datatype block_parser = Block (data: block_data) (result: string) (child: "block_parser option")

definition new_block :: "block_data \<Rightarrow> block_parser" where
  "new_block d = Block d [] None"

text \<open>The constructors of the derived classes.\<close>

definition new_checklist_parser :: block_parser where
  "new_checklist_parser = new_block (Checklist False False)"

definition new_code_block_parser :: block_parser where
  "new_code_block_parser = new_block (CodeBlock False False)"

definition new_headline_parser :: block_parser where
  "new_headline_parser = new_block Headline"

definition new_horizontal_line_parser :: block_parser where
  "new_horizontal_line_parser = new_block HorizontalLine"

definition new_html_parser :: block_parser where
  "new_html_parser = new_block (Html False False False)"

definition new_ordered_list_parser :: block_parser where
  "new_ordered_list_parser = new_block (OrderedList False False)"

definition new_paragraph_parser :: block_parser where
  "new_paragraph_parser = new_block (Paragraph False False)"

definition new_quote_parser :: block_parser where
  "new_quote_parser = new_block (Quote False False)"

definition new_table_parser :: block_parser where
  "new_table_parser = new_block (TableBlock False False 0 0 [])"

definition new_unordered_list_parser :: block_parser where
  "new_unordered_list_parser = new_block (UnorderedList False False)"

lemmas new_parsers =
  new_checklist_parser_def new_code_block_parser_def new_headline_parser_def
  new_horizontal_line_parser_def new_html_parser_def new_ordered_list_parser_def
  new_paragraph_parser_def new_quote_parser_def new_table_parser_def
  new_unordered_list_parser_def

declare new_parsers [simp]

text \<open>\<open>getIndentationWidth\<close>, a \<open>uint32_t\<close>.\<close>

definition indentation_width :: "string \<Rightarrow> nat" where
  "indentation_width line = length (takeWhile isspace line) mod 2 ^ 32"

section \<open>IsStartingLine\<close>

definition checklist_starts :: "string \<Rightarrow> bool" where
  "checklist_starts line =
     regex_match (Seq Bol (Seq (lits ''- ['') (Seq (Ch (In ''x| '')) (Seq (lits ''] '') (Many Dot))))) line"

definition code_block_starts :: "string \<Rightarrow> bool" where
  "code_block_starts line = regex_match (Seq Bol (Seq (Times 3 3 (One BQUOTE)) Eol)) line"

definition headline_starts :: "string \<Rightarrow> bool" where
  "headline_starts line =
     regex_match (Seq Bol (Seq (Times 1 6 (One (CHR ''#''))) (Seq (lits '' '') (Group 1 (Many Dot))))) line"

definition horizontal_line_pattern :: regex where
  "horizontal_line_pattern = Seq Bol (Seq (lits ''---'') Eol)"

definition horizontal_line_starts :: "string \<Rightarrow> bool" where
  "horizontal_line_starts line = regex_match horizontal_line_pattern line"

text \<open>\<open>line[0]\<close> of an empty string is the terminating NUL.\<close>

definition html_starts :: "string \<Rightarrow> bool" where
  "html_starts line \<longleftrightarrow> (case line of [] \<Rightarrow> False | c # cs \<Rightarrow> c = CHR ''<'')"

definition ordered_list_starts :: "string \<Rightarrow> bool" where
  "ordered_list_starts line = regex_match (Seq Bol (Seq (lits ''1. '') (Many Dot))) line"

definition paragraph_starts :: "string \<Rightarrow> bool" where
  "paragraph_starts line \<longleftrightarrow> line \<noteq> []"

definition quote_starts :: "string \<Rightarrow> bool" where
  "quote_starts line = regex_match (Seq Bol (Seq (lits ''>'') (Many Dot))) line"

definition table_starts :: "string \<Rightarrow> bool" where
  "table_starts line \<longleftrightarrow> line = ''|table>''"

definition unordered_list_starts :: "string \<Rightarrow> bool" where
  "unordered_list_starts line = regex_match (Seq Bol (Seq (Ch (In ''+*-'')) (Seq (lits '' '') (Many Dot)))) line"

section \<open>parseBlock\<close>

text \<open>
  Each returns the parser's fields afterwards and the line as it was rewritten. Only the lists can
  throw, in \<open>line.substr(2)\<close>.
\<close>

type_synonym block_step = "cpp_fault + (block_data \<times> string)"

definition has_str :: "string \<Rightarrow> string \<Rightarrow> bool" where
  "has_str line pat \<longleftrightarrow> find_str line pat \<noteq> None"

definition checklist_block :: "bool \<Rightarrow> bool \<Rightarrow> string \<Rightarrow> block_step" where
  "checklist_block started finished line =
     (let start_of_item = checklist_starts line;
          indentation = indentation_width line;
          l1 = regex_replace line (Seq Bol (Group 1 (lits ''- ''))) [];
          l2 = regex_replace l1 (Seq Bol (lits ''[ ]''))
                 [Text (''<input type='' @ [DQUOTE] @ ''checkbox'' @ [DQUOTE] @ ''/>'')];
          l3 = regex_replace l2 (Seq Bol (lits ''[x]''))
                 [Text (''<input type='' @ [DQUOTE] @ ''checkbox'' @ [DQUOTE] @ '' checked='' @ [DQUOTE]
                    @ ''checked'' @ [DQUOTE] @ ''/>'')]
      in if \<not> started then
           Inr (Checklist True finished, ''<ul class='' @ [DQUOTE] @ ''checklist'' @ [DQUOTE] @ ''><li><label>'' @ l3)
         else if 2 \<le> indentation then
           rbind (substr l3 2 npos) (\<lambda>l. Inr (Checklist started finished, l))
         else if l3 = [] \<or> has_str l3 ''</label></li><li><label>'' \<or> has_str l3 ''</label></li></ul>'' then
           Inr (Checklist started True, ''</label></li></ul>'' @ l3)
         else if start_of_item then Inr (Checklist started finished, ''</label></li><li><label>'' @ l3)
         else Inr (Checklist started finished, l3))"

definition code_block_block :: "bool \<Rightarrow> bool \<Rightarrow> string \<Rightarrow> block_step" where
  "code_block_block started finished line =
     (if line = [BQUOTE, BQUOTE, BQUOTE] then
        (if \<not> started then Inr (CodeBlock True False, ''<pre><code>'' @ [LF])
         else Inr (CodeBlock False True, ''</code></pre>''))
      else Inr (CodeBlock started finished, line @ [LF]))"

definition headline_patterns :: "regex list" where
  "headline_patterns =
     Seq Bol (Seq (lits ''# '') (Group 1 (Many Dot)))
     # map (\<lambda>n. Seq Bol (Seq (Times n n (One (CHR ''#''))) (Seq (lits '' '') (Group 1 (Many Dot)))))
         [2, 3, 4, 5, 6]"

definition headline_formats :: "format_part list list" where
  "headline_formats =
     map (\<lambda>d. [Text (''<h'' @ [d] @ ''>''), Sub 1, Text (''</h'' @ [d] @ ''>'')]) ''123456''"

definition headline_block :: "string \<Rightarrow> block_step" where
  "headline_block line =
     Inr (Headline, foldl (\<lambda>l (re, fmt). regex_replace l re fmt) line (zip headline_patterns headline_formats))"

definition horizontal_line_block :: "string \<Rightarrow> block_step" where
  "horizontal_line_block line =
     Inr (HorizontalLine, regex_replace line horizontal_line_pattern [Text ''<hr/>''])"

definition html_block :: "bool \<Rightarrow> bool \<Rightarrow> bool \<Rightarrow> string \<Rightarrow> block_step" where
  "html_block started finished gt line =
     (if line \<noteq> [] \<and> last line = CHR ''>'' then Inr (Html True finished True, line)
      else if line = [] \<and> gt then Inr (Html True True gt, line)
      else Inr (Html True finished (if line \<noteq> [] \<and> gt then False else gt),
                if line \<noteq> [] then line @ '' '' else line))"

text \<open>\<open>OrderedListParser\<close> and \<open>UnorderedListParser\<close> share the closing tests.\<close>

definition closes_list :: "string \<Rightarrow> bool" where
  "closes_list line \<longleftrightarrow>
     line = [] \<or> has_str line ''</li><li>'' \<or> has_str line ''</li></ol>'' \<or> has_str line ''</li></ul>''"

definition ordered_item_starts :: "string \<Rightarrow> bool" where
  "ordered_item_starts line =
     regex_match (Seq Bol (Seq (Alt (lits ''1. '') (lits ''* '')) (Many Dot))) line"

definition ordered_list_block :: "bool \<Rightarrow> bool \<Rightarrow> string \<Rightarrow> block_step" where
  "ordered_list_block started finished line =
     (let start_of_item = ordered_item_starts line;
          indentation = indentation_width line;
          l1 = regex_replace line (Seq Bol (lits ''1. '')) [];
          l2 = regex_replace l1 (Seq Bol (Group 1 (lits ''* ''))) []
      in if \<not> started then Inr (OrderedList True finished, ''<ol><li>'' @ l2)
         else if 2 \<le> indentation then rbind (substr l2 2 npos) (\<lambda>l. Inr (OrderedList started finished, l))
         else if closes_list l2 then Inr (OrderedList started True, ''</li></ol>'' @ l2)
         else if start_of_item then Inr (OrderedList started finished, ''</li><li>'' @ l2)
         else Inr (OrderedList started finished, l2))"

definition unordered_list_block :: "bool \<Rightarrow> bool \<Rightarrow> string \<Rightarrow> block_step" where
  "unordered_list_block started finished line =
     (let start_of_item = unordered_list_starts line;
          indentation = indentation_width line;
          l1 = regex_replace line (Seq Bol (Group 1 (Seq (Ch (In ''+*-'')) (lits '' '')))) []
      in if \<not> started then Inr (UnorderedList True finished, ''<ul><li>'' @ l1)
         else if 2 \<le> indentation then rbind (substr l1 2 npos) (\<lambda>l. Inr (UnorderedList started finished, l))
         else if closes_list l1 then Inr (UnorderedList started True, ''</li></ul>'' @ l1)
         else if start_of_item then Inr (UnorderedList started finished, ''</li><li>'' @ l1)
         else Inr (UnorderedList started finished, l1))"

definition paragraph_block :: "bool \<Rightarrow> bool \<Rightarrow> string \<Rightarrow> block_step" where
  "paragraph_block started finished line =
     (if \<not> started then Inr (Paragraph True finished, ''<p>'' @ line @ '' '')
      else if line = [] then Inr (Paragraph started True, line @ ''</p>'')
      else Inr (Paragraph started finished, line @ '' ''))"

definition quote_block :: "bool \<Rightarrow> bool \<Rightarrow> string \<Rightarrow> block_step" where
  "quote_block started finished line =
     (let l1 = regex_replace line (Seq Bol (lits ''> '')) [];
          l2 = regex_replace l1 (Seq Bol (lits ''>'')) []
      in Inr (Quote started finished, if l2 \<noteq> [] then l2 @ '' '' else l2))"

text \<open>
  \<open>TableParser::parseBlock\<close> does not look at the line: it writes the collected cells (\<open>table_html\<close>)
  and is only called by the table's own \<open>AddLine\<close>.
\<close>

definition table_row_html :: "bool \<Rightarrow> string list \<Rightarrow> string" where
  "table_row_html in_header row =
     ''<tr>'' @ concat (map (\<lambda>column. (if in_header then ''<th>'' else ''<td>'') @ column
                          @ (if in_header then ''</th>'' else ''</td>'')) row) @ ''</tr>''"

definition table_block_html :: "nat \<Rightarrow> nat \<Rightarrow> string list list \<Rightarrow> string" where
  "table_block_html blocks_total number rows =
     (let in_header = (1 < blocks_total \<and> number = 1);
          in_footer = (\<not> in_header \<and> 3 \<le> blocks_total \<and> number = blocks_total);
          tag = (if in_header then ''thead>'' else if in_footer then ''tfoot>'' else ''tbody>'')
      in CHR ''<'' # tag @ concat (map (table_row_html in_header) rows) @ ''</'' @ tag)"

fun table_blocks_html :: "nat \<Rightarrow> nat \<Rightarrow> string list list list \<Rightarrow> string" where
  "table_blocks_html blocks_total number [] = []"
| "table_blocks_html blocks_total number (rows # blocks) =
     table_block_html blocks_total number rows @ table_blocks_html blocks_total (Suc number) blocks"

definition table_html :: "string list list list \<Rightarrow> string" where
  "table_html table = ''<table>'' @ table_blocks_html (length table) 1 table @ ''</table>''"

section \<open>The virtual methods\<close>

text \<open>
  What a derived class overrides, for an object with the given fields: \<open>IsFinished\<close>,
  \<open>isInlineBlockAllowed\<close>, \<open>isLineParserAllowed\<close> and \<open>parseBlock\<close>, which for a table is not reached from
  \<open>BlockParser::AddLine\<close> (its work is \<open>table_html\<close>).
\<close>

record block_methods =
  finished_now :: bool
  inline_blocks :: bool
  line_parsers :: bool
  block_step_of :: "string \<Rightarrow> block_step"

definition checklist_methods :: "bool \<Rightarrow> bool \<Rightarrow> block_methods" where
  "checklist_methods started finished =
     \<lparr>finished_now = finished, inline_blocks = True, line_parsers = True, block_step_of = checklist_block started finished\<rparr>"

definition code_block_methods :: "bool \<Rightarrow> bool \<Rightarrow> block_methods" where
  "code_block_methods started finished =
     \<lparr>finished_now = finished, inline_blocks = False, line_parsers = False, block_step_of = code_block_block started finished\<rparr>"

definition headline_methods :: block_methods where
  "headline_methods =
     \<lparr>finished_now = True, inline_blocks = False, line_parsers = False, block_step_of = headline_block\<rparr>"

definition horizontal_line_methods :: block_methods where
  "horizontal_line_methods =
     \<lparr>finished_now = True, inline_blocks = False, line_parsers = False, block_step_of = horizontal_line_block\<rparr>"

definition html_methods :: "bool \<Rightarrow> bool \<Rightarrow> bool \<Rightarrow> block_methods" where
  "html_methods started finished gt =
     \<lparr>finished_now = finished, inline_blocks = False, line_parsers = False, block_step_of = html_block started finished gt\<rparr>"

definition ordered_list_methods :: "bool \<Rightarrow> bool \<Rightarrow> block_methods" where
  "ordered_list_methods started finished =
     \<lparr>finished_now = finished, inline_blocks = True, line_parsers = True, block_step_of = ordered_list_block started finished\<rparr>"

definition paragraph_methods :: "bool \<Rightarrow> bool \<Rightarrow> block_methods" where
  "paragraph_methods started finished =
     \<lparr>finished_now = finished, inline_blocks = False, line_parsers = True, block_step_of = paragraph_block started finished\<rparr>"

definition quote_methods :: "bool \<Rightarrow> bool \<Rightarrow> block_methods" where
  "quote_methods started finished =
     \<lparr>finished_now = finished, inline_blocks = True, line_parsers = True, block_step_of = quote_block started finished\<rparr>"

definition table_methods :: "bool \<Rightarrow> bool \<Rightarrow> nat \<Rightarrow> nat \<Rightarrow> string list list list \<Rightarrow> block_methods" where
  "table_methods started finished cb cr table =
     \<lparr>finished_now = finished, inline_blocks = False, line_parsers = True,
      block_step_of = (\<lambda>line. Inr (TableBlock started finished cb cr table, line))\<rparr>"

definition unordered_list_methods :: "bool \<Rightarrow> bool \<Rightarrow> block_methods" where
  "unordered_list_methods started finished =
     \<lparr>finished_now = finished, inline_blocks = True, line_parsers = True, block_step_of = unordered_list_block started finished\<rparr>"

fun methods :: "block_data \<Rightarrow> block_methods" where
  "methods (Checklist s f) = checklist_methods s f"
| "methods (CodeBlock s f) = code_block_methods s f"
| "methods Headline = headline_methods"
| "methods HorizontalLine = horizontal_line_methods"
| "methods (Html s f g) = html_methods s f g"
| "methods (OrderedList s f) = ordered_list_methods s f"
| "methods (Paragraph s f) = paragraph_methods s f"
| "methods (Quote s f) = quote_methods s f"
| "methods (TableBlock s f cb cr t) = table_methods s f cb cr t"
| "methods (UnorderedList s f) = unordered_list_methods s f"

definition data_finished :: "block_data \<Rightarrow> bool" where
  "data_finished d = finished_now (methods d)"

definition is_finished :: "block_parser \<Rightarrow> bool" where
  "is_finished b = data_finished (data b)"

definition is_inline_block_allowed :: "block_data \<Rightarrow> bool" where
  "is_inline_block_allowed d = inline_blocks (methods d)"

definition is_line_parser_allowed :: "block_data \<Rightarrow> bool" where
  "is_line_parser_allowed d = line_parsers (methods d)"

definition parse_block :: "block_data \<Rightarrow> string \<Rightarrow> block_step" where
  "parse_block d line = block_step_of (methods d) line"

lemmas method_defs =
  checklist_methods_def code_block_methods_def headline_methods_def
  horizontal_line_methods_def html_methods_def ordered_list_methods_def
  paragraph_methods_def quote_methods_def table_methods_def
  unordered_list_methods_def

lemma data_finished_cases [simp]:
  "data_finished (Checklist s f) \<longleftrightarrow> f"
  "data_finished (CodeBlock s f) \<longleftrightarrow> f"
  "data_finished Headline"
  "data_finished HorizontalLine"
  "data_finished (Html s f g) \<longleftrightarrow> f"
  "data_finished (OrderedList s f) \<longleftrightarrow> f"
  "data_finished (Paragraph s f) \<longleftrightarrow> f"
  "data_finished (Quote s f) \<longleftrightarrow> f"
  "data_finished (TableBlock s f cb cr t) \<longleftrightarrow> f"
  "data_finished (UnorderedList s f) \<longleftrightarrow> f"
  by (simp_all add: data_finished_def method_defs)

lemma is_inline_block_allowed_cases [simp]:
  "is_inline_block_allowed (Checklist s f)"
  "\<not> is_inline_block_allowed (CodeBlock s f)"
  "\<not> is_inline_block_allowed Headline"
  "\<not> is_inline_block_allowed HorizontalLine"
  "\<not> is_inline_block_allowed (Html s f g)"
  "is_inline_block_allowed (OrderedList s f)"
  "\<not> is_inline_block_allowed (Paragraph s f)"
  "is_inline_block_allowed (Quote s f)"
  "\<not> is_inline_block_allowed (TableBlock s f cb cr t)"
  "is_inline_block_allowed (UnorderedList s f)"
  by (simp_all add: is_inline_block_allowed_def method_defs)

lemma is_line_parser_allowed_cases [simp]:
  "is_line_parser_allowed (Checklist s f)"
  "\<not> is_line_parser_allowed (CodeBlock s f)"
  "\<not> is_line_parser_allowed Headline"
  "\<not> is_line_parser_allowed HorizontalLine"
  "\<not> is_line_parser_allowed (Html s f g)"
  "is_line_parser_allowed (OrderedList s f)"
  "is_line_parser_allowed (Paragraph s f)"
  "is_line_parser_allowed (Quote s f)"
  "is_line_parser_allowed (TableBlock s f cb cr t)"
  "is_line_parser_allowed (UnorderedList s f)"
  by (simp_all add: is_line_parser_allowed_def method_defs)

lemma parse_block_cases [simp]:
  "parse_block (Checklist s f) line = checklist_block s f line"
  "parse_block (CodeBlock s f) line = code_block_block s f line"
  "parse_block Headline line = headline_block line"
  "parse_block HorizontalLine line = horizontal_line_block line"
  "parse_block (Html s f g) line = html_block s f g line"
  "parse_block (OrderedList s f) line = ordered_list_block s f line"
  "parse_block (Paragraph s f) line = paragraph_block s f line"
  "parse_block (Quote s f) line = quote_block s f line"
  "parse_block (TableBlock s f cb cr t) line = Inr (TableBlock s f cb cr t, line)"
  "parse_block (UnorderedList s f) line = unordered_list_block s f line"
  by (simp_all add: parse_block_def method_defs)

section \<open>getBlockParserForLine\<close>

text \<open>
  Which parser a line opens: the one at the top level and inside a quote, and the ones that a list
  allows inside itself (the \<open>getBlockParserForLineCallback\<close> of each).
\<close>

definition get_block_parser_for_line :: "parser_config option \<Rightarrow> string \<Rightarrow> block_parser option" where
  "get_block_parser_for_line config line =
     (if code_block_starts line then Some new_code_block_parser
      else if headline_starts line then Some new_headline_parser
      else if horizontal_line_starts line then Some new_horizontal_line_parser
      else if quote_starts line then Some new_quote_parser
      else if table_starts line then Some new_table_parser
      else if checklist_starts line then Some new_checklist_parser
      else if ordered_list_starts line then Some new_ordered_list_parser
      else if unordered_list_starts line then Some new_unordered_list_parser
      else if (case config of None \<Rightarrow> False | Some c \<Rightarrow> \<not> html_wrapped c \<and> html_starts line)
      then Some new_html_parser
      else if paragraph_starts line then Some new_paragraph_parser
      else None)"

definition checklist_child :: "string \<Rightarrow> block_parser option" where
  "checklist_child line = (if checklist_starts line then Some new_checklist_parser else None)"

definition list_child :: "string \<Rightarrow> block_parser option" where
  "list_child line =
     (if ordered_list_starts line then Some new_ordered_list_parser
      else if unordered_list_starts line then Some new_unordered_list_parser
      else None)"

fun child_for_line :: "parser_config option \<Rightarrow> block_data \<Rightarrow> string \<Rightarrow> block_parser option" where
  "child_for_line config (Checklist s f) line = checklist_child line"
| "child_for_line config (OrderedList s f) line = list_child line"
| "child_for_line config (UnorderedList s f) line = list_child line"
| "child_for_line config (Quote s f) line = get_block_parser_for_line config line"
| "child_for_line config d line = None"

section \<open>AddLine\<close>

text \<open>
  \<open>std::getline\<close> until the stream is exhausted: the pieces between the delimiters, without an empty
  last one.
\<close>

fun getlines :: "char \<Rightarrow> string \<Rightarrow> string list" where
  "getlines d [] = []"
| "getlines d (c # cs) =
     (if c = d then [] # getlines d cs
      else case getlines d cs of [] \<Rightarrow> [[c]] | l # ls \<Rightarrow> (c # l) # ls)"

text \<open>
  The table's own \<open>AddLine\<close>. The counters are \<open>uint32_t\<close>; \<open>table[currentBlock]\<close> is not checked, so
  a block number past the end of the vector is undefined behaviour.
\<close>

definition inc32 :: "nat \<Rightarrow> nat" where
  "inc32 n = (n + 1) mod 2 ^ 32"

definition table_add_row ::
  "parser_config option \<Rightarrow> nat \<Rightarrow> nat \<Rightarrow> string list list list \<Rightarrow> string \<Rightarrow> cpp_fault + string list list list" where
  "table_add_row config cb cr table line =
     (let grown = (if length table < inc32 cb then table @ [[]] else table);
          segments = map (run_line_parser config) (getlines (CHR ''|'') line)
      in if length grown \<le> cb then Inl BufferOverflow
         else let rows = (grown ! cb) @ [[]]
              in if segments \<noteq> [] \<and> length rows \<le> cr then Inl BufferOverflow
                 else Inr (grown[cb := rows[cr := (rows ! cr) @ segments]]))"

definition table_add_line ::
  "parser_config option \<Rightarrow> bool \<Rightarrow> bool \<Rightarrow> nat \<Rightarrow> nat \<Rightarrow> string list list list \<Rightarrow> string \<Rightarrow> string
     \<Rightarrow> cpp_fault + block_parser" where
  "table_add_line config started finished cb cr table res line =
     (if \<not> started \<and> line = ''|table>'' then Inr (Block (TableBlock True finished cb cr table) res None)
      else if started then
        (if line = ''- | - | -'' then
           Inr (Block (TableBlock started finished (inc32 cb) 0 table) res None)
         else if line = ''|<table'' then
           Inr (Block (TableBlock started True cb cr table) (res @ table_html table) None)
         else rbind (table_add_row config cb cr table line) (\<lambda>table'.
                Inr (Block (TableBlock started finished cb (inc32 cr) table') res None)))
      else Inr (Block (TableBlock started finished cb cr table) res None))"

text \<open>
  \<open>BlockParser::AddLine\<close>, and \<open>QuoteParser\<close>'s own version of it: \<open>parseBlock\<close> block_step_of the line, an
  open child (or one that the rewritten line opens) takes the line and, once finished, hands its
  text over; otherwise the line parsers run and the line is written.
\<close>

definition open_child :: "parser_config option \<Rightarrow> block_data \<Rightarrow> block_parser option \<Rightarrow> string \<Rightarrow> block_parser option" where
  "open_child config d ch line =
     (case ch of
        Some b \<Rightarrow> Some b
      | None \<Rightarrow> if is_inline_block_allowed d then child_for_line config d line else None)"

definition absorb :: "block_data \<Rightarrow> string \<Rightarrow> block_parser \<Rightarrow> block_parser" where
  "absorb d res b =
     (if is_finished b then Block d (res @ result b) None else Block d res (Some b))"

definition parse_line :: "parser_config option \<Rightarrow> block_data \<Rightarrow> string \<Rightarrow> string" where
  "parse_line config d line = (if is_line_parser_allowed d then run_line_parser config line else line)"

definition quote_start :: "bool \<Rightarrow> string \<Rightarrow> string" where
  "quote_start started res = (if started then res else res @ ''<blockquote>'')"

definition quote_write :: "bool \<Rightarrow> bool \<Rightarrow> string \<Rightarrow> string \<Rightarrow> block_parser" where
  "quote_write finish finished res line =
     (if finish then Block (Quote True True) (res @ ''</blockquote>'' @ line) None
      else Block (Quote True finished) (res @ line) None)"

declare quote_start_def [simp] quote_write_def [simp]

subsection \<open>Facts about the anchored patterns\<close>

abbreviation dots :: "string \<Rightarrow> bool" where
  "dots s \<equiv> list_all (\<lambda>c. in_class c Dot) s"

lemma regex_match_Bol: "regex_match (Seq Bol q) s \<longleftrightarrow> list_ex (\<lambda>(u, v, g). v = []) (matches q True s [])"
  by (simp add: regex_match_def list_ex_iff split_beta)

lemma many_all: "(\<exists>x \<in> set (many k s). snd x = []) \<longleftrightarrow> list_all (\<lambda>c. in_class c k) s"
proof -
  have "(\<exists>x \<in> set (many k s). snd x = []) \<longleftrightarrow> (\<exists>u. (u, []) \<in> set (many k s))" by force
  then show ?thesis by (simp add: many_split list_all_iff)
qed

declare lits.simps [simp del] matches.simps(4) [simp del]

lemma lits_dots_matched:
  "list_ex (\<lambda>(u, v, g). v = []) (matches (Seq (lits t) (Many Dot)) b s h)
    \<longleftrightarrow> starts_with t s \<and> dots (drop (length t) s)"
  unfolding matches_lits_seq many_all [symmetric] by (simp add: list_ex_iff split_beta)

lemma regex_match_lits_dots:
  "regex_match (Seq Bol (Seq (lits t) (Many Dot))) s \<longleftrightarrow> starts_with t s \<and> dots (drop (length t) s)"
  unfolding regex_match_Bol by (rule lits_dots_matched)

lemma replace_Bol_later: "replace_from (Seq Bol q) fmt False s = s"
  by (induction s) (auto simp: matches.simps(4))

lemma replace_Bol:
  assumes "0 < min_length q"
  shows "regex_replace s (Seq Bol q) fmt =
    (case matches q True s [] of
       (u, v, g) # _ \<Rightarrow> format fmt g @ v
     | [] \<Rightarrow> s)"
proof (cases s)
  case Nil
  have "matches q True [] [] = []"
  proof (cases "matches q True [] []")
    case (Cons m ms)
    obtain u v g where "m = (u, v, g)" by (cases m) auto
    with Cons have "[] = u @ v" "min_length q \<le> length u"
      using matches_split [of u v g q True "[]" "[]"] matches_min_length [of u v g q True "[]" "[]"] by auto
    with assms show ?thesis by simp
  qed
  with Nil show ?thesis by (simp add: regex_replace_def)
next
  case (Cons c cs)
  have m: "matches (Seq Bol q) True s [] = matches q True s []" by (simp add: matches.simps(4) split_def)
  have "0 < min_length (Seq Bol q)" using assms by simp
  from replace_from_step [OF this, of fmt True c cs] show ?thesis
    unfolding regex_replace_def Cons
    by (simp add: m [unfolded Cons] replace_Bol_later del: replace_from.simps matches.simps split: list.splits)
qed

lemma replace_Bol_lits:
  "t \<noteq> [] \<Longrightarrow> regex_replace s (Seq Bol (lits t)) fmt =
    (if starts_with t s then format fmt [] @ drop (length t) s else s)"
  by (simp add: replace_Bol matches_lits)

lemma replace_Bol_group_lits:
  "t \<noteq> [] \<Longrightarrow> regex_replace s (Seq Bol (Group 1 (lits t))) fmt =
    (if starts_with t s then format fmt [(1, t)] @ drop (length t) s else s)"
  by (simp add: replace_Bol matches_lits)

lemma quote_starts_iff: "quote_starts s \<longleftrightarrow> starts_with ''>'' s \<and> dots (drop 1 s)"
  unfolding quote_starts_def regex_match_lits_dots by simp

lemma ordered_list_starts_iff: "ordered_list_starts s \<longleftrightarrow> starts_with ''1. '' s \<and> dots (drop 3 s)"
  unfolding ordered_list_starts_def regex_match_lits_dots by (simp add: eval_nat_numeral)

lemma matches_Ch_Seq:
  "matches (Seq (Ch k) q) b (c # cs) g =
    (if in_class c k then map (\<lambda>(u, v, h). (c # u, v, h)) (matches q False cs g) else [])"
  "matches (Seq (Ch k) q) b [] g = []"
  by (simp_all add: matches.simps(4))

lemma unordered_list_starts_iff:
  "unordered_list_starts s \<longleftrightarrow> (\<exists>b \<in> set ''+*-''. starts_with [b, CHR '' ''] s) \<and> dots (drop 2 s)"
proof (cases s)
  case (Cons c cs)
  have "unordered_list_starts s \<longleftrightarrow> c \<in> set ''+*-''
      \<and> list_ex (\<lambda>(u, v, g). v = []) (matches (Seq (lits '' '') (Many Dot)) False cs [])"
    unfolding Cons unordered_list_starts_def regex_match_Bol matches_Ch_Seq
    by (simp add: list_ex_iff split_beta)
  also have "\<dots> \<longleftrightarrow> c \<in> set ''+*-'' \<and> starts_with '' '' cs \<and> dots (drop 1 cs)"
    unfolding lits_dots_matched by simp
  finally show ?thesis unfolding Cons by auto
qed (simp add: unordered_list_starts_def regex_match_Bol matches_Ch_Seq)

lemma checklist_starts_head: "checklist_starts s \<Longrightarrow> starts_with ''- ['' s"
  unfolding checklist_starts_def regex_match_Bol matches_lits_seq by (auto split: if_splits)

lemma list_child_tag: "list_child (CHR ''<'' # s) = None"
  by (simp add: list_child_def ordered_list_starts_iff unordered_list_starts_iff)

lemma checklist_child_tag: "checklist_child (CHR ''<'' # s) = None"
  using checklist_starts_head [of "CHR ''<'' # s"] by (auto simp: checklist_child_def)

lemma rbind_cong [fundef_cong]:
  "r = r' \<Longrightarrow> (\<And>a. r' = Inr a \<Longrightarrow> f a = f' a) \<Longrightarrow> rbind r f = rbind r' f'"
  by (cases r') auto

fun depth :: "block_parser \<Rightarrow> nat" where
  "depth (Block d r ch) = (case ch of None \<Rightarrow> 0 | Some b \<Rightarrow> Suc (depth b))"

fun spawn_rank :: "block_data \<Rightarrow> nat" where
  "spawn_rank (Quote s f) = 3"
| "spawn_rank (Checklist s f) = (if s then 2 else 1)"
| "spawn_rank (OrderedList s f) = (if s then 2 else 1)"
| "spawn_rank (UnorderedList s f) = (if s then 2 else 1)"
| "spawn_rank d = 0"


text \<open>An opened child ranks below its parent, or it is a quote in a quote with one mark less.\<close>

definition pad :: "string \<Rightarrow> string" where
  "pad l = (if l \<noteq> [] then l @ '' '' else l)"

lemma quote_block_strip:
  "quote_block s f (CHR ''>'' # CHR '' '' # CHR ''>'' # r) = Inr (Quote s f, pad r)"
  "\<not> starts_with ''>'' r \<Longrightarrow> quote_block s f (CHR ''>'' # CHR '' '' # r) = Inr (Quote s f, pad r)"
  "\<not> starts_with '' '' r \<Longrightarrow> quote_block s f (CHR ''>'' # r) = Inr (Quote s f, pad r)"
  "\<not> starts_with ''>'' r \<Longrightarrow> quote_block s f r = Inr (Quote s f, pad r)"
proof -
  show "quote_block s f r = Inr (Quote s f, pad r)" if "\<not> starts_with ''>'' r"
    using that by (cases r) (auto simp: quote_block_def replace_Bol_lits format_def pad_def)
qed (simp_all add: quote_block_def replace_Bol_lits format_def pad_def)

lemma quote_block_cases:
  obtains (nested) r where "line = CHR ''>'' # CHR '' '' # CHR ''>'' # r"
    "quote_block s f line = Inr (Quote s f, pad r)"
  | (spaced) r where "line = CHR ''>'' # CHR '' '' # r" "\<not> starts_with ''>'' r"
    "quote_block s f line = Inr (Quote s f, pad r)"
  | (tight) r where "line = CHR ''>'' # r" "\<not> starts_with '' '' r"
    "quote_block s f line = Inr (Quote s f, pad r)"
  | (lazy) "\<not> starts_with ''>'' line" "quote_block s f line = Inr (Quote s f, pad line)"
proof (cases "starts_with ''>'' line")
  case False
  then show thesis using lazy quote_block_strip(4) by blast
next
  case True
  then obtain r where r: "line = CHR ''>'' # r" by (auto simp: starts_with_iff)
  show thesis
  proof (cases "starts_with '' '' r")
    case False
    then show thesis using tight r quote_block_strip(3) by blast
  next
    case True
    then obtain t where t: "r = CHR '' '' # t" by (auto simp: starts_with_iff)
    show thesis
    proof (cases "starts_with ''>'' t")
      case True
      then obtain v where "t = CHR ''>'' # v" by (auto simp: starts_with_iff)
      then show thesis using nested [of v] r t quote_block_strip(1) by simp
    next
      case False
      then show thesis using spaced [of t] r t quote_block_strip(2) by simp
    qed
  qed
qed

lemma quote_block_marks:
  assumes "quote_block s f line = Inr (d, l)" "starts_with ''>'' l"
  shows "count_list l (CHR ''>'') < count_list line (CHR ''>'')"
proof (cases rule: quote_block_cases [of line s f])
  case lazy
  with assms show ?thesis by (cases line) (auto simp: pad_def)
qed (use assms in \<open>auto simp: pad_def\<close>)

lemma get_block_rank:
  assumes "get_block_parser_for_line config line = Some b"
  shows "depth b = 0" "spawn_rank (data b) \<le> 3"
    "spawn_rank (data b) = 3 \<Longrightarrow> quote_starts line"
  using assms by (auto simp: get_block_parser_for_line_def new_block_def split: if_splits)

lemma list_child_rank:
  "list_child line = Some b \<Longrightarrow> depth b = 0 \<and> spawn_rank (data b) = 1"
  "checklist_child line = Some b \<Longrightarrow> depth b = 0 \<and> spawn_rank (data b) = 1"
  by (auto simp: list_child_def checklist_child_def new_block_def split: if_splits)

lemma parse_block_child_rank:
  assumes "parse_block d line = Inr (d', l)" "is_inline_block_allowed d'" "child_for_line config d' l = Some b"
  shows "depth b = 0 \<and> (spawn_rank (data b) < spawn_rank d
    \<or> spawn_rank (data b) = spawn_rank d \<and> count_list l (CHR ''>'') < count_list line (CHR ''>''))"
proof (cases d)
  case (Checklist s f)
  with assms show ?thesis
    by (auto simp: checklist_block_def checklist_child_tag Let_def fault_simps list_child_rank split: if_splits)
next
  case (OrderedList s f)
  with assms show ?thesis
    by (auto simp: ordered_list_block_def list_child_tag Let_def fault_simps list_child_rank split: if_splits)
next
  case (UnorderedList s f)
  with assms show ?thesis
    by (auto simp: unordered_list_block_def list_child_tag Let_def fault_simps list_child_rank split: if_splits)
next
  case (Quote s f)
  with assms have q: "quote_block s f line = Inr (d', l)" "d' = Quote s f"
    by (auto simp: quote_block_def Let_def)
  with assms have g: "get_block_parser_for_line config l = Some b" by simp
  show ?thesis
    using get_block_rank [OF g] quote_block_marks [OF q(1)] Quote
    by (cases "spawn_rank (data b) = 3") (auto simp: quote_starts_iff)
qed (use assms in \<open>auto simp: code_block_block_def headline_block_def horizontal_line_block_def
    html_block_def paragraph_block_def split: if_splits\<close>)

function add_line :: "parser_config option \<Rightarrow> block_parser \<Rightarrow> string \<Rightarrow> cpp_fault + block_parser" where
  "add_line config (Block d res ch) line =
     (case d of
        TableBlock started finished cb cr table \<Rightarrow>
          table_add_line config started finished cb cr table res line
      | Quote started finished \<Rightarrow>
          (let res1 = quote_start started res in
           rbind (parse_block (Quote started finished) line) (\<lambda>(d1, l).
             case open_child config d1 ch l of
               Some b \<Rightarrow> rbind (add_line config b l) (\<lambda>b'. Inr (absorb (Quote True finished) res1 b'))
             | None \<Rightarrow>
                 Inr (quote_write (line = []) finished res1 (parse_line config d1 l))))
      | _ \<Rightarrow>
          rbind (parse_block d line) (\<lambda>(d1, l).
            case open_child config d1 ch l of
              Some b \<Rightarrow> rbind (add_line config b l) (\<lambda>b'. Inr (absorb d1 res b'))
            | None \<Rightarrow> Inr (Block d1 (res @ parse_line config d1 l) None)))"
  by pat_completeness auto

lemma open_child_smaller:
  assumes "parse_block d line = Inr (d1, l)" "open_child config d1 ch l = Some b"
  shows "(b, l, Block d res ch, line) \<in> {(b, l, b', l').
    depth b < depth b' \<or> depth b = depth b' \<and> (spawn_rank (data b) < spawn_rank (data b')
      \<or> spawn_rank (data b) = spawn_rank (data b') \<and> count_list l (CHR ''>'') < count_list l' (CHR ''>''))}"
proof (cases ch)
  case (Some b')
  with assms show ?thesis by (simp add: open_child_def)
next
  case None
  with assms have "is_inline_block_allowed d1" "child_for_line config d1 l = Some b"
    by (auto simp: open_child_def split: if_splits)
  with parse_block_child_rank [OF assms(1) this] None show ?thesis by auto
qed

termination add_line
proof (relation "measures [\<lambda>(config, b, l). depth b, \<lambda>(config, b, l). spawn_rank (data b),
    \<lambda>(config, b, l). count_list l (CHR ''>'')]", goal_cases)
  case 1
  show ?case by simp
qed (use open_child_smaller in \<open>fastforce\<close>)+

declare add_line.simps [simp del]

section \<open>Parser::Parse\<close>

text \<open>
  The loop over the lines, with the block that is open and the text so far. After the last line an
  open block gets one empty line; if that does not finish it, its text is lost.
\<close>

fun parse_lines ::
  "parser_config option \<Rightarrow> block_parser option \<Rightarrow> string \<Rightarrow> string list \<Rightarrow> cpp_fault + string" where
  "parse_lines config current res [] =
     (case current of
        None \<Rightarrow> Inr res
      | Some b \<Rightarrow> rbind (add_line config b []) (\<lambda>b'. Inr (if is_finished b' then res @ result b' else res)))"
| "parse_lines config current res (line # lines) =
     (case (case current of None \<Rightarrow> get_block_parser_for_line config line | Some b \<Rightarrow> Some b) of
        None \<Rightarrow> parse_lines config None res lines
      | Some b \<Rightarrow> rbind (add_line config b line) (\<lambda>b'.
          if is_finished b' then parse_lines config None (res @ result b') lines
          else parse_lines config (Some b') res lines))"

definition markdown_parse :: "parser_config option \<Rightarrow> string \<Rightarrow> cpp_fault + string" where
  "markdown_parse config markdown = parse_lines config None [] (getlines LF markdown)"

section \<open>Faults\<close>

lemma indented:
  assumes "2 \<le> indentation_width line"
  obtains a b r where "line = a # b # r" "isspace a" "isspace b"
proof -
  have "2 \<le> length (takeWhile isspace line)"
    using assms mod_less_eq_dividend [of "length (takeWhile isspace line)" "2 ^ 32"]
    unfolding indentation_width_def by linarith
  then have "\<exists>a b r. line = a # b # r \<and> isspace a \<and> isspace b"
    by (cases line; cases "tl line") (auto split: if_splits)
  then show thesis using that by blast
qed

lemma mark_not_space: "isspace a \<Longrightarrow> a \<notin> set ''-[1+*''"
  by (auto simp: isspace_def schar_def)

lemma indented_kept:
  assumes "2 \<le> indentation_width line" "t \<noteq> []" "hd t \<in> set ''-[1+*''"
  shows "regex_replace line (Seq Bol (lits t)) fmt = line"
    "regex_replace line (Seq Bol (Group 1 (lits t))) fmt = line"
proof -
  obtain a b r where "line = a # b # r" "isspace a" using indented [OF assms(1)] .
  then have "\<not> starts_with t line"
    using mark_not_space [of a] assms(2,3) by (cases t) auto
  then show "regex_replace line (Seq Bol (lits t)) fmt = line"
    "regex_replace line (Seq Bol (Group 1 (lits t))) fmt = line"
    using assms(2) by (simp_all add: replace_Bol_lits replace_Bol_group_lits [simplified])
qed

lemma indented_bullet:
  assumes "2 \<le> indentation_width line"
  shows "regex_replace line (Seq Bol (Group 1 (Seq (Ch (In ''+*-'')) (lits '' '')))) fmt = line"
proof -
  obtain a b r where "line = a # b # r" "isspace a" using indented [OF assms] .
  then show ?thesis
    using mark_not_space [of a] by (simp add: replace_Bol matches_Ch_Seq)
qed

lemma indented_substr: "2 \<le> indentation_width line \<Longrightarrow> substr line 2 npos = Inr (take npos (drop 2 line))"
  by (erule indented) (simp add: substr_def)

text \<open>\<open>line.substr(2)\<close> in the lists never throws: a line indented by two keeps its length.\<close>

lemma parse_block_no_fault: "\<exists>d' l. parse_block d line = Inr (d', l)"
proof (cases "2 \<le> indentation_width line")
  case True
  then show ?thesis
    by (cases d) (simp_all add: checklist_block_def ordered_list_block_def unordered_list_block_def
        code_block_block_def headline_block_def horizontal_line_block_def html_block_def
        paragraph_block_def quote_block_def Let_def indented_kept indented_kept [simplified]
        indented_bullet indented_bullet [simplified] indented_substr)
next
  case False
  then show ?thesis
    by (cases d) (simp_all add: checklist_block_def ordered_list_block_def unordered_list_block_def
        code_block_block_def headline_block_def horizontal_line_block_def html_block_def
        paragraph_block_def quote_block_def Let_def)
qed

text \<open>Tables are only opened at the top level: inside a quote every line that is not empty ends in a blank.\<close>

fun is_table :: "block_data \<Rightarrow> bool" where
  "is_table (TableBlock s f cb cr t) = True"
| "is_table d = False"

fun table_free :: "block_parser \<Rightarrow> bool" where
  "table_free (Block d r ch) \<longleftrightarrow> \<not> is_table d \<and> (case ch of None \<Rightarrow> True | Some b \<Rightarrow> table_free b)"

lemma get_block_table:
  "get_block_parser_for_line config line = Some b \<Longrightarrow>
     if line = ''|table>'' then b = new_block (TableBlock False False 0 0 []) else table_free b"
proof (cases "line = ''|table>''")
  case True
  have "headline_starts ''|table>'' = False" "code_block_starts ''|table>'' = False"
    "horizontal_line_starts ''|table>'' = False"
    by code_simp+
  with True show "get_block_parser_for_line config line = Some b \<Longrightarrow> ?thesis"
    by (simp add: get_block_parser_for_line_def quote_starts_iff table_starts_def)
qed (auto simp: get_block_parser_for_line_def new_block_def table_starts_def split: if_splits)

lemma parse_block_kind:
  assumes "parse_block d line = Inr (d', l)"
  shows "is_table d' = is_table d" "is_inline_block_allowed d' = is_inline_block_allowed d"
    "child_for_line config d' = child_for_line config d"
  using assms
  by (cases d; auto simp: checklist_block_def ordered_list_block_def unordered_list_block_def
      code_block_block_def headline_block_def horizontal_line_block_def html_block_def
      paragraph_block_def quote_block_def Let_def fault_simps split: if_splits)+

lemma pad_not_table: "pad l \<noteq> ''|table>''"
proof
  assume "pad l = ''|table>''"
  then have "last (pad l) = CHR ''>''" "pad l \<noteq> []" by simp_all
  then show False by (simp add: pad_def split: if_splits)
qed

lemma child_table_free:
  assumes "parse_block d line = Inr (d', l)" "child_for_line config d' l = Some b"
  shows "table_free b"
proof -
  have child: "child_for_line config d l = Some b"
    using assms(2) parse_block_kind(3) [OF assms(1)] by simp
  show ?thesis
  proof (cases d)
    case (Quote s f)
    with assms have q: "quote_block s f line = Inr (d', l)" by simp
    then obtain r where "d' = Quote s f" "l = pad r"
      by (cases rule: quote_block_cases [of line s f]) auto
    with assms Quote have "get_block_parser_for_line config (pad r) = Some b" by simp
    then show ?thesis using get_block_table [of config "pad r" b] pad_not_table [of r] by simp
  qed (use child in \<open>auto simp: list_child_def checklist_child_def new_block_def split: if_splits\<close>)
qed

lemma absorb_table_free: "\<not> is_table d \<Longrightarrow> table_free b \<Longrightarrow> table_free (absorb d res b)"
  by (simp add: absorb_def)

text \<open>Induction over the calls of \<open>AddLine\<close>: from the child that takes the line to its parent.\<close>

lemma add_line_induct [case_names Block]:
  assumes "\<And>d res ch line. (\<And>d1 l b. parse_block d line = Inr (d1, l) \<Longrightarrow>
      open_child config d1 ch l = Some b \<Longrightarrow> P b l) \<Longrightarrow> P (Block d res ch) line"
  shows "P b line"
proof -
  let ?r = "measures [\<lambda>(b, l). depth b, \<lambda>(b, l). spawn_rank (data b),
      \<lambda>(b, l). count_list l (CHR ''>'')]"
  have wf: "wf ?r" by simp
  have "P (fst x) (snd x)" for x
  proof (induction x rule: wf_induct_rule [OF wf])
    case (1 x)
    obtain d res ch line where x: "x = (Block d res ch, line)"
      by (metis block_parser.exhaust surj_pair)
    have "P b' l" if "parse_block d line = Inr (d1, l)" "open_child config d1 ch l = Some b'" for d1 l b'
      using 1 [of "(b', l)"] open_child_smaller [OF that, of res] x by auto
    with x assms show ?case by simp
  qed
  from this [of "(b, line)"] show ?thesis by simp
qed

fun is_quote :: "block_data \<Rightarrow> bool" where
  "is_quote (Quote s f) = True"
| "is_quote d = False"

lemma add_line_table:
  "add_line config (Block (TableBlock s f cb cr t) res ch) line = table_add_line config s f cb cr t res line"
  by (simp add: add_line.simps)

lemma add_line_other:
  "\<not> is_table d \<Longrightarrow> \<not> is_quote d \<Longrightarrow> add_line config (Block d res ch) line =
    rbind (parse_block d line) (\<lambda>(d1, l).
      case open_child config d1 ch l of
        Some b \<Rightarrow> rbind (add_line config b l) (\<lambda>b'. Inr (absorb d1 res b'))
      | None \<Rightarrow> Inr (Block d1 (res @ parse_line config d1 l) None))"
  by (cases d) (simp_all only: add_line.simps block_data.case is_table.simps is_quote.simps simp_thms)

lemma add_line_quote:
  "add_line config (Block (Quote s f) res ch) line =
    (let res1 = quote_start s res in
     rbind (parse_block (Quote s f) line) (\<lambda>(d1, l).
       case open_child config d1 ch l of
         Some b \<Rightarrow> rbind (add_line config b l) (\<lambda>b'. Inr (absorb (Quote True f) res1 b'))
       | None \<Rightarrow>
           Inr (quote_write (line = []) f res1 (parse_line config d1 l))))"
  by (simp only: add_line.simps block_data.case)

lemma open_child_table_free:
  assumes "table_free (Block d res ch)" "parse_block d line = Inr (d1, l)" "open_child config d1 ch l = Some b"
  shows "table_free b"
  using assms child_table_free [OF assms(2), of config b]
  by (auto simp: open_child_def split: option.splits if_splits)

lemma add_line_table_free:
  "table_free b \<Longrightarrow> \<exists>b'. add_line config b line = Inr b' \<and> table_free b'"
proof (induction b line rule: add_line_induct [of config])
  case (Block d res ch line)
  obtain d1 l where pb: "parse_block d line = Inr (d1, l)" using parse_block_no_fault by blast
  have d1: "\<not> is_table d1" using Block.prems parse_block_kind(1) [OF pb] by simp
  show ?case
  proof (cases "open_child config d1 ch l")
    case None
    show ?thesis
    proof (cases "is_quote d")
      case True
      then obtain s f where "d = Quote s f" by (cases d) auto
      with None pb show ?thesis by (simp add: add_line_quote Let_def)
    next
      case False
      with None pb d1 Block.prems show ?thesis by (simp add: add_line_other)
    qed
  next
    case (Some b)
    then obtain b' where b': "add_line config b l = Inr b'" "table_free b'"
      using Block.IH [OF pb Some] open_child_table_free [OF Block.prems pb Some] by blast
    show ?thesis
    proof (cases "is_quote d")
      case True
      then obtain s f where "d = Quote s f" by (cases d) auto
      with Some pb b' show ?thesis by (simp add: add_line_quote Let_def absorb_table_free)
    next
      case False
      with Some pb b' d1 Block.prems show ?thesis by (simp add: add_line_other absorb_table_free)
    qed
  qed
qed

lemma table_cases:
  assumes "is_table (data b)"
  obtains s f cb cr t res ch where "b = Block (TableBlock s f cb cr t) res ch"
  using assms by (cases b; cases "data b") auto

lemma table_add_line_fault:
  "is_table (data b) \<Longrightarrow> add_line config b line = Inl e \<Longrightarrow> e = BufferOverflow"
  by (erule table_cases)
     (auto simp: add_line_table table_add_line_def table_add_row_def Let_def fault_simps split: if_splits)

lemma table_add_line_kind:
  "is_table (data b) \<Longrightarrow> add_line config b line = Inr b' \<Longrightarrow> is_table (data b')"
  by (erule table_cases)
     (auto simp: add_line_table table_add_line_def Let_def fault_simps split: if_splits)

lemma parse_lines_faults:
  assumes "case current of None \<Rightarrow> True | Some b \<Rightarrow> table_free b \<or> is_table (data b)"
  shows "parse_lines config current res lines = Inl e \<Longrightarrow> e = BufferOverflow"
  using assms
proof (induction lines arbitrary: current res)
  case Nil
  then show ?case
    using add_line_table_free [of _ config "[]"] table_add_line_fault
    by (cases current) (fastforce simp: fault_simps split: if_splits)+
next
  case (Cons line lines)
  let ?b = "case current of None \<Rightarrow> get_block_parser_for_line config line | Some b \<Rightarrow> Some b"
  show ?case
  proof (cases ?b)
    case None
    with Cons show ?thesis by simp
  next
    case (Some b)
    then have kind: "table_free b \<or> is_table (data b)"
      using Cons.prems(2) get_block_table [of config line b]
      by (auto simp: new_block_def split: option.splits if_splits)
    show ?thesis
    proof (cases "add_line config b line")
      case (Inl e')
      with Some Cons.prems(1) have "e = e'" by simp
      with Inl kind show ?thesis
        using add_line_table_free [of b config line] table_add_line_fault [of b config line e'] by auto
    next
      case (Inr b')
      then have "table_free b' \<or> is_table (data b')"
        using kind add_line_table_free [of b config line] table_add_line_kind [of b config line b'] by auto
      with Inr Some Cons show ?thesis by (auto split: if_splits)
    qed
  qed
qed

lemma parse_lines_total:
  assumes "case current of None \<Rightarrow> True | Some b \<Rightarrow> table_free b" "''|table>'' \<notin> set lines"
  shows "\<exists>out. parse_lines config current res lines = Inr out"
  using assms
proof (induction lines arbitrary: current res)
  case Nil
  then show ?case
    using add_line_table_free [of _ config "[]"] by (cases current) (fastforce simp: fault_simps)+
next
  case (Cons line lines)
  let ?b = "case current of None \<Rightarrow> get_block_parser_for_line config line | Some b \<Rightarrow> Some b"
  show ?case
  proof (cases ?b)
    case None
    with Cons show ?thesis by simp
  next
    case (Some b)
    then have "table_free b"
      using Cons.prems get_block_table [of config line b] by (auto split: option.splits if_splits)
    then obtain b' where "add_line config b line = Inr b'" "table_free b'"
      using add_line_table_free by blast
    with Some Cons show ?thesis by simp
  qed
qed

text \<open>
  C13. The Markdown parser always returns, and the only fault it can meet is a table row that is
  stored past the end of the table's vector: without a line \<open>|table>\<close> it returns normally on any
  text and with any configuration.
\<close>

theorem markdown_faults_only_in_tables:
  "(\<forall>e. markdown_parse config s = Inl e \<longrightarrow> e = BufferOverflow)
    \<and> (''|table>'' \<notin> set (getlines LF s) \<longrightarrow> (\<exists>out. markdown_parse config s = Inr out))"
  unfolding markdown_parse_def
  using parse_lines_faults [of None config "[]" "getlines LF s"]
    parse_lines_total [of None "getlines LF s" config "[]"] by simp

theorem markdown_faults_only_in_tables_witness:
  "\<exists>out. markdown_parse None (''> a'' @ [LF] @ ''  b'') = Inr out"
  using markdown_faults_only_in_tables [of None "''> a'' @ [LF] @ ''  b''"] by simp

section \<open>What the blocks produce\<close>

definition unlines :: "string list \<Rightarrow> string" where
  "unlines ls = concat (map (\<lambda>l. l @ [LF]) ls)"

lemma getlines_append: "d \<notin> set l \<Longrightarrow> getlines d (l @ d # s) = l # getlines d s"
  by (induction l) auto

lemma getlines_unlines: "\<forall>l \<in> set ls. LF \<notin> set l \<Longrightarrow> getlines LF (unlines ls @ s) = ls @ getlines LF s"
  by (induction ls) (auto simp: unlines_def getlines_append)

named_theorems opens_simps

text \<open>Lines that open a particular block; first the fences and the ordinary text.\<close>

lemma fence_opens [opens_simps]:
  "get_block_parser_for_line config [BQUOTE, BQUOTE, BQUOTE] = Some (new_block (CodeBlock False False))"
proof -
  have "code_block_starts [BQUOTE, BQUOTE, BQUOTE]" by code_simp
  then show ?thesis by (simp add: get_block_parser_for_line_def)
qed

lemma table_opens [opens_simps]:
  "get_block_parser_for_line config ''|table>'' = Some (new_block (TableBlock False False 0 0 []))"
proof -
  have "headline_starts ''|table>'' = False" "code_block_starts ''|table>'' = False"
    "horizontal_line_starts ''|table>'' = False"
    by code_simp+
  then show ?thesis
    by (simp add: get_block_parser_for_line_def quote_starts_iff table_starts_def)
qed

lemma matches_Times_Seq:
  "matches (Seq (Times lo hi k) q) b s g =
    concat (map (\<lambda>(u, v). map (\<lambda>(u', v', h). (u @ u', v', h)) (matches q (b \<and> u = []) v g)) (times lo hi k s))"
  by (simp add: matches.simps(4) comp_def split_def)

definition ordinary :: "string \<Rightarrow> bool" where
  "ordinary l \<longleftrightarrow> l \<noteq> [] \<and> hd l \<notin> set ''#->|1+*'' \<and> hd l \<noteq> BQUOTE"

lemma times_miss: "\<not> in_class c k \<Longrightarrow> times (Suc lo) (Suc hi) k (c # cs) = []"
  by simp

lemma ordinary_opens [opens_simps]:
  assumes "ordinary l"
  shows "get_block_parser_for_line None l = Some (new_block (Paragraph False False))"
proof -
  obtain c cs where l: "l = c # cs" "c \<notin> set ''#->|1+*''" "c \<noteq> BQUOTE"
    using assms by (cases l) (auto simp: ordinary_def)
  have "\<not> code_block_starts l" "\<not> headline_starts l"
    unfolding code_block_starts_def headline_starts_def regex_match_Bol matches_Times_Seq l(1)
    using l(2,3) times_miss [of c "One BQUOTE" 2 2] times_miss [of c "One (CHR ''#'')" 0 5]
    by (simp_all add: eval_nat_numeral)
  moreover have "\<not> horizontal_line_starts l"
    unfolding horizontal_line_starts_def horizontal_line_pattern_def regex_match_Bol matches_lits_seq
    using l by auto
  moreover have "\<not> checklist_starts l" using checklist_starts_head [of l] l by auto
  ultimately show ?thesis
    using l by (auto simp: get_block_parser_for_line_def quote_starts_iff table_starts_def
        ordered_list_starts_iff unordered_list_starts_iff paragraph_starts_def)
qed

text \<open>Code.\<close>

lemma code_add_line:
  "l \<noteq> [BQUOTE, BQUOTE, BQUOTE] \<Longrightarrow>
    add_line config (Block (CodeBlock s f) res None) l = Inr (Block (CodeBlock s f) (res @ l @ [LF]) None)"
  "add_line config (Block (CodeBlock False f) res None) [BQUOTE, BQUOTE, BQUOTE] =
    Inr (Block (CodeBlock True False) (res @ ''<pre><code>'' @ [LF]) None)"
  "add_line config (Block (CodeBlock True f) res None) [BQUOTE, BQUOTE, BQUOTE] =
    Inr (Block (CodeBlock False True) (res @ ''</code></pre>'') None)"
  by (simp_all add: add_line_other code_block_block_def open_child_def parse_line_def)

lemma code_lines:
  "[BQUOTE, BQUOTE, BQUOTE] \<notin> set ls \<Longrightarrow>
    parse_lines config (Some (Block (CodeBlock True False) res None)) out (ls @ rest) =
    parse_lines config (Some (Block (CodeBlock True False) (res @ unlines ls) None)) out rest"
  by (induction ls arbitrary: res) (auto simp: code_add_line is_finished_def unlines_def)

text \<open>
  A code block is kept verbatim: the lines between two fences appear unchanged, each with its
  line feed, in a \<open>pre\<close> element, and parsing goes on after the closing fence.
\<close>

theorem code_block_verbatim:
  assumes "\<forall>l \<in> set ls. LF \<notin> set l \<and> l \<noteq> [BQUOTE, BQUOTE, BQUOTE]"
  shows "markdown_parse config ([BQUOTE, BQUOTE, BQUOTE, LF] @ unlines ls @ [BQUOTE, BQUOTE, BQUOTE, LF]) =
    Inr (''<pre><code>'' @ [LF] @ unlines ls @ ''</code></pre>'')"
proof -
  let ?fence = "[BQUOTE, BQUOTE, BQUOTE]"
  have "getlines LF (unlines (?fence # ls @ [?fence]) @ []) = (?fence # ls @ [?fence]) @ getlines LF []"
    by (rule getlines_unlines) (use assms in auto)
  then have "getlines LF ([BQUOTE, BQUOTE, BQUOTE, LF] @ unlines ls @ [BQUOTE, BQUOTE, BQUOTE, LF]) =
      ?fence # ls @ [?fence]"
    by (simp add: unlines_def)
  moreover have "?fence \<notin> set ls" using assms by auto
  ultimately show ?thesis
    by (simp add: markdown_parse_def opens_simps new_block_def code_add_line code_lines is_finished_def)
qed

theorem code_block_verbatim_witness:
  "markdown_parse None ([BQUOTE, BQUOTE, BQUOTE, LF] @ ''# a * b'' @ [LF] @ [BQUOTE, BQUOTE, BQUOTE, LF]) =
    Inr (''<pre><code>'' @ [LF] @ ''# a * b'' @ [LF] @ ''</code></pre>'')"
  using code_block_verbatim [of "[''# a * b'']" None] by (simp add: unlines_def)

text \<open>Headlines.\<close>

lemma many_dots: "dots t \<Longrightarrow> \<exists>others. many Dot t = (t, []) # others"
  by (induction t) auto

lemma heading_text:
  assumes "dots t"
  shows "\<exists>others. matches (Seq (lits '' '') (Group 1 (Many Dot))) b (CHR '' '' # t) g =
    (CHR '' '' # t, [], (1, t) # g) # others"
  using many_dots [OF assms] by (auto simp: matches_lits_seq)

lemma times_hashes:
  "times n n (One c) (replicate m c @ r) = (if n \<le> m then [(replicate n c, replicate (m - n) c @ r)] else [])"
  if "r = [] \<or> hd r \<noteq> c" "m \<le> n"
  using that(2)
proof (induction n arbitrary: m)
  case (Suc n)
  show ?case
  proof (cases m)
    case 0
    with that(1) show ?thesis by (cases r) auto
  next
    case (Suc k)
    with Suc.IH [of k] Suc.prems show ?thesis by auto
  qed
qed simp

definition heading_pattern :: "nat \<Rightarrow> regex" where
  "heading_pattern n = Seq (Times n n (One (CHR ''#''))) (Seq (lits '' '') (Group 1 (Many Dot)))"

lemma times_more_hashes:
  "n < m \<Longrightarrow> times n n (One c) (replicate m c @ r) = [(replicate n c, replicate (m - n) c @ r)]"
proof (induction n arbitrary: m)
  case (Suc n)
  then obtain k where "m = Suc k" by (cases m) auto
  with Suc show ?case by auto
qed simp

lemma heading_match:
  assumes "dots t" "1 \<le> m"
  shows "n = m \<Longrightarrow> \<exists>others. matches (heading_pattern n) True (replicate m (CHR ''#'') @ CHR '' '' # t) [] =
      (replicate m (CHR ''#'') @ CHR '' '' # t, [], [(1, t)]) # others"
    and "n \<noteq> m \<Longrightarrow> matches (heading_pattern n) True (replicate m (CHR ''#'') @ CHR '' '' # t) [] = []"
proof -
  show "\<exists>others. matches (heading_pattern n) True (replicate m (CHR ''#'') @ CHR '' '' # t) [] =
      (replicate m (CHR ''#'') @ CHR '' '' # t, [], [(1, t)]) # others" if "n = m"
    using heading_text [OF assms(1), of False "[]"] assms(2) that
    by (auto simp: heading_pattern_def matches_Times_Seq times_hashes)
  show "matches (heading_pattern n) True (replicate m (CHR ''#'') @ CHR '' '' # t) [] = []" if "n \<noteq> m"
  proof (cases "m < n")
    case True
    then show ?thesis by (simp add: heading_pattern_def matches_Times_Seq times_hashes)
  next
    case False
    with that have "n < m" by simp
    moreover obtain k where "m - n = Suc k" using \<open>n < m\<close> by (cases "m - n") auto
    ultimately show ?thesis
      by (simp add: heading_pattern_def matches_Times_Seq times_more_hashes matches_lits_seq)
  qed
qed

lemma heading_pattern_1:
  "matches (Seq (lits ''# '') (Group 1 (Many Dot))) True s [] = matches (heading_pattern 1) True s []"
proof (cases s)
  case (Cons c cs)
  show ?thesis
    by (simp add: heading_pattern_def Cons matches_Times_Seq matches_lits_seq comp_def split_def)
qed (simp add: heading_pattern_def matches_Times_Seq matches_lits_seq)

lemma times_member:
  "lo \<le> m \<Longrightarrow> m \<le> hi \<Longrightarrow> (replicate m c, r) \<in> set (times lo hi (One c) (replicate m c @ r))"
proof (induction m arbitrary: lo hi)
  case 0
  then show ?case by (cases hi; cases r) auto
next
  case (Suc m)
  then obtain h where "hi = Suc h" "m \<le> h" by (cases hi) auto
  with Suc.IH [of "lo - 1" h] Suc.prems show ?case by force
qed

lemma matches_Times_SeqI:
  "(u, v) \<in> set (times lo hi k s) \<Longrightarrow> (u', w, h) \<in> set (matches q (b \<and> u = []) v g) \<Longrightarrow>
    (u @ u', w, h) \<in> set (matches (Seq (Times lo hi k) q) b s g)"
  unfolding matches_Times_Seq by force

lemma heading_opens [opens_simps]:
  assumes "dots t" "1 \<le> m" "m \<le> 6"
  shows "get_block_parser_for_line config (replicate m (CHR ''#'') @ CHR '' '' # t) = Some (new_block Headline)"
proof -
  let ?l = "replicate m (CHR ''#'') @ CHR '' '' # t"
  obtain others where "matches (Seq (lits '' '') (Group 1 (Many Dot))) False (CHR '' '' # t) [] =
      (CHR '' '' # t, [], [(1, t)]) # others"
    using heading_text [OF assms(1), of False "[]"] by auto
  then have "(CHR '' '' # t, [], [(1, t)]) \<in>
      set (matches (Seq (lits '' '') (Group 1 (Many Dot))) (True \<and> replicate m (CHR ''#'') = []) (CHR '' '' # t) [])"
    using assms(2) by simp
  from matches_Times_SeqI [OF times_member [OF assms(2,3)] this] have "headline_starts ?l"
    unfolding headline_starts_def regex_match_Bol list_ex_iff by (rule bexI [rotated]) simp
  moreover obtain cs where "?l = CHR ''#'' # cs" using assms(2) by (cases m) auto
  then have "\<not> code_block_starts ?l"
    using times_miss [of "CHR ''#''" "One BQUOTE" 2 2 cs]
    by (simp add: code_block_starts_def regex_match_Bol matches_Times_Seq eval_nat_numeral)
  ultimately show ?thesis by (simp add: get_block_parser_for_line_def)
qed

lemma heading_replace:
  assumes "dots t" "1 \<le> m" "1 \<le> n"
  shows "regex_replace (replicate m (CHR ''#'') @ CHR '' '' # t) (Seq Bol (heading_pattern n)) fmt =
      (if n = m then format fmt [(1, t)] else replicate m (CHR ''#'') @ CHR '' '' # t)"
    and "regex_replace (CHR ''<'' # s) (Seq Bol (heading_pattern n)) fmt = CHR ''<'' # s"
proof -
  have "0 < min_length (heading_pattern n)" by (simp add: heading_pattern_def)
  note replace = replace_Bol [OF this]
  show "regex_replace (replicate m (CHR ''#'') @ CHR '' '' # t) (Seq Bol (heading_pattern n)) fmt =
      (if n = m then format fmt [(1, t)] else replicate m (CHR ''#'') @ CHR '' '' # t)"
    using heading_match [OF assms(1,2), of n] by (auto simp: replace)
  obtain k where "n = Suc k" using assms(3) by (cases n) auto
  then have "matches (heading_pattern n) True (CHR ''<'' # s) [] = []"
    by (simp add: heading_pattern_def matches_Times_Seq)
  then show "regex_replace (CHR ''<'' # s) (Seq Bol (heading_pattern n)) fmt = CHR ''<'' # s"
    by (simp add: replace)
qed

lemma heading_1_replace:
  "regex_replace s (Seq Bol (Seq (lits ''# '') (Group 1 (Many Dot)))) fmt =
    regex_replace s (Seq Bol (heading_pattern 1)) fmt"
proof -
  have short: "0 < min_length (Seq (lits ''# '') (Group 1 (Many Dot)))" by simp
  have long: "0 < min_length (heading_pattern 1)" by (simp add: heading_pattern_def)
  show ?thesis by (simp only: replace_Bol [OF short] replace_Bol [OF long] heading_pattern_1)
qed

lemma headline_block_alt:
  "headline_block line = Inr (Headline,
    foldl (\<lambda>l (n, fmt). regex_replace l (Seq Bol (heading_pattern n)) fmt) line (zip [1, 2, 3, 4, 5, 6] headline_formats))"
  by (simp add: headline_block_def headline_patterns_def headline_formats_def heading_1_replace
    heading_pattern_def [symmetric] del: One_nat_def)

lemma headline_block_heading:
  assumes "dots t" "1 \<le> m" "m \<le> 6"
  shows "headline_block (replicate m (CHR ''#'') @ CHR '' '' # t) =
    Inr (Headline, ''<h'' @ to_string m @ ''>'' @ t @ ''</h'' @ to_string m @ ''>'')"
proof -
  have "m \<in> {1, 2, 3, 4, 5, 6}" using assms(2,3) by auto
  moreover have replace: "1 \<le> n \<Longrightarrow>
      regex_replace (replicate m (CHR ''#'') @ CHR '' '' # t) (Seq Bol (heading_pattern n)) fmt =
      (if n = m then format fmt [(1, t)] else replicate m (CHR ''#'') @ CHR '' '' # t)" for n fmt
    using heading_replace(1) [OF assms(1,2)] by blast
  moreover have kept: "1 \<le> n \<Longrightarrow>
      regex_replace (CHR ''<'' # s) (Seq Bol (heading_pattern n)) fmt = CHR ''<'' # s" for n s fmt
    using heading_replace(2) [OF assms(1,2)] by blast
  ultimately show ?thesis
    by (elim insertE emptyE)
       (simp_all only: headline_block_alt, simp_all add: headline_formats_def format_def to_string.simps
         del: replicate.simps)
qed

lemma getlines_single: "l \<noteq> [] \<Longrightarrow> d \<notin> set l \<Longrightarrow> getlines d l = [l]"
  by (induction l rule: list_nonempty_induct) auto

lemma plain_line:
  "set s \<inter> {CHR ''['', CHR ''*'', CHR ''_'', CHR ''~'', BQUOTE, CR} = {} \<Longrightarrow> run_line_parser config s = s"
  by (rule run_line_parser_plain)

lemma quote_opens:
  assumes "dots t"
  shows "get_block_parser_for_line config (''> '' @ t) = Some (new_block (Quote False False))"
proof -
  have "\<not> code_block_starts (''> '' @ t)" "\<not> headline_starts (''> '' @ t)"
    unfolding code_block_starts_def headline_starts_def regex_match_Bol matches_Times_Seq
    by (simp_all add: eval_nat_numeral)
  moreover have "\<not> horizontal_line_starts (''> '' @ t)"
    unfolding horizontal_line_starts_def horizontal_line_pattern_def regex_match_Bol matches_lits_seq by simp
  ultimately show ?thesis
    using assms by (simp add: get_block_parser_for_line_def quote_starts_iff)
qed

text \<open>
  Headlines: one to six number signs, a blank and a text without line ends give the heading
  element of that level around exactly the text; no line parser touches it.
\<close>

theorem headline_level:
  assumes "dots t" "1 \<le> m" "m \<le> 6"
  shows "markdown_parse config (replicate m (CHR ''#'') @ CHR '' '' # t) =
    Inr (''<h'' @ to_string m @ ''>'' @ t @ ''</h'' @ to_string m @ ''>'')"
proof -
  let ?l = "replicate m (CHR ''#'') @ CHR '' '' # t"
  have "LF \<notin> set ?l" using assms(1) by (auto simp: list_all_iff)
  then have lines: "getlines LF ?l = [?l]" by (intro getlines_single) simp_all
  show ?thesis
    unfolding markdown_parse_def lines
    by (simp add: heading_opens [OF assms] new_block_def add_line_other
        headline_block_heading [OF assms] open_child_def parse_line_def is_finished_def)
qed

theorem headline_level_witness:
  "markdown_parse None ''### *a* _b_'' = Inr ''<h3>*a* _b_</h3>''"
proof -
  have "to_string 3 = ''3''" by (simp add: to_string.simps)
  moreover have "replicate 3 (CHR ''#'') = ''###''" by (simp add: numeral_3_eq_3)
  ultimately show ?thesis using headline_level [of "''*a* _b_''" 3 None] by simp
qed

text \<open>Paragraphs.\<close>

lemma paragraph_add_line:
  "add_line config (Block (Paragraph False f) res None) l =
    Inr (Block (Paragraph True f) (res @ run_line_parser config (''<p>'' @ l @ '' '')) None)"
  "l \<noteq> [] \<Longrightarrow> add_line config (Block (Paragraph True f) res None) l =
    Inr (Block (Paragraph True f) (res @ run_line_parser config (l @ '' '')) None)"
  "add_line config (Block (Paragraph True f) res None) [] =
    Inr (Block (Paragraph True True) (res @ ''</p>'') None)"
  using plain_line [of "''</p>''" config]
  by (simp_all add: add_line_other paragraph_block_def open_child_def parse_line_def)

lemma paragraph_lines:
  "[] \<notin> set ls \<Longrightarrow>
    parse_lines config (Some (Block (Paragraph True False) res None)) out (ls @ rest) =
    parse_lines config (Some (Block (Paragraph True False)
      (res @ concat (map (\<lambda>l. run_line_parser config (l @ '' '')) ls)) None)) out rest"
  by (induction ls arbitrary: res) (auto simp: paragraph_add_line is_finished_def)

text \<open>
  A paragraph: a line that opens no other block, and every line after it up to an empty one, make
  one paragraph; the line parsers see each line alone, with a blank appended. The same text at the
  very end of the document, without the empty line, gives the same paragraph.
\<close>

theorem paragraph_of_lines:
  assumes "ordinary l" "\<forall>k \<in> set (l # ls). k \<noteq> [] \<and> LF \<notin> set k"
  shows "markdown_parse None (unlines (l # ls)) =
      Inr (run_line_parser None (''<p>'' @ l @ '' '')
        @ concat (map (\<lambda>k. run_line_parser None (k @ '' '')) ls) @ ''</p>'')
    \<and> markdown_parse None (unlines (l # ls) @ [LF]) = markdown_parse None (unlines (l # ls))"
proof -
  have lines: "getlines LF (unlines (l # ls) @ []) = (l # ls) @ getlines LF []"
    "getlines LF (unlines (l # ls) @ [LF]) = (l # ls) @ getlines LF [LF]"
    using getlines_unlines [of "l # ls" "[]"] getlines_unlines [of "l # ls" "[LF]"] assms(2) by blast+
  have ne: "[] \<notin> set ls" using assms(2) by auto
  have start: "parse_lines None None [] (l # ls @ rest) =
      parse_lines None (Some (Block (Paragraph True False)
        (run_line_parser None (''<p>'' @ l @ '' '')
          @ concat (map (\<lambda>k. run_line_parser None (k @ '' '')) ls)) None)) [] rest" for rest
    using assms(1) by (simp add: opens_simps new_block_def paragraph_add_line paragraph_lines [OF ne] is_finished_def)
  show ?thesis
    unfolding markdown_parse_def
    using lines start [of "[]"] start [of "[[]]"] by (simp add: paragraph_add_line is_finished_def)
qed

theorem paragraph_of_lines_witness:
  "markdown_parse None (''one'' @ [LF] @ ''*two*'' @ [LF]) = Inr ''<p>one <i>two</i> </p>''"
proof -
  have "run_line_parser None ''*two* '' = ''<i>two</i> ''" by code_simp
  moreover have "run_line_parser None ''<p>one '' = ''<p>one ''" by (rule plain_line) simp
  ultimately show ?thesis
    using paragraph_of_lines [of "''one''" "[''*two*'']"] by (simp add: ordinary_def unlines_def)
qed

text \<open>
  C37. Blocks that are not finished when the text ends are lost: a code block without its closing
  fence produces nothing, and neither does a last quote whose text is an ordinary line, although the
  end of the text feeds one empty line to the open block (the quote hands it to its paragraph).
\<close>

theorem unfinished_blocks_lost:
  assumes "\<forall>l \<in> set ls. LF \<notin> set l \<and> l \<noteq> [BQUOTE, BQUOTE, BQUOTE]" "ordinary t" "dots t"
  shows "markdown_parse None ([BQUOTE, BQUOTE, BQUOTE, LF] @ unlines ls) = Inr []
    \<and> markdown_parse None (''> '' @ t @ [LF]) = Inr []"
proof -
  let ?fence = "[BQUOTE, BQUOTE, BQUOTE]"
  have "getlines LF (unlines (?fence # ls) @ []) = (?fence # ls) @ getlines LF []"
    by (rule getlines_unlines) (use assms in auto)
  then have "getlines LF ([BQUOTE, BQUOTE, BQUOTE, LF] @ unlines ls) = ?fence # ls"
    by (simp add: unlines_def)
  moreover have "?fence \<notin> set ls" using assms by auto
  moreover have "([] :: string) \<noteq> ?fence" by simp
  ultimately have code: "markdown_parse None ([BQUOTE, BQUOTE, BQUOTE, LF] @ unlines ls) = Inr []"
    using code_lines [of ls None "''<pre><code>'' @ [LF]" "[]" "[]"]
    by (simp add: markdown_parse_def opens_simps new_block_def code_add_line is_finished_def)
  have "getlines LF (unlines [''> '' @ t] @ []) = [''> '' @ t] @ getlines LF []"
    by (rule getlines_unlines) (use assms(3) in \<open>auto simp: list_all_iff\<close>)
  then have lines: "getlines LF (''> '' @ t @ [LF]) = [''> '' @ t]" by (simp add: unlines_def)
  have opens: "get_block_parser_for_line None (''> '' @ t) = Some (new_block (Quote False False))"
    by (rule quote_opens) (use assms(3) in simp)
  have t: "\<not> starts_with ''>'' t" "t \<noteq> []" "ordinary (t @ '' '')"
    using assms(2) by (cases t; auto simp: ordinary_def)+
  have "markdown_parse None (''> '' @ t @ [LF]) = Inr []"
    using quote_block_strip(2) [OF t(1), of False False] quote_block_strip(4) [of "[]" True False] t
    unfolding markdown_parse_def lines parse_lines.simps opens option.case
    by (simp add: new_block_def add_line_quote open_child_def pad_def
        opens_simps paragraph_add_line absorb_def is_finished_def)
  with code show ?thesis by blast
qed

theorem unfinished_blocks_lost_witness:
  "markdown_parse None ([BQUOTE, BQUOTE, BQUOTE, LF] @ ''x'' @ [LF]) = Inr []
    \<and> markdown_parse None (''> text'' @ [LF]) = Inr []"
  using unfinished_blocks_lost [of "[''x'']" "''text''"] by (simp add: ordinary_def unlines_def)

text \<open>Tables.\<close>

definition row_line :: "string \<Rightarrow> bool" where
  "row_line l \<longleftrightarrow> l \<noteq> ''- | - | -'' \<and> l \<noteq> ''|<table''"

definition row_cells :: "parser_config option \<Rightarrow> string \<Rightarrow> string list" where
  "row_cells config l = map (run_line_parser config) (getlines (CHR ''|'') l)"

abbreviation open_table :: "nat \<Rightarrow> nat \<Rightarrow> string list list list \<Rightarrow> block_parser" where
  "open_table cb cr t \<equiv> Block (TableBlock True False cb cr t) [] None"

text \<open>The vector while the rows \<open>rs\<close> of a block stand after the finished blocks.\<close>

definition table_state :: "string list list list \<Rightarrow> string list list \<Rightarrow> string list list list" where
  "table_state blks rs = (if rs = [] then blks else blks @ [rs])"

lemma inc32_small: "n + 1 < 2 ^ 32 \<Longrightarrow> inc32 n = n + 1"
  by (simp add: inc32_def)

lemma table_add_row:
  assumes "row_line l" "length blks + 1 < 2 ^ 32" "length rs + 1 < 2 ^ 32"
  shows "add_line config (open_table (length blks) (length rs) (table_state blks rs)) l =
    Inr (open_table (length blks) (length rs + 1) (table_state blks (rs @ [row_cells config l])))"
  using assms
  by (auto simp: add_line_table table_add_line_def table_add_row_def row_line_def row_cells_def
      table_state_def inc32_small Let_def nth_append list_update_append)

lemma table_rows:
  assumes "list_all row_line ls" "length blks + 1 < 2 ^ 32" "length rs + length ls < 2 ^ 32"
  shows "parse_lines config (Some (open_table (length blks) (length rs) (table_state blks rs))) out (ls @ rest) =
    parse_lines config (Some (open_table (length blks) (length rs + length ls)
      (table_state blks (rs @ map (row_cells config) ls)))) out rest"
  using assms
proof (induction ls arbitrary: rs)
  case (Cons l ls)
  then have "add_line config (open_table (length blks) (length rs) (table_state blks rs)) l =
      Inr (open_table (length blks) (length rs + 1) (table_state blks (rs @ [row_cells config l])))"
    by (intro table_add_row) simp_all
  moreover have "parse_lines config (Some (open_table (length blks) (length (rs @ [row_cells config l]))
        (table_state blks (rs @ [row_cells config l])))) out (ls @ rest) =
      parse_lines config (Some (open_table (length blks) (length (rs @ [row_cells config l]) + length ls)
        (table_state blks ((rs @ [row_cells config l]) @ map (row_cells config) ls)))) out rest"
    by (rule Cons.IH) (use Cons.prems in auto)
  ultimately show ?case by (simp add: is_finished_def)
qed simp

text \<open>The lines of a table: the rows of its blocks with a separator line between the blocks.\<close>

fun table_lines :: "string list list \<Rightarrow> string list" where
  "table_lines [] = []"
| "table_lines [rows] = rows"
| "table_lines (rows # blks) = rows @ [''- | - | -''] @ table_lines blks"

lemma table_body:
  assumes "list_all (\<lambda>rows. rows \<noteq> [] \<and> list_all row_line rows \<and> length rows < 2 ^ 32) bs"
    "bs \<noteq> []" "length blks + length bs < 2 ^ 32"
  shows "parse_lines config (Some (open_table (length blks) 0 blks)) out (table_lines bs @ ''|<table'' # rest) =
    parse_lines config None (out @ table_html (blks @ map (map (row_cells config)) bs)) rest"
  using assms
proof (induction bs arbitrary: blks rule: table_lines.induct)
  case (2 rows)
  then show ?case
    using table_rows [of rows blks "[]" config out "''|<table'' # rest"]
    by (simp add: table_state_def add_line_table table_add_line_def is_finished_def)
next
  case (3 rows b bs)
  let ?blks = "blks @ [map (row_cells config) rows]"
  have "parse_lines config (Some (open_table (length ?blks) 0 ?blks)) out
        (table_lines (b # bs) @ ''|<table'' # rest) =
      parse_lines config None (out @ table_html (?blks @ map (map (row_cells config)) (b # bs))) rest"
    by (rule "3.IH") (use 3 in auto)
  moreover have "parse_lines config (Some (open_table (length blks) 0 blks)) out
      (rows @ ''- | - | -'' # table_lines (b # bs) @ ''|<table'' # rest) =
    parse_lines config (Some (open_table (length ?blks) 0 ?blks)) out
        (table_lines (b # bs) @ ''|<table'' # rest)"
    using table_rows [of rows blks "[]" config out "''- | - | -'' # table_lines (b # bs) @ ''|<table'' # rest"] 3
    by (simp add: table_state_def add_line_table table_add_line_def is_finished_def inc32_small)
  ultimately show ?case by simp
qed simp

text \<open>
  Tables: the rows between \<open>|table>\<close> and \<open>|<table\<close>, split into blocks by \<open>- | - | -\<close> lines, give
  one HTML table: with two blocks or more the first is the head, with three or more the last is the
  foot, every cell is the text between vertical bars as the line parsers rewrite it. No block may be
  empty: a row after two separators in a row is stored outside the vector.
\<close>

theorem table_layout:
  assumes "list_all (\<lambda>rows. rows \<noteq> [] \<and> list_all (\<lambda>l. row_line l \<and> LF \<notin> set l) rows \<and> length rows < 2 ^ 32) bs"
    "bs \<noteq> []" "length bs < 2 ^ 32" "row_line r" "LF \<notin> set r"
  shows "markdown_parse config (unlines (''|table>'' # table_lines bs @ [''|<table''])) =
      Inr (table_html (map (map (row_cells config)) bs))
    \<and> markdown_parse config (unlines [''|table>'', ''- | - | -'', r, ''|<table'']) = Inl BufferOverflow"
proof -
  have rows: "list_all (\<lambda>rows. rows \<noteq> [] \<and> list_all row_line rows \<and> length rows < 2 ^ 32) bs"
    using assms(1) by (auto simp: list_all_iff)
  have "\<forall>l \<in> set (table_lines bs). LF \<notin> set l"
    using assms(1) by (induction bs rule: table_lines.induct) (auto simp: list_all_iff)
  then have lines: "getlines LF (unlines (''|table>'' # table_lines bs @ [''|<table''])) =
      ''|table>'' # table_lines bs @ [''|<table'']"
    using getlines_unlines [of "''|table>'' # table_lines bs @ [''|<table'']" "[]"] by simp
  have "parse_lines config None [] (''|table>'' # table_lines bs @ [''|<table'']) =
      Inr (table_html (map (map (row_cells config)) bs))"
    using table_body [OF rows assms(2), of "[]" config "[]" "[]"] assms(3)
    by (simp add: opens_simps new_block_def add_line_table table_add_line_def is_finished_def)
  then have good: "markdown_parse config (unlines (''|table>'' # table_lines bs @ [''|<table''])) =
      Inr (table_html (map (map (row_cells config)) bs))"
    by (simp only: markdown_parse_def lines)
  have skipped: "getlines LF (unlines [''|table>'', ''- | - | -'', r, ''|<table'']) =
      [''|table>'', ''- | - | -'', r, ''|<table'']"
    using getlines_unlines [of "[''|table>'', ''- | - | -'', r, ''|<table'']" "[]"] assms(5) by simp
  have "markdown_parse config (unlines [''|table>'', ''- | - | -'', r, ''|<table'']) = Inl BufferOverflow"
    unfolding markdown_parse_def skipped parse_lines.simps option.case opens_simps
    using assms(4)
    by (simp add: new_block_def add_line_table table_add_line_def is_finished_def table_add_row_def
        row_line_def inc32_def)
  with good show ?thesis by blast
qed

theorem table_layout_witness:
  "markdown_parse None (unlines [''|table>'', ''a|b'', ''- | - | -'', ''1|2'', ''|<table'']) =
     Inr (''<table><thead><tr><th>a</th><th>b</th></tr></thead>''
       @ ''<tbody><tr><td>1</td><td>2</td></tr></tbody></table>'')"
proof -
  have "row_cells None ''a|b'' = [''a'', ''b'']" "row_cells None ''1|2'' = [''1'', ''2'']"
    by (simp_all add: row_cells_def run_line_parser_plain)
  then show ?thesis
    using table_layout [of "[[''a|b''], [''1|2'']]" "''x''" None]
    by (simp add: row_line_def table_html_def table_block_html_def table_row_html_def Let_def)
qed

text \<open>Lists.\<close>

definition plain_item :: "string \<Rightarrow> bool" where
  "plain_item t \<longleftrightarrow> t \<noteq> [] \<and> dots t \<and> \<not> closes_list t
     \<and> set t \<inter> {CHR ''['', CHR ''*'', CHR ''_'', CHR ''~'', BQUOTE, CR} = {}"

definition item_line :: "char \<times> string \<Rightarrow> string" where
  "item_line = (\<lambda>(b, t). b # CHR '' '' # t)"

lemma item_line_pair: "item_line (b, t) = b # CHR '' '' # t"
  by (simp add: item_line_def)

definition item_ok :: "char \<times> string \<Rightarrow> bool" where
  "item_ok = (\<lambda>(b, t). b \<in> set ''+*-'' \<and> plain_item t)"

lemma item_opens:
  assumes "item_ok i"
  shows "get_block_parser_for_line config (item_line i) = Some (new_block (UnorderedList False False))"
proof -
  obtain b t where i: "i = (b, t)" "b \<in> set ''+*-''" "plain_item t"
    using assms by (auto simp: item_ok_def)
  have "\<not> code_block_starts (item_line i)" "\<not> headline_starts (item_line i)"
    unfolding code_block_starts_def headline_starts_def regex_match_Bol matches_Times_Seq item_line_def i(1)
    using i(2) by (auto simp: eval_nat_numeral)
  moreover have "\<not> horizontal_line_starts (item_line i)"
    unfolding horizontal_line_starts_def horizontal_line_pattern_def regex_match_Bol matches_lits_seq
      item_line_def i(1)
    using i(2) by auto
  moreover have "\<not> checklist_starts (item_line i)"
    using checklist_starts_head [of "item_line i"] i(3)
    by (cases t) (auto simp: item_line_def i(1) plain_item_def)
  moreover have "unordered_list_starts (item_line i)"
    using i by (auto simp: unordered_list_starts_iff item_line_def plain_item_def)
  ultimately show ?thesis
    using i(2) by (auto simp: get_block_parser_for_line_def quote_starts_iff ordered_list_starts_iff
        table_starts_def item_line_def i(1))
qed

lemma bullet_removed:
  "b \<in> set ''+*-'' \<Longrightarrow>
    regex_replace (b # CHR '' '' # t) (Seq Bol (Group 1 (Seq (Ch (In ''+*-'')) (lits '' '')))) [] = t"
  by (simp add: replace_Bol matches_Ch_Seq matches_lits format_def)

lemma bullet_indentation: "b \<in> set ''+*-'' \<Longrightarrow> indentation_width (b # s) = 0"
  using mark_not_space [of b] by (auto simp: indentation_width_def)

lemma item_add_line:
  assumes "item_ok (b, t)"
  shows "add_line config (Block (UnorderedList False f) res None) (b # CHR '' '' # t) =
      Inr (Block (UnorderedList True f) (res @ ''<ul><li>'' @ t) None)"
    and "add_line config (Block (UnorderedList True f) res None) (b # CHR '' '' # t) =
      Inr (Block (UnorderedList True f) (res @ ''</li><li>'' @ t) None)"
proof -
  have b: "b \<in> set ''+*-''" and t: "plain_item t" using assms by (auto simp: item_ok_def)
  have plain: "run_line_parser config (''<ul><li>'' @ t) = ''<ul><li>'' @ t"
    "run_line_parser config (''</li><li>'' @ t) = ''</li><li>'' @ t"
    by (rule run_line_parser_plain, use t in \<open>auto simp: plain_item_def\<close>)+
  have starts: "unordered_list_starts (b # CHR '' '' # t)"
    using b t by (auto simp: unordered_list_starts_iff plain_item_def)
  have "parse_block (UnorderedList False f) (b # CHR '' '' # t) =
      Inr (UnorderedList True f, ''<ul><li>'' @ t)"
    "parse_block (UnorderedList True f) (b # CHR '' '' # t) = Inr (UnorderedList True f, ''</li><li>'' @ t)"
    using t starts
    by (simp_all only: parse_block_cases unordered_list_block_def Let_def bullet_removed [OF b]
        bullet_indentation [OF b] plain_item_def) simp_all
  with plain show "add_line config (Block (UnorderedList False f) res None) (b # CHR '' '' # t) =
      Inr (Block (UnorderedList True f) (res @ ''<ul><li>'' @ t) None)"
    "add_line config (Block (UnorderedList True f) res None) (b # CHR '' '' # t) =
      Inr (Block (UnorderedList True f) (res @ ''</li><li>'' @ t) None)"
    by (simp_all add: add_line_other open_child_def parse_line_def list_child_tag)
qed

lemma list_end_add_line:
  "add_line config (Block (UnorderedList True f) res None) [] =
    Inr (Block (UnorderedList True True) (res @ ''</li></ul>'') None)"
proof -
  have "parse_block (UnorderedList True f) [] = Inr (UnorderedList True True, ''</li></ul>'')"
    by (simp add: unordered_list_block_def indentation_width_def closes_list_def regex_replace_def)
  moreover have "run_line_parser config ''</li></ul>'' = ''</li></ul>''"
    by (rule run_line_parser_plain) simp
  ultimately show ?thesis by (simp add: add_line_other open_child_def parse_line_def list_child_tag)
qed

lemma item_lines:
  "list_all item_ok its \<Longrightarrow>
    parse_lines config (Some (Block (UnorderedList True False) res None)) out (map item_line its) =
    Inr (out @ res @ concat (map (\<lambda>(b, t). ''</li><li>'' @ t) its) @ ''</li></ul>'')"
proof (induction its arbitrary: res)
  case Nil
  then show ?case by (simp add: list_end_add_line is_finished_def)
next
  case (Cons i its)
  obtain b t where "i = (b, t)" by (cases i)
  with Cons show ?case by (simp add: item_line_def item_add_line is_finished_def)
qed

text \<open>
  An unordered list: lines that start with any of the three bullets make one list, one item per
  line, each bullet removed; the end of the text closes it.
\<close>

theorem unordered_list_items:
  assumes "list_all item_ok ((b, t) # its)"
  shows "markdown_parse config (unlines (map item_line ((b, t) # its))) =
    Inr (''<ul><li>'' @ t @ concat (map (\<lambda>(b, t). ''</li><li>'' @ t) its) @ ''</li></ul>'')"
proof -
  have "\<forall>l \<in> set (map item_line ((b, t) # its)). LF \<notin> set l"
    using assms by (fastforce simp: item_line_def item_ok_def plain_item_def list_all_iff)
  then have lines: "getlines LF (unlines (map item_line ((b, t) # its))) = map item_line ((b, t) # its)"
    using getlines_unlines [of "map item_line ((b, t) # its)" "[]"] by simp
  have first: "item_ok (b, t)" "list_all item_ok its" using assms by auto
  have "parse_lines config None [] (map item_line ((b, t) # its)) =
      Inr (''<ul><li>'' @ t @ concat (map (\<lambda>(b, t). ''</li><li>'' @ t) its) @ ''</li></ul>'')"
    unfolding list.map parse_lines.simps option.case item_opens [OF first(1)]
    using first item_lines [of its config "''<ul><li>'' @ t" "[]"]
    by (simp add: new_block_def item_line_pair item_add_line is_finished_def)
  then show ?thesis by (simp only: markdown_parse_def lines)
qed

theorem unordered_list_items_witness:
  "markdown_parse None (''* one'' @ [LF] @ ''- two'' @ [LF]) = Inr ''<ul><li>one</li><li>two</li></ul>''"
  using unordered_list_items [of "CHR ''*''" "''one''" "[(CHR ''-'', ''two'')]" None]
  by (simp add: item_ok_def plain_item_def item_line_def unlines_def closes_list_def has_str_def)

end
