(* ===== verification/Markdown_Document.thy ===== *)
theory Markdown_Document
  imports Markdown
begin

text \<open>
  What \<open>Parser::Parse\<close> makes of a whole document: an abstract syntax of documents with its source
  lines and its HTML, lists nested to any depth among them, and the proof that the parser translates
  the one into the other block by block.
\<close>

section \<open>Lists of lists\<close>

text \<open>
  A list is bulleted, with one bullet for all its items, or numbered. An item has a text and a list of
  items below it (which may be empty), whose lines are indented by two more blanks.
\<close>

datatype list_kind = Bulleted char | Numbered

datatype item = Item string list_kind "item list"

fun kind_ok :: "list_kind \<Rightarrow> bool" where
  "kind_ok (Bulleted b) \<longleftrightarrow> b \<in> set ''+*-''"
| "kind_ok Numbered \<longleftrightarrow> True"

fun marker :: "list_kind \<Rightarrow> string" where
  "marker (Bulleted b) = [b, CHR '' '']"
| "marker Numbered = ''1. ''"

fun list_tag :: "list_kind \<Rightarrow> string" where
  "list_tag (Bulleted b) = ''ul>''"
| "list_tag Numbered = ''ol>''"

definition indent_line :: "nat \<Rightarrow> list_kind \<Rightarrow> string \<Rightarrow> string" where
  "indent_line d k t = replicate (2 * d) (CHR '' '') @ marker k @ t"

fun outline_lines :: "nat \<Rightarrow> list_kind \<Rightarrow> item \<Rightarrow> string list" where
  "outline_lines d k (Item t k' its) = indent_line d k t # concat (map (outline_lines (Suc d) k') its)"

fun outline_html :: "item \<Rightarrow> string" where
  "outline_html (Item t k' its) =
     ''<li>'' @ t @ (if its = [] then [] else ''<'' @ list_tag k' @ concat (map outline_html its) @ ''</'' @ list_tag k')
     @ ''</li>''"

fun outline_ok :: "nat \<Rightarrow> list_kind \<Rightarrow> item \<Rightarrow> bool" where
  "outline_ok d k (Item t k' its) \<longleftrightarrow>
     plain_item t \<and> kind_ok k \<and> d < 2 ^ 31 \<and> length t < 2 ^ 63 \<and> list_all (outline_ok (Suc d) k') its"

subsection \<open>One list parser and a line\<close>

fun list_new :: "list_kind \<Rightarrow> block_data" where
  "list_new (Bulleted b) = UnorderedList False False"
| "list_new Numbered = OrderedList False False"

fun list_data :: "list_kind \<Rightarrow> bool \<Rightarrow> block_data" where
  "list_data (Bulleted b) f = UnorderedList True f"
| "list_data Numbered f = OrderedList True f"

definition open_tag :: "list_kind \<Rightarrow> string" where
  "open_tag k = ''<'' @ list_tag k @ ''<li>''"

definition end_tag :: "list_kind \<Rightarrow> string" where
  "end_tag k = ''</li></'' @ list_tag k"

definition unmarked :: "string \<Rightarrow> bool" where
  "unmarked s \<longleftrightarrow> set s \<inter> {CHR ''['', CHR ''*'', CHR ''_'', CHR ''~'', BQUOTE, CR} = {}"

lemma unmarked_Cons [simp]:
  "unmarked []"
  "unmarked (c # s) \<longleftrightarrow> c \<notin> {CHR ''['', CHR ''*'', CHR ''_'', CHR ''~'', BQUOTE, CR} \<and> unmarked s"
  by (auto simp: unmarked_def)

lemma unmarked_append [simp]: "unmarked (s @ t) \<longleftrightarrow> unmarked s \<and> unmarked t"
  by (auto simp: unmarked_def)

lemma unmarked_tags [simp]: "unmarked (list_tag k)" "unmarked (open_tag k)" "unmarked (end_tag k)"
  by (cases k; simp add: unmarked_def open_tag_def end_tag_def)+

lemma unmarked_line: "unmarked s \<Longrightarrow> run_line_parser config s = s"
  unfolding unmarked_def by (rule run_line_parser_plain)

lemma plain_item_unmarked: "plain_item t \<Longrightarrow> unmarked t"
  by (simp add: plain_item_def unmarked_def)

text \<open>The lines with which a list hands its end on to the lists inside it.\<close>

definition closing :: "string \<Rightarrow> bool" where
  "closing w \<longleftrightarrow> (w = [] \<or> (\<exists>w'. w = CHR ''<'' # w') \<and> closes_list w) \<and> unmarked w"

lemma closing_Nil [simp]: "closing []"
  by (simp add: closing_def unmarked_def)

lemma has_str_prefix: "has_str (p @ w) p"
proof (cases "p @ w")
  case (Cons c cs)
  then have "starts_with p (c # cs)" by (metis starts_with_iff)
  then show ?thesis by (simp add: has_str_def Cons)
qed (simp add: has_str_def)

lemma closing_end: "closing w \<Longrightarrow> closing (end_tag k @ w)"
  using has_str_prefix [of "''</li></ul>''" w] has_str_prefix [of "''</li></ol>''" w]
  by (cases k) (auto simp: closing_def closes_list_def end_tag_def unmarked_def)

lemma closing_item: "plain_item t \<Longrightarrow> closing (''</li><li>'' @ t)"
  using has_str_prefix [of "''</li><li>''" t]
  by (auto simp: closing_def closes_list_def plain_item_def unmarked_def)

lemma marker_indentation: "kind_ok k \<Longrightarrow> indentation_width (marker k @ t) = 0"
  by (cases k) (auto simp: indentation_width_def isspace_def schar_def)

lemma closing_indentation: "closing w \<Longrightarrow> indentation_width w = 0"
  by (auto simp: closing_def indentation_width_def isspace_def schar_def)

text \<open>
  The markers are taken off, also a bullet inside a numbered list; a line that has none keeps its
  text. \<open>marked\<close> says which.
\<close>

definition strip_marker :: "list_kind \<Rightarrow> string \<Rightarrow> string" where
  "strip_marker k line = (case k of
     Bulleted b \<Rightarrow> regex_replace line (Seq Bol (Group 1 (Seq (Ch (In ''+*-'')) (lits '' '')))) []
   | Numbered \<Rightarrow> regex_replace (regex_replace line (Seq Bol (lits ''1. '')) []) (Seq Bol (Group 1 (lits ''* ''))) [])"

lemma strip_marker_own:
  assumes "kind_ok k" "plain_item t"
  shows "strip_marker k (marker k @ t) = t"
proof (cases k)
  case (Bulleted b)
  with assms(1) bullet_removed [of b t] show ?thesis by (simp add: strip_marker_def del: One_nat_def)
next
  case Numbered
  have "\<not> starts_with ''* '' t"
    using assms(2) by (cases t) (auto simp: plain_item_def)
  then show ?thesis by (simp add: Numbered strip_marker_def replace_Bol_lits replace_Bol_group_lits format_def del: One_nat_def)
qed

lemma strip_marker_none:
  assumes "s = [] \<or> hd s \<notin> set ''1+*-''"
  shows "strip_marker k s = s"
proof (cases s)
  case Nil
  then show ?thesis
    by (cases k) (simp_all add: strip_marker_def regex_replace_def)
next
  case (Cons c cs)
  with assms have c: "c \<notin> set ''+*-''" "c \<noteq> CHR ''1''" "c \<noteq> CHR ''*''" by auto
  show ?thesis
  proof (cases k)
    case (Bulleted b)
    with c(1) show ?thesis by (simp add: strip_marker_def Cons replace_Bol matches_Ch_Seq del: One_nat_def)
  next
    case Numbered
    with c show ?thesis by (simp add: strip_marker_def Cons replace_Bol_lits replace_Bol_group_lits del: One_nat_def)
  qed
qed

lemma parse_block_list:
  "parse_block (list_new k) line = Inr (list_data k False, open_tag k @ strip_marker k line)"
  "parse_block (list_data k f) line =
     (if 2 \<le> indentation_width line
      then rbind (substr (strip_marker k line) 2 npos) (\<lambda>l. Inr (list_data k f, l))
      else if closes_list (strip_marker k line) then Inr (list_data k True, end_tag k @ strip_marker k line)
      else if (case k of Bulleted b \<Rightarrow> unordered_list_starts line | Numbered \<Rightarrow> ordered_item_starts line)
      then Inr (list_data k f, ''</li><li>'' @ strip_marker k line)
      else Inr (list_data k f, strip_marker k line))"
  by (cases k; simp add: unordered_list_block_def ordered_list_block_def open_tag_def end_tag_def
      strip_marker_def Let_def)+

lemma tag_stripped: "strip_marker k (CHR ''<'' # s) = CHR ''<'' # s"
  by (rule strip_marker_none) simp

lemma closing_stripped: "closing w \<Longrightarrow> strip_marker k w = w"
  by (auto simp: closing_def intro: strip_marker_none)

lemma matches_Alt_Seq: "matches (Seq (Alt p q) r) b s g = matches (Seq p r) b s g @ matches (Seq q r) b s g"
  by (simp add: matches.simps(4))

lemma ordered_item_starts_iff:
  "ordered_item_starts s \<longleftrightarrow> (starts_with ''1. '' s \<and> dots (drop 3 s)) \<or> (starts_with ''* '' s \<and> dots (drop 2 s))"
  unfolding ordered_item_starts_def regex_match_Bol matches_Alt_Seq list_ex_append lits_dots_matched
  by (simp add: eval_nat_numeral)

lemma marker_starts:
  assumes "kind_ok k" "plain_item t"
  shows "case k of Bulleted b \<Rightarrow> unordered_list_starts (marker k @ t) | Numbered \<Rightarrow> ordered_item_starts (marker k @ t)"
proof (cases k)
  case (Bulleted b)
  with assms show ?thesis by (auto simp: unordered_list_starts_iff plain_item_def)
next
  case Numbered
  with assms show ?thesis
    by (simp add: ordered_item_starts_iff plain_item_def eval_nat_numeral)
qed

lemma list_steps:
  assumes "kind_ok k" "plain_item t"
  shows "parse_block (list_new k) (marker k @ t) = Inr (list_data k False, open_tag k @ t)"
    and "parse_block (list_data k f) (marker k @ t) = Inr (list_data k f, ''</li><li>'' @ t)"
proof -
  have nc: "\<not> closes_list t" using assms(2) by (simp add: plain_item_def)
  show "parse_block (list_new k) (marker k @ t) = Inr (list_data k False, open_tag k @ t)"
    by (simp add: parse_block_list strip_marker_own [OF assms])
  show "parse_block (list_data k f) (marker k @ t) = Inr (list_data k f, ''</li><li>'' @ t)"
    using marker_starts [OF assms] nc
    by (simp add: parse_block_list strip_marker_own [OF assms] marker_indentation [OF assms(1)])
qed

lemma closing_step: "closing w \<Longrightarrow> parse_block (list_data k f) w = Inr (list_data k True, end_tag k @ w)"
  by (auto simp: parse_block_list closing_stripped closing_indentation closing_def closes_list_def)

lemma indent_line_Suc: "indent_line (Suc d) k t = CHR '' '' # CHR '' '' # indent_line d k t"
  by (simp add: indent_line_def)

lemma indent_line_0 [simp]: "indent_line 0 k t = marker k @ t"
  by (simp add: indent_line_def)

lemma indented_step:
  assumes "kind_ok k" "Suc d < 2 ^ 31" "length t < 2 ^ 63"
  shows "parse_block (list_data k' f) (indent_line (Suc d) k t) = Inr (list_data k' f, indent_line d k t)"
proof -
  have "takeWhile isspace (indent_line (Suc d) k t) = replicate (2 * Suc d) (CHR '' '')"
    using assms(1) by (cases k) (auto simp: indent_line_def takeWhile_append isspace_def schar_def)
  then have "indentation_width (indent_line (Suc d) k t) = 2 * Suc d"
    using assms(2) by (simp add: indentation_width_def)
  moreover have "strip_marker k' (indent_line (Suc d) k t) = indent_line (Suc d) k t"
    by (rule strip_marker_none) (simp add: indent_line_Suc)
  moreover have "length (marker k) \<le> 3" by (cases k) simp_all
  then have "length (indent_line d k t) \<le> npos"
    using assms(2,3) by (simp add: indent_line_def npos_def)
  then have "substr (indent_line (Suc d) k t) 2 npos = Inr (indent_line d k t)"
    by (simp add: substr_def indent_line_Suc)
  ultimately show ?thesis by (simp add: parse_block_list)
qed

subsection \<open>Towers of open lists\<close>

text \<open>
  While a list is read the parser holds a tower of open lists, the outermost first, each with the text
  it has produced so far.
\<close>

type_synonym level = "list_kind \<times> string"

fun tower :: "level list \<Rightarrow> block_parser option" where
  "tower [] = None"
| "tower ((k, r) # ls) = Some (Block (list_data k False) r (tower ls))"

text \<open>The text that closes a tower, from the inside out, and the text it holds.\<close>

fun close_text :: "level list \<Rightarrow> string" where
  "close_text [] = []"
| "close_text ((k, r) # ls) = close_text ls @ end_tag k"

definition tower_text :: "level list \<Rightarrow> string" where
  "tower_text ls = concat (map snd ls)"

text \<open>An item at depth \<open>d\<close> closes the lists below that depth, or opens one.\<close>

fun put :: "nat \<Rightarrow> list_kind \<Rightarrow> string \<Rightarrow> level list \<Rightarrow> level list" where
  "put d k t [] = [(k, open_tag k @ t)]"
| "put 0 k t ((k', r) # ls) = [(k', r @ tower_text ls @ close_text ls @ ''</li><li>'' @ t)]"
| "put (Suc d) k t (l # ls) = l # put d k t ls"

lemma list_data_simps [simp]:
  "\<not> is_table (list_data k f)" "\<not> is_quote (list_data k f)"
  "\<not> is_table (list_new k)" "\<not> is_quote (list_new k)"
  "data_finished (list_data k f) = f"
  "is_inline_block_allowed (list_data k f)" "is_line_parser_allowed (list_data k f)"
  "child_for_line config (list_data k f) line = list_child line"
  by (cases k; simp)+

lemma list_child_marker:
  "kind_ok k \<Longrightarrow> plain_item t \<Longrightarrow> list_child (marker k @ t) = Some (new_block (list_new k))"
  by (cases k) (auto simp: list_child_def ordered_list_starts_iff unordered_list_starts_iff plain_item_def)

lemma list_child_closing: "closing w \<Longrightarrow> list_child w = None"
  using list_child_tag by (auto simp: closing_def list_child_def ordered_list_starts_iff unordered_list_starts_iff)

lemma list_child_open [simp]:
  "list_child (open_tag k @ t) = None" "list_child (end_tag k @ t) = None"
  by (simp_all add: open_tag_def end_tag_def list_child_tag)

lemma open_list:
  assumes "kind_ok k" "plain_item t"
  shows "add_line config (new_block (list_new k)) (marker k @ t) = Inr (Block (list_data k False) (open_tag k @ t) None)"
  using plain_item_unmarked [OF assms(2)]
  by (simp add: new_block_def add_line_other list_steps [OF assms] open_child_def parse_line_def unmarked_line)

lemma close_tower:
  assumes "closing w"
  shows "add_line config (Block (list_data k False) r (tower ls)) w =
    Inr (Block (list_data k True) (r @ tower_text ls @ close_text ls @ end_tag k @ w) None)"
  using assms
proof (induction ls arbitrary: k r w)
  case Nil
  then have "unmarked w" by (simp add: closing_def)
  with Nil show ?case
    by (simp add: add_line_other closing_step open_child_def parse_line_def tower_text_def unmarked_line)
next
  case (Cons l ls)
  obtain k1 r1 where l: "l = (k1, r1)" by (cases l)
  show ?case
    using Cons.IH [OF closing_end [OF Cons.prems], of k1 r1 k]
    by (simp add: l add_line_other closing_step Cons.prems open_child_def absorb_def is_finished_def tower_text_def)
qed

lemma tower_text_simps [simp]: "tower_text [] = []" "tower_text ((k, r) # ls) = r @ tower_text ls"
  by (simp_all add: tower_text_def)

lemma put_line:
  assumes "kind_ok k" "plain_item t" "length t < 2 ^ 63"
    and "d \<le> length ls" "d < 2 ^ 31" "d < length ls \<Longrightarrow> fst (ls ! d) = k" "ls \<noteq> []"
  shows "add_line config (the (tower ls)) (indent_line d k t) = Inr (the (tower (put d k t ls)))"
  using assms
proof (induction d k t ls rule: put.induct)
  case (2 k t k' r ls)
  note item = "2.prems"(1,2) and same = "2.prems"(6)
  show ?case
  proof (cases ls)
    case Nil
    have "unmarked (''</li><li>'' @ t)" using plain_item_unmarked [OF item(2)] by (simp add: unmarked_def)
    with item same show ?thesis
      by (simp add: Nil add_line_other list_steps open_child_def parse_line_def unmarked_line list_child_tag)
  next
    case (Cons l ls')
    obtain k1 r1 where l: "l = (k1, r1)" by (cases l)
    show ?thesis
      using close_tower [OF closing_item [OF item(2)], of config k1 r1 ls'] item same
      by (simp add: Cons l add_line_other list_steps open_child_def absorb_def is_finished_def)
  qed
next
  case (3 d k t l ls)
  obtain k' r where l: "l = (k', r)" by (cases l)
  have step: "parse_block (list_data k' False) (indent_line (Suc d) k t) = Inr (list_data k' False, indent_line d k t)"
    by (rule indented_step) (use "3.prems" in simp_all)
  show ?case
  proof (cases ls)
    case Nil
    with 3 have "d = 0" by simp
    then show ?thesis
      using step "3.prems"(1,2)
      by (simp add: l Nil add_line_other open_child_def list_child_marker open_list absorb_def is_finished_def)
  next
    case (Cons l' ls')
    obtain k1 r1 where l': "l' = (k1, r1)" by (cases l')
    have "add_line config (the (tower ls)) (indent_line d k t) = Inr (the (tower (put d k t ls)))"
      using "3.prems" by (intro "3.IH") (auto simp: Cons)
    moreover have "\<exists>k2 r2 ls2. put d k t ls = (k2, r2) # ls2" by (cases d; simp add: Cons l')
    ultimately show ?thesis
      using step by (auto simp: l Cons l' add_line_other open_child_def absorb_def is_finished_def)
  qed
qed simp

lemma marker_opens:
  assumes "kind_ok k" "plain_item t"
  shows "get_block_parser_for_line config (marker k @ t) = Some (new_block (list_new k))"
proof (cases k)
  case (Bulleted b)
  with assms item_opens [of "(b, t)" config] show ?thesis by (simp add: item_ok_def item_line_def)
next
  case Numbered
  have "\<not> code_block_starts (''1. '' @ t)" "\<not> headline_starts (''1. '' @ t)"
    unfolding code_block_starts_def headline_starts_def regex_match_Bol matches_Times_Seq
    by (simp_all add: eval_nat_numeral)
  moreover have "\<not> horizontal_line_starts (''1. '' @ t)"
    unfolding horizontal_line_starts_def horizontal_line_pattern_def regex_match_Bol matches_lits_seq by simp
  moreover have "\<not> checklist_starts (''1. '' @ t)" using checklist_starts_head [of "''1. '' @ t"] by auto
  ultimately show ?thesis
    using assms(2) Numbered
    by (simp add: get_block_parser_for_line_def quote_starts_iff table_starts_def ordered_list_starts_iff plain_item_def)
qed

lemma tower_Some: "ls \<noteq> [] \<Longrightarrow> tower ls = Some (the (tower ls)) \<and> \<not> is_finished (the (tower ls))"
  by (cases ls rule: tower.cases) (simp_all add: is_finished_def)

lemma put_not_Nil [simp]: "put d k t ls \<noteq> []"
  by (cases "(d, k, t, ls)" rule: put.cases) auto

lemma parse_put:
  assumes "kind_ok k" "plain_item t" "length t < 2 ^ 63"
    and "d \<le> length ls" "d < 2 ^ 31" "d < length ls \<Longrightarrow> fst (ls ! d) = k"
  shows "parse_lines config (tower ls) out (indent_line d k t # rest)
    = parse_lines config (tower (put d k t ls)) out rest"
proof -
  have "(case tower ls of None \<Rightarrow> get_block_parser_for_line config (indent_line d k t) | Some b \<Rightarrow> Some b)
      = Some (if ls = [] then new_block (list_new k) else the (tower ls))"
    using marker_opens [OF assms(1,2)] assms(4) tower_Some [of ls] by (cases "ls = []") (auto split: option.split)
  moreover have "add_line config (if ls = [] then new_block (list_new k) else the (tower ls)) (indent_line d k t)
      = Inr (the (tower (put d k t ls)))"
    using open_list [OF assms(1,2)] put_line [OF assms] assms(4) by (cases "ls = []") auto
  ultimately show ?thesis
    using tower_Some [of "put d k t ls"] by auto
qed

subsection \<open>Whole outlines\<close>

lemma put_text:
  "d \<le> length ls \<Longrightarrow> tower_text (put d k t ls) =
    (if d < length ls then tower_text ls @ close_text (drop (Suc d) ls) @ ''</li><li>'' @ t
     else tower_text ls @ open_tag k @ t)"
  by (induction d k t ls rule: put.induct) auto

lemma length_put: "d \<le> length ls \<Longrightarrow> length (put d k t ls) = Suc d"
  by (induction d k t ls rule: put.induct) auto

lemma put_kinds:
  "d \<le> length ls \<Longrightarrow> i < d \<Longrightarrow> fst (put d k t ls ! i) = fst (ls ! i)"
  "d \<le> length ls \<Longrightarrow> (d < length ls \<Longrightarrow> fst (ls ! d) = k) \<Longrightarrow> fst (put d k t ls ! d) = k"
  by (induction d k t ls arbitrary: i rule: put.induct) (auto simp: nth_Cons split: nat.splits)

text \<open>What stands before the next item at depth \<open>d\<close>, once the deeper lists are closed.\<close>

definition before :: "nat \<Rightarrow> list_kind \<Rightarrow> level list \<Rightarrow> string" where
  "before d k ls =
     (if d < length ls then tower_text ls @ close_text (drop (Suc d) ls) @ ''</li>''
      else tower_text ls @ ''<'' @ list_tag k)"

definition outline_step :: "parser_config option \<Rightarrow> nat \<Rightarrow> list_kind \<Rightarrow> string list \<Rightarrow> string \<Rightarrow> bool" where
  "outline_step config d k lines html \<longleftrightarrow>
     (\<forall>ls out rest. d \<le> length ls \<longrightarrow> (d < length ls \<longrightarrow> fst (ls ! d) = k) \<longrightarrow>
       (\<exists>ls'. parse_lines config (tower ls) out (lines @ rest) = parse_lines config (tower ls') out rest
          \<and> d < length ls' \<and> fst (ls' ! d) = k \<and> (\<forall>i < d. fst (ls' ! i) = fst (ls ! i))
          \<and> before d k ls' = before d k ls @ html))"

lemma outline_stepD:
  assumes "outline_step config d k lines html" "d \<le> length ls" "d < length ls \<Longrightarrow> fst (ls ! d) = k"
  obtains ls' where "parse_lines config (tower ls) out (lines @ rest) = parse_lines config (tower ls') out rest"
    "d < length ls'" "fst (ls' ! d) = k" "\<forall>i < d. fst (ls' ! i) = fst (ls ! i)" "before d k ls' = before d k ls @ html"
  using assms unfolding outline_step_def by blast

lemma outline_step_append:
  assumes "outline_step config d k l1 h1" "outline_step config d k l2 h2"
  shows "outline_step config d k (l1 @ l2) (h1 @ h2)"
  unfolding outline_step_def
proof (intro allI impI)
  fix ls :: "level list" and out rest
  assume ls: "d \<le> length ls" "d < length ls \<longrightarrow> fst (ls ! d) = k"
  obtain ls1 where 1: "parse_lines config (tower ls) out (l1 @ l2 @ rest) = parse_lines config (tower ls1) out (l2 @ rest)"
    "d < length ls1" "fst (ls1 ! d) = k" "\<forall>i < d. fst (ls1 ! i) = fst (ls ! i)" "before d k ls1 = before d k ls @ h1"
    using outline_stepD [OF assms(1) ls(1)] ls(2) by blast
  obtain ls2 where "parse_lines config (tower ls1) out (l2 @ rest) = parse_lines config (tower ls2) out rest"
    "d < length ls2" "fst (ls2 ! d) = k" "\<forall>i < d. fst (ls2 ! i) = fst (ls1 ! i)" "before d k ls2 = before d k ls1 @ h2"
    using outline_stepD [OF assms(2), of ls1] 1(2,3) by (metis less_imp_le)
  with 1 show "\<exists>ls'. parse_lines config (tower ls) out ((l1 @ l2) @ rest) = parse_lines config (tower ls') out rest
      \<and> d < length ls' \<and> fst (ls' ! d) = k \<and> (\<forall>i < d. fst (ls' ! i) = fst (ls ! i))
      \<and> before d k ls' = before d k ls @ h1 @ h2"
    by (intro exI [of _ ls2]) simp
qed

lemma outline_steps:
  "its \<noteq> [] \<Longrightarrow> (\<And>it. it \<in> set its \<Longrightarrow> outline_step config d k (outline_lines d k it) (outline_html it)) \<Longrightarrow>
    outline_step config d k (concat (map (outline_lines d k) its)) (concat (map outline_html its))"
proof (induction its rule: list_nonempty_induct)
  case (cons it its)
  have "outline_step config d k (outline_lines d k it @ concat (map (outline_lines d k) its))
      (outline_html it @ concat (map outline_html its))"
    by (rule outline_step_append) (use cons in auto)
  then show ?case by simp
qed simp

lemma before_put:
  assumes "d \<le> length ls"
  shows "before d k (put d k t ls) = before d k ls @ ''<li>'' @ t @ ''</li>''"
    and "before (Suc d) k' (put d k t ls) = before d k ls @ ''<li>'' @ t @ ''<'' @ list_tag k'"
  using put_text [OF assms, of k t] length_put [OF assms, of k t]
  by (auto simp: before_def open_tag_def)

lemma before_up:
  assumes "Suc d < length ls" "fst (ls ! Suc d) = k'"
  shows "before d k ls = before (Suc d) k' ls @ ''</'' @ list_tag k' @ ''</li>''"
proof -
  have "drop (Suc d) ls = (k', snd (ls ! Suc d)) # drop (Suc (Suc d)) ls"
    using Cons_nth_drop_Suc [OF assms(1)] assms(2) by (metis prod.collapse)
  then show ?thesis using assms(1) by (simp add: before_def end_tag_def)
qed

lemma outline_item:
  "outline_ok d k it \<Longrightarrow> outline_step config d k (outline_lines d k it) (outline_html it)"
proof (induction it arbitrary: d k)
  case (Item t k' its)
  have item: "kind_ok k" "plain_item t" "length t < 2 ^ 63" "d < 2 ^ 31"
    and sub: "list_all (outline_ok (Suc d) k') its"
    using Item.prems by simp_all
  show ?case
    unfolding outline_step_def
  proof (intro allI impI)
    fix ls :: "level list" and out rest
    assume ls: "d \<le> length ls" "d < length ls \<longrightarrow> fst (ls ! d) = k"
    let ?ls1 = "put d k t ls" and ?below = "concat (map (outline_lines (Suc d) k') its)"
    have put: "parse_lines config (tower ls) out (indent_line d k t # ?below @ rest) =
        parse_lines config (tower ?ls1) out (?below @ rest)"
      by (rule parse_put [OF item(1-3) ls(1) item(4)]) (use ls(2) in blast)
    have kinds: "fst (?ls1 ! d) = k" "i < d \<Longrightarrow> fst (?ls1 ! i) = fst (ls ! i)" for i
      using put_kinds [OF ls(1)] ls(2) by blast+
    have len: "length ?ls1 = Suc d" by (rule length_put [OF ls(1)])
    show "\<exists>ls'. parse_lines config (tower ls) out (outline_lines d k (Item t k' its) @ rest) = parse_lines config (tower ls') out rest
        \<and> d < length ls' \<and> fst (ls' ! d) = k \<and> (\<forall>i < d. fst (ls' ! i) = fst (ls ! i))
        \<and> before d k ls' = before d k ls @ outline_html (Item t k' its)"
    proof (cases "its = []")
      case True
      with put kinds len before_put(1) [OF ls(1)] show ?thesis by (intro exI [of _ ?ls1]) simp
    next
      case False
      have "outline_step config (Suc d) k' ?below (concat (map outline_html its))"
        by (rule outline_steps [OF False]) (use Item.IH sub in \<open>auto simp: list_all_iff\<close>)
      then obtain ls2 where 2: "parse_lines config (tower ?ls1) out (?below @ rest) = parse_lines config (tower ls2) out rest"
        "Suc d < length ls2" "fst (ls2 ! Suc d) = k'" "\<forall>i < Suc d. fst (ls2 ! i) = fst (?ls1 ! i)"
        "before (Suc d) k' ls2 = before (Suc d) k' ?ls1 @ concat (map outline_html its)"
        using outline_stepD [of config "Suc d" k' ?below _ ?ls1] len by (metis le_refl less_irrefl)
      with put kinds before_put(2) [OF ls(1)] before_up [OF 2(2,3)] False show ?thesis
        by (intro exI [of _ ls2]) simp
    qed
  qed
qed

text \<open>A list that starts on its own and is closed by an empty line.\<close>

lemma parse_outline:
  assumes "its \<noteq> []" "list_all (outline_ok 0 k) its"
  shows "parse_lines config None out (concat (map (outline_lines 0 k) its) @ [] # rest) =
    parse_lines config None (out @ ''<'' @ list_tag k @ concat (map outline_html its) @ ''</'' @ list_tag k) rest"
proof -
  have "outline_step config 0 k (concat (map (outline_lines 0 k) its)) (concat (map outline_html its))"
    using assms by (intro outline_steps) (auto simp: list_all_iff intro: outline_item)
  from outline_stepD [OF this, of "[]" out "[] # rest"] obtain ls where
    ls: "parse_lines config None out (concat (map (outline_lines 0 k) its) @ [] # rest) =
        parse_lines config (tower ls) out ([] # rest)"
      "0 < length ls" "fst (ls ! 0) = k"
      "before 0 k ls = ''<'' @ list_tag k @ concat (map outline_html its)"
    by (auto simp: before_def)
  then obtain r ls' where l: "ls = (k, r) # ls'" by (cases ls) auto
  have "r @ tower_text ls' @ close_text ls' @ end_tag k = ''<'' @ list_tag k @ concat (map outline_html its) @ ''</'' @ list_tag k"
    using ls(4) by (simp add: l before_def end_tag_def)
  with ls(1) close_tower [of "[]" config k r ls'] show ?thesis
    by (simp add: l is_finished_def)
qed

section \<open>Check lists\<close>

fun task_line :: "bool \<times> string \<Rightarrow> string" where
  "task_line (ticked, t) = ''- ['' @ (if ticked then ''x'' else '' '') @ ''] '' @ t"

fun task_box :: "bool \<Rightarrow> string" where
  "task_box ticked = ''<input type='' @ [DQUOTE] @ ''checkbox'' @ [DQUOTE]
     @ (if ticked then '' checked='' @ [DQUOTE] @ ''checked'' @ [DQUOTE] else []) @ ''/>''"

fun task_text :: "bool \<times> string \<Rightarrow> string" where
  "task_text (ticked, t) = task_box ticked @ '' '' @ t"

fun task_html :: "bool \<times> string \<Rightarrow> string" where
  "task_html (ticked, t) = ''<li><label>'' @ task_box ticked @ '' '' @ t @ ''</label></li>''"

fun task_ok :: "bool \<times> string \<Rightarrow> bool" where
  "task_ok (ticked, t) \<longleftrightarrow> dots t \<and> unmarked t \<and> CHR ''<'' \<notin> set t"

definition checklist_tag :: string where
  "checklist_tag = ''<ul class='' @ [DQUOTE] @ ''checklist'' @ [DQUOTE] @ ''>''"

lemma task_starts:
  assumes "task_ok i"
  shows "checklist_starts (task_line i)"
proof -
  obtain x t where i: "i = (x, t)" by (cases i)
  with assms have "dots t" by simp
  then have tail: "list_ex (\<lambda>(u, v, g). v = []) (matches (Seq (lits ''] '') (Many Dot)) False (''] '' @ t) [])"
    unfolding lits_dots_matched by simp
  have "matches (Seq (lits ''- ['') (Seq (Ch (In ''x| '')) (Seq (lits ''] '') (Many Dot)))) True (task_line i) [] =
      map (\<lambda>(u, v, h). (''- ['' @ (if x then CHR ''x'' else CHR '' '') # u, v, h))
        (matches (Seq (lits ''] '') (Many Dot)) False (''] '' @ t) [])"
    by (subst matches_lits_seq) (simp add: i matches_Ch_Seq comp_def split_beta)
  then show ?thesis
    unfolding checklist_starts_def regex_match_Bol using tail by (simp add: list_ex_iff split_beta)
qed

lemma task_opens:
  assumes "task_ok i"
  shows "get_block_parser_for_line config (task_line i) = Some (new_block (Checklist False False))"
proof -
  obtain c s where l: "task_line i = CHR ''-'' # CHR '' '' # c # s" by (cases i) auto
  have "\<not> code_block_starts (task_line i)" "\<not> headline_starts (task_line i)"
    unfolding code_block_starts_def headline_starts_def regex_match_Bol matches_Times_Seq l
    by (simp_all add: eval_nat_numeral)
  moreover have "\<not> horizontal_line_starts (task_line i)"
    unfolding horizontal_line_starts_def horizontal_line_pattern_def regex_match_Bol matches_lits_seq l by simp
  ultimately show ?thesis
    using task_starts [OF assms] by (simp add: get_block_parser_for_line_def quote_starts_iff table_starts_def l)
qed

lemma no_tag_inside:
  assumes "CHR ''<'' \<notin> set s"
  shows "\<not> has_str (CHR ''<'' # CHR ''i'' # s) (CHR ''<'' # CHR ''/'' # p)"
proof
  assume "has_str (CHR ''<'' # CHR ''i'' # s) (CHR ''<'' # CHR ''/'' # p)"
  then obtain u v where "CHR ''<'' # CHR ''i'' # s = u @ (CHR ''<'' # CHR ''/'' # p) @ v"
    by (auto simp only: has_str_def dest!: find_str_Some)
  with assms show False by (cases u; cases "tl u") auto
qed

lemma task_block:
  assumes "task_ok i"
  shows "checklist_block False f (task_line i) = Inr (Checklist True f, checklist_tag @ ''<li><label>'' @ task_text i)"
    and "checklist_block True f (task_line i) = Inr (Checklist True f, ''</label></li><li><label>'' @ task_text i)"
proof -
  obtain x t where i: "i = (x, t)" by (cases i)
  have "indentation_width (task_line i) = 0"
    by (simp add: i indentation_width_def isspace_def schar_def)
  moreover have "\<not> has_str (task_text i) ''</label></li><li><label>''" "\<not> has_str (task_text i) ''</label></li></ul>''"
    using assms no_tag_inside [of "tl (tl (task_text i))"] by (simp_all add: i)
  moreover note task_starts [OF assms]
  ultimately show "checklist_block False f (task_line i) = Inr (Checklist True f, checklist_tag @ ''<li><label>'' @ task_text i)"
    "checklist_block True f (task_line i) = Inr (Checklist True f, ''</label></li><li><label>'' @ task_text i)"
    by (cases x; simp add: i checklist_block_def Let_def replace_Bol_group_lits replace_Bol_lits format_def
        checklist_tag_def del: One_nat_def)+
qed

lemma unmarked_task [simp]: "task_ok i \<Longrightarrow> unmarked (task_text i)"
  by (cases i) (simp add: unmarked_def)

lemma unmarked_checklist_tag [simp]: "unmarked checklist_tag"
  by (simp add: checklist_tag_def unmarked_def)

lemma task_add_line:
  assumes "task_ok i"
  shows "add_line config (new_block (Checklist False False)) (task_line i) =
      Inr (Block (Checklist True False) (checklist_tag @ ''<li><label>'' @ task_text i) None)"
    and "add_line config (Block (Checklist True False) res None) (task_line i) =
      Inr (Block (Checklist True False) (res @ ''</label></li><li><label>'' @ task_text i) None)"
proof -
  have tag: "checklist_tag = CHR ''<'' # tl checklist_tag" by (simp add: checklist_tag_def)
  have "checklist_child (checklist_tag @ s) = None" for s
    by (subst tag) (simp add: checklist_child_tag)
  moreover have "run_line_parser config (checklist_tag @ ''<li><label>'' @ task_text i) = checklist_tag @ ''<li><label>'' @ task_text i"
    "run_line_parser config (''</label></li><li><label>'' @ task_text i) = ''</label></li><li><label>'' @ task_text i"
    using assms by (simp_all add: unmarked_line)
  ultimately show "add_line config (new_block (Checklist False False)) (task_line i) =
      Inr (Block (Checklist True False) (checklist_tag @ ''<li><label>'' @ task_text i) None)"
    "add_line config (Block (Checklist True False) res None) (task_line i) =
      Inr (Block (Checklist True False) (res @ ''</label></li><li><label>'' @ task_text i) None)"
    by (simp_all add: new_block_def add_line_other task_block [OF assms] open_child_def parse_line_def checklist_child_tag)
qed

lemma task_end:
  "add_line config (Block (Checklist True f) res None) [] =
    Inr (Block (Checklist True True) (res @ ''</label></li></ul>'') None)"
proof -
  have "parse_block (Checklist True f) [] = Inr (Checklist True True, ''</label></li></ul>'')"
    by (simp add: checklist_block_def indentation_width_def regex_replace_def)
  moreover have "run_line_parser config ''</label></li></ul>'' = ''</label></li></ul>''"
    by (rule run_line_parser_plain) simp
  ultimately show ?thesis by (simp add: add_line_other open_child_def parse_line_def checklist_child_tag)
qed

lemma task_lines:
  "list_all task_ok ts \<Longrightarrow>
    parse_lines config (Some (Block (Checklist True False) res None)) out (map task_line ts @ [] # rest) =
    parse_lines config None (out @ res @ concat (map (\<lambda>i. ''</label></li><li><label>'' @ task_text i) ts)
      @ ''</label></li></ul>'') rest"
  by (induction ts arbitrary: res) (simp_all add: task_end task_add_line is_finished_def)

lemma task_html_text: "task_html i = ''<li><label>'' @ task_text i @ ''</label></li>''"
  by (cases i) simp

lemma task_shift:
  "concat (map (\<lambda>i. ''</label></li><li><label>'' @ task_text i) ts) @ ''</label></li>'' @ s =
    ''</label></li>'' @ concat (map task_html ts) @ s"
  by (induction ts) (simp_all add: task_html_text)

lemma parse_tasks:
  assumes "ts \<noteq> []" "list_all task_ok ts"
  shows "parse_lines config None out (map task_line ts @ [] # rest) =
    parse_lines config None (out @ checklist_tag @ concat (map task_html ts) @ ''</ul>'') rest"
proof -
  obtain i js where ts: "ts = i # js" using assms(1) by (cases ts) auto
  have "parse_lines config None out (map task_line ts @ [] # rest) = parse_lines config None (out @
      (checklist_tag @ ''<li><label>'' @ task_text i)
      @ concat (map (\<lambda>i. ''</label></li><li><label>'' @ task_text i) js) @ ''</label></li></ul>'') rest"
    using assms(2) by (simp add: ts task_opens task_add_line is_finished_def task_lines)
  also have "concat (map (\<lambda>i. ''</label></li><li><label>'' @ task_text i) js) @ ''</label></li></ul>''
      = ''</label></li>'' @ concat (map task_html js) @ ''</ul>''"
    using task_shift [of js "''</ul>''"] by simp
  finally show ?thesis by (simp add: ts task_html_text)
qed

section \<open>Documents\<close>

datatype doc_block =
    Heading nat string
  | Rule
  | Code "string list"
  | Para string "string list"
  | Outline list_kind "item list"
  | Tasks "(bool \<times> string) list"
  | Grid "string list list"
  | Quoted string "string list"
  | Blank

definition fence :: string where
  "fence = [BQUOTE, BQUOTE, BQUOTE]"

fun block_lines :: "doc_block \<Rightarrow> string list" where
  "block_lines (Heading m t) = [replicate m (CHR ''#'') @ CHR '' '' # t]"
| "block_lines Rule = [''---'']"
| "block_lines (Code ls) = fence # ls @ [fence]"
| "block_lines (Para l ls) = l # ls @ [[]]"
| "block_lines (Outline k its) = concat (map (outline_lines 0 k) its) @ [[]]"
| "block_lines (Tasks ts) = map task_line ts @ [[]]"
| "block_lines (Grid bs) = ''|table>'' # table_lines bs @ [''|<table'']"
| "block_lines (Quoted l ls) = map (\<lambda>k. ''> '' @ k) (l # ls) @ [[], []]"
| "block_lines Blank = [[]]"

text \<open>The HTML; \<open>inline\<close> stands for the line parsers.\<close>

fun block_html :: "(string \<Rightarrow> string) \<Rightarrow> doc_block \<Rightarrow> string" where
  "block_html inline (Heading m t) = ''<h'' @ to_string m @ ''>'' @ t @ ''</h'' @ to_string m @ ''>''"
| "block_html inline Rule = ''<hr/>''"
| "block_html inline (Code ls) = ''<pre><code>'' @ [LF] @ unlines ls @ ''</code></pre>''"
| "block_html inline (Para l ls) =
     inline (''<p>'' @ l @ '' '') @ concat (map (\<lambda>k. inline (k @ '' '')) ls) @ ''</p>''"
| "block_html inline (Outline k its) =
     ''<'' @ list_tag k @ concat (map outline_html its) @ ''</'' @ list_tag k"
| "block_html inline (Tasks ts) = checklist_tag @ concat (map task_html ts) @ ''</ul>''"
| "block_html inline (Grid bs) = table_html (map (map (\<lambda>l. map inline (getlines (CHR ''|'') l))) bs)"
| "block_html inline (Quoted l ls) =
     ''<blockquote>'' @ inline (''<p>'' @ l @ ''  '') @ concat (map (\<lambda>k. inline (k @ ''  '')) ls) @ ''</p></blockquote>''"
| "block_html inline Blank = []"

fun block_ok :: "doc_block \<Rightarrow> bool" where
  "block_ok (Heading m t) \<longleftrightarrow> dots t \<and> 1 \<le> m \<and> m \<le> 6"
| "block_ok (Code ls) \<longleftrightarrow> fence \<notin> set ls"
| "block_ok (Para l ls) \<longleftrightarrow> ordinary l \<and> [] \<notin> set ls"
| "block_ok (Outline k its) \<longleftrightarrow> its \<noteq> [] \<and> list_all (outline_ok 0 k) its"
| "block_ok (Tasks ts) \<longleftrightarrow> ts \<noteq> [] \<and> list_all task_ok ts"
| "block_ok (Grid bs) \<longleftrightarrow> bs \<noteq> [] \<and> length bs < 2 ^ 32
     \<and> list_all (\<lambda>rows. rows \<noteq> [] \<and> list_all row_line rows \<and> length rows < 2 ^ 32) bs"
| "block_ok (Quoted l ls) \<longleftrightarrow> ordinary l \<and> dots l \<and> list_all (\<lambda>k. k \<noteq> [] \<and> \<not> starts_with ''>'' k) ls"
| "block_ok b \<longleftrightarrow> True"

definition doc_lines :: "doc_block list \<Rightarrow> string list" where
  "doc_lines bs = concat (map block_lines bs)"

definition doc_html :: "doc_block list \<Rightarrow> string" where
  "doc_html bs = concat (map (block_html (run_line_parser None)) bs)"

definition doc_ok :: "doc_block list \<Rightarrow> bool" where
  "doc_ok bs \<longleftrightarrow> list_all block_ok bs \<and> list_all (\<lambda>l. LF \<notin> set l) (doc_lines bs)"

lemma empty_opens: "get_block_parser_for_line None [] = None"
proof -
  have "\<not> horizontal_line_starts []" "\<not> code_block_starts []" "\<not> headline_starts []" "\<not> checklist_starts []"
    by code_simp+
  then show ?thesis
    by (simp add: get_block_parser_for_line_def quote_starts_iff table_starts_def ordered_list_starts_iff
        unordered_list_starts_iff paragraph_starts_def)
qed

lemma rule_opens: "get_block_parser_for_line config ''---'' = Some (new_block HorizontalLine)"
proof -
  have "horizontal_line_starts ''---''" "\<not> code_block_starts ''---''" "\<not> headline_starts ''---''"
    by code_simp+
  then show ?thesis by (simp add: get_block_parser_for_line_def)
qed

lemma rule_add_line: "add_line config (new_block HorizontalLine) ''---'' = Inr (Block HorizontalLine ''<hr/>'' None)"
proof -
  have "regex_replace ''---'' horizontal_line_pattern [Text ''<hr/>''] = ''<hr/>''" by code_simp
  then show ?thesis
    by (simp add: new_block_def add_line_other horizontal_line_block_def open_child_def parse_line_def)
qed

text \<open>A quote around one paragraph; the quote pads every line with a blank, the paragraph with another.\<close>

abbreviation quote_with :: "string \<Rightarrow> block_parser" where
  "quote_with r \<equiv> Block (Quote True False) ''<blockquote>'' (Some (Block (Paragraph True False) r None))"

lemma quote_text:
  "\<not> starts_with ''>'' k \<Longrightarrow> k \<noteq> [] \<Longrightarrow> parse_block (Quote s f) (''> '' @ k) = Inr (Quote s f, k @ '' '')"
  "parse_block (Quote s f) [] = Inr (Quote s f, [])"
  using quote_block_strip(2) [of k s f] quote_block_strip(4) [of "[]" s f] by (simp_all add: pad_def)

lemma ordinary_pad: "ordinary l \<Longrightarrow> ordinary (l @ '' '')" "ordinary l \<Longrightarrow> \<not> starts_with ''>'' l" "ordinary l \<Longrightarrow> l \<noteq> []"
  by (cases l; auto simp: ordinary_def)+

lemma quote_first:
  "ordinary l \<Longrightarrow> add_line None (new_block (Quote False False)) (''> '' @ l) =
    Inr (quote_with (run_line_parser None (''<p>'' @ l @ ''  '')))"
  using ordinary_opens [OF ordinary_pad(1), of l] ordinary_pad(2,3) [of l]
  by (simp add: new_block_def add_line_quote quote_text(1) [simplified] open_child_def paragraph_add_line absorb_def is_finished_def)

lemma quote_more:
  "k \<noteq> [] \<Longrightarrow> \<not> starts_with ''>'' k \<Longrightarrow> add_line None (quote_with r) (''> '' @ k) =
    Inr (quote_with (r @ run_line_parser None (k @ ''  '')))"
  by (simp add: add_line_quote quote_text(1) [simplified] open_child_def paragraph_add_line absorb_def is_finished_def)

lemma quote_lines:
  "list_all (\<lambda>k. k \<noteq> [] \<and> \<not> starts_with ''>'' k) ls \<Longrightarrow>
    parse_lines None (Some (quote_with r)) out (map (\<lambda>k. ''> '' @ k) ls @ [] # [] # rest) =
    parse_lines None None (out @ ''<blockquote>'' @ r @ concat (map (\<lambda>k. run_line_parser None (k @ ''  '')) ls)
      @ ''</p></blockquote>'') rest"
proof (induction ls arbitrary: r)
  case Nil
  have "add_line None (Block (Quote True False) s None) [] = Inr (Block (Quote True True) (s @ ''</blockquote>'') None)" for s
    using plain_line [of "[]" None]
    by (simp add: add_line_quote quote_text(2) [simplified] open_child_def empty_opens parse_line_def)
  then show ?case
    by (simp add: add_line_quote quote_text(2) [simplified] open_child_def paragraph_add_line absorb_def is_finished_def)
next
  case (Cons k ls)
  then show ?case using quote_more [of k r] by (simp add: is_finished_def)
qed

lemma block_step:
  assumes "block_ok b"
  shows "parse_lines None None out (block_lines b @ rest)
    = parse_lines None None (out @ block_html (run_line_parser None) b) rest"
proof (cases b)
  case (Heading m t)
  with assms have h: "dots t" "1 \<le> m" "m \<le> 6" by simp_all
  show ?thesis
    by (simp add: Heading heading_opens [OF h] new_block_def add_line_other headline_block_heading [OF h]
        open_child_def parse_line_def is_finished_def)
next
  case Rule
  then show ?thesis by (simp add: rule_opens rule_add_line is_finished_def)
next
  case (Code ls)
  with assms show ?thesis
    by (simp add: fence_def opens_simps new_block_def code_add_line code_lines is_finished_def)
next
  case (Para l ls)
  with assms show ?thesis
    by (simp add: opens_simps new_block_def paragraph_add_line paragraph_lines is_finished_def)
next
  case (Outline k its)
  with assms show ?thesis by (simp add: parse_outline)
next
  case (Tasks ts)
  with assms show ?thesis by (simp add: parse_tasks)
next
  case (Grid bs)
  with assms show ?thesis
    using table_body [of bs "[]" None out rest]
    by (simp add: opens_simps new_block_def add_line_table table_add_line_def is_finished_def
        row_cells_def [abs_def])
next
  case (Quoted l ls)
  with assms have "get_block_parser_for_line None (''> '' @ l) = Some (new_block (Quote False False))"
    by (intro quote_opens) simp
  with Quoted assms quote_first [of l] show ?thesis
    by (simp add: is_finished_def quote_lines)
next
  case Blank
  then show ?thesis by (simp add: empty_opens)
qed

lemma doc_steps:
  "list_all block_ok bs \<Longrightarrow>
    parse_lines None None out (doc_lines bs @ rest) = parse_lines None None (out @ doc_html bs) rest"
  by (induction bs arbitrary: out) (simp_all add: doc_lines_def doc_html_def block_step)

section \<open>Properties\<close>

text \<open>
  The Markdown parser translates a document block by block: for every document of headings,
  rules, code, paragraphs, nested lists, check lists, tables and quoted paragraphs, the text that
  spells it out is parsed, without a fault, to the concatenation of what each block stands for;
  lists may be nested to any depth, and no block leaks into the next one.
\<close>

theorem markdown_document:
  assumes "doc_ok bs"
  shows "markdown_parse None (unlines (doc_lines bs)) = Inr (doc_html bs)"
proof -
  have "getlines LF (unlines (doc_lines bs)) = doc_lines bs"
    using getlines_unlines [of "doc_lines bs" "[]"] assms by (simp add: doc_ok_def list_all_iff)
  then show ?thesis
    using doc_steps [of bs "[]" "[]"] assms by (simp add: markdown_parse_def doc_ok_def)
qed

theorem markdown_document_witness:
  "markdown_parse None (unlines
      [''# Title'', ''---'', ''- one'', ''  1. a'', ''    + deep'', ''- two'', [], ''- [x] done'', [], ''end'', []])
    = Inr (''<h1>Title</h1><hr/><ul><li>one<ol><li>a<ul><li>deep</li></ul></li></ol></li><li>two</li></ul>''
      @ checklist_tag @ task_html (True, ''done'') @ ''</ul>'' @ ''<p>end </p>'')"
proof -
  let ?doc = "[Heading 1 ''Title'', Rule, Outline (Bulleted (CHR ''-''))
      [Item ''one'' Numbered [Item ''a'' (Bulleted (CHR ''+'')) [Item ''deep'' Numbered []]], Item ''two'' Numbered []],
    Tasks [(True, ''done'')], Para ''end'' []]"
  have "doc_ok ?doc"
    by (simp add: doc_ok_def doc_lines_def plain_item_def closes_list_def has_str_def ordinary_def indent_line_def)
  moreover have "run_line_parser None ''<p>end '' = ''<p>end ''" by (rule unmarked_line) simp
  ultimately show ?thesis
    using markdown_document [of ?doc]
    by (simp add: doc_lines_def doc_html_def indent_line_def to_string.simps numeral_2_eq_2)
qed

end
