(* ===== verification/Rich_Document.thy ===== *)
theory Rich_Document
  imports Markdown_Document Inline_Markup
begin

text \<open>
  Documents whose paragraphs and quotes hold inline markup: the block parsers (\<open>Markdown_Document\<close>)
  and the line parsers (\<open>Inline_Markup\<close>) put together, from the text of a document to its HTML.
\<close>

section \<open>Documents\<close>

text \<open>
  A paragraph or a quoted paragraph is a first line and more lines, each a list of inline elements;
  every other block is one of \<open>Markdown_Document\<close>.
\<close>

datatype rich_block = Paragraph_of "inline list" "inline list list" | Quote_of "inline list" "inline list list" | Other doc_block

fun plain_block :: "rich_block \<Rightarrow> doc_block" where
  "plain_block (Paragraph_of l ls) = Para (source_line l) (map (line_of (\<lambda>x. False)) ls)"
| "plain_block (Quote_of l ls) = Quoted (source_line l) (map (line_of (\<lambda>x. False)) ls)"
| "plain_block (Other b) = b"

fun rich_html :: "rich_block \<Rightarrow> string" where
  "rich_html (Paragraph_of l ls) =
     ''<p>'' @ concat (map (\<lambda>xs. inline_html xs @ '' '') (l # ls)) @ ''</p>''"
| "rich_html (Quote_of l ls) =
     ''<blockquote>'' @ ''<p>'' @ concat (map (\<lambda>xs. inline_html xs @ ''  '') (l # ls)) @ ''</p></blockquote>''"
| "rich_html (Other b) = block_html (run_line_parser None) b"

fun rich_lines :: "rich_block \<Rightarrow> inline list list" where
  "rich_lines (Paragraph_of l ls) = l # ls"
| "rich_lines (Quote_of l ls) = l # ls"
| "rich_lines (Other b) = []"

definition rich_ok :: "rich_block list \<Rightarrow> bool" where
  "rich_ok bs \<longleftrightarrow> doc_ok (map plain_block bs) \<and> list_all (\<lambda>b. list_all fits (rich_lines b)) bs"

section \<open>A line inside a block\<close>

text \<open>What holds none of the trigger characters stays in front of the line, whatever follows.\<close>

lemma run_line_parser_prefix:
  assumes "list_all (\<lambda>c. c \<notin> set u) (BQUOTE # CR # ''![*_~'')"
  shows "run_line_parser None (u @ s) = u @ run_line_parser None s"
proof -
  have u: "CHR ''!'' \<notin> set u" "CHR ''['' \<notin> set u" "CHR ''*'' \<notin> set u" "CHR ''_'' \<notin> set u"
    "CHR ''~'' \<notin> set u" "BQUOTE \<notin> set u" "CR \<notin> set u"
    using assms by simp_all
  show ?thesis
    unfolding run_line_parser_cases image.rewrite_prefix [OF u(1)] link.rewrite_prefix [OF u(2)]
      strong_star.rewrite_prefix [OF u(3)] strong_underscore.rewrite_prefix [OF u(4)]
      emphasized.rewrite_prefix [OF u(4)] strike_through.rewrite_prefix [OF u(5)]
      inline_code.rewrite_prefix [OF u(6)] italic.rewrite_prefix [OF u(3)] break_line.rewrite_prefix [OF u(7)]
    by (rule refl)
qed

lemma text_ok_blanks: "text_ok (replicate n (CHR '' ''))"
  by (induction n) (simp_all add: text_ok_def)

lemma fits_blanks: "fits xs \<Longrightarrow> fits (xs @ [Plain (replicate n (CHR '' ''))])"
proof (induction xs)
  case Nil
  then show ?case by (simp add: text_ok_blanks)
next
  case (Cons x xs)
  have "starts_with [c] (s @ replicate n (CHR '' '')) = starts_with [c] s" if "c \<noteq> CHR '' ''" for c s
    using that by (cases s; cases n) simp_all
  then have "meets x (source_line (xs @ [Plain (replicate n (CHR '' ''))])) = meets x (source_line xs)"
    by (cases x) (simp_all add: shown_def)
  with Cons show ?case by simp
qed

lemma inline_html_blanks: "inline_html (xs @ [Plain t]) = inline_html xs @ t"
  by (induction xs) auto

lemma inline_line:
  assumes "fits xs"
  shows "run_line_parser None (source_line xs @ replicate n (CHR '' '')) = inline_html xs @ replicate n (CHR '' '')"
    and "run_line_parser None (''<p>'' @ source_line xs @ replicate n (CHR '' '')) =
      ''<p>'' @ inline_html xs @ replicate n (CHR '' '')"
proof -
  have "source_line (xs @ [Plain (replicate n (CHR '' ''))]) = source_line xs @ replicate n (CHR '' '')"
    by (simp add: shown_def)
  with inline_markup_run [OF fits_blanks [OF assms, of n]]
  show line: "run_line_parser None (source_line xs @ replicate n (CHR '' '')) = inline_html xs @ replicate n (CHR '' '')"
    by (simp only: inline_html_blanks)
  show "run_line_parser None (''<p>'' @ source_line xs @ replicate n (CHR '' '')) =
      ''<p>'' @ inline_html xs @ replicate n (CHR '' '')"
    by (subst run_line_parser_prefix) (simp_all add: line)
qed

lemma rich_block_html:
  assumes "list_all fits (rich_lines b)"
  shows "block_html (run_line_parser None) (plain_block b) = rich_html b"
proof -
  have rest: "concat (map (\<lambda>k. run_line_parser None (k @ replicate n (CHR '' ''))) (map (line_of (\<lambda>x. False)) ls))
      = concat (map (\<lambda>xs. inline_html xs @ replicate n (CHR '' '')) ls)" if "list_all fits ls" for ls n
    using that by (induction ls) (simp_all add: inline_line(1))
  show ?thesis
  proof (cases b)
    case (Paragraph_of l ls)
    then show ?thesis
      using assms inline_line(2) [of l 1] rest [of ls 1] by simp
  next
    case (Quote_of l ls)
    then show ?thesis
      using assms inline_line(2) [of l 2] rest [of ls 2] by (simp add: numeral_2_eq_2)
  qed simp
qed

section \<open>Properties\<close>

text \<open>
  C8. The Markdown parser translates a document made of headings, rules, fenced code, paragraphs, nested
  lists, check lists, tables and quotes: the text that spells it out is parsed, without a fault, to the
  HTML of its blocks one after the other; lists may be nested to any depth, and no block leaks into the
  next one. In paragraphs and quotes each image, link and inline code becomes its own element, and so does
  a marked span, unless inline code follows it on its line: then it stays as it was written. The
  documents are those of \<open>rich_ok\<close>. By \<open>doc_ok\<close>, paragraphs and quotes begin with none of the
  characters that open another block and have no empty line, list items and check list items hold no
  inline markup, headings and first lines no line end, table rows are not the separator or the end of a
  table; by \<open>fits\<close>, on the lines of paragraphs and quotes the texts and targets of elements hold none of
  the characters \<open>[\<close>, \<open>]\<close>, \<open>)\<close>, \<open>*\<close>, \<open>_\<close>, \<open>~\<close>, \<open><\<close>, backquote, CR and LF (inline code may hold \<open>*\<close>, \<open>_\<close>,
  \<open>~\<close> and \<open><\<close>), no text that ends in \<open>!\<close> meets a \<open>[\<close>, and a span marked with one character is not empty
  and does not meet that character.
\<close>

theorem rich_document:
  assumes "rich_ok bs"
  shows "markdown_parse None (unlines (doc_lines (map plain_block bs))) = Inr (concat (map rich_html bs))"
proof -
  have "map (block_html (run_line_parser None)) (map plain_block bs) = map rich_html bs"
    using assms by (simp add: rich_ok_def rich_block_html list_all_iff)
  moreover have "doc_ok (map plain_block bs)" using assms by (simp add: rich_ok_def)
  ultimately show ?thesis by (simp only: markdown_document doc_html_def)
qed

theorem rich_document_witness:
  "markdown_parse None (unlines [''# Hi'', ''a **b** '' @ BQUOTE # ''x_y_z'' @ [BQUOTE], ''see [it](/a)'', [], ''> _q_'', [], []])
    = Inr (''<h1>Hi</h1><p>a **b** <code>x_y_z</code> see <a href='' @ [DQUOTE] @ ''/a'' @ [DQUOTE] @ ''>it</a> </p>''
      @ ''<blockquote><p><em>q</em>  </p></blockquote>'')"
proof -
  let ?doc = "[Other (Heading 1 ''Hi''),
    Paragraph_of [Plain ''a '', Stars ''b'', Plain '' '', Code_span ''x_y_z''] [[Plain ''see '', Anchor ''it'' ''/a'']],
    Quote_of [Emph ''q''] []]"
  have "rich_ok ?doc"
    by (simp add: rich_ok_def doc_ok_def doc_lines_def ordinary_def shown_def text_ok_def code_ok_def)
  then show ?thesis
    using rich_document [of ?doc] by (simp add: doc_lines_def shown_def to_string.simps)
qed

end
