(* ===== verification/Environment.thy ===== *)
theory Environment
  imports Http
begin

text \<open>
  The code outside the repository that the request handlers call: \<open>boost::replace_all\<close>,
  \<open>boost::filesystem\<close>, the files themselves, the MongoDB driver, the resolver and the sockets of
  \<open>boost::asio\<close>, \<open>boost::regex\<close> and zlib. Each is a field of a record that the definitions take as an
  argument; \<open>'w\<close> is the state of the world outside the process, which those calls read and change.
\<close>

text \<open>What \<open>from_json\<close> followed by \<open>insert_one\<close> can end in.\<close>

datatype db_outcome =
    Stored
  | Bson_exception string
  | Bulk_write_exception string
  | Other_exception string

text \<open>
  \<open>fs_exists\<close> and \<open>fs_regular\<close> are \<open>boost::filesystem::exists\<close> and \<open>is_regular_file\<close>: an answer, or the
  message of the \<open>filesystem_error\<close> they throw when the file system reports anything but that the file
  is not there (a name that is too long, a directory that may not be searched). \<open>db_open\<close> is the
  construction of \<open>mongocxx::uri\<close> and of the pool, \<open>db_acquire\<close> is \<open>pool::acquire\<close>, each with the message of the
  exception it throws, if any. \<open>doc_json\<close> is \<open>bsoncxx::to_json\<close> of a document with the one field \<open>md\<close> (\<open>None\<close>: it throws);
  \<open>db_find\<close> is the iteration over \<open>collection.find({})\<close>: the \<open>md\<close> field of each document (\<open>None\<close>: it
  has none that is a string) and the \<open>operation_exception\<close> the iteration ended with, if any.
  \<open>resolve\<close> yields an error message or the endpoints found, each with whether it is IPv4; the default
  endpoint is used when there is none. \<open>connect\<close> yields the exception it throws, if any.
\<close>

record 'w environment =
  replace_all :: "string \<Rightarrow> string \<Rightarrow> string \<Rightarrow> string"
  fs_exists :: "'w \<Rightarrow> string \<Rightarrow> string + bool"
  fs_regular :: "'w \<Rightarrow> string \<Rightarrow> string + bool"
  fs_read :: "'w \<Rightarrow> string \<Rightarrow> string option"
  db_open :: "string \<Rightarrow> 'w \<Rightarrow> string option \<times> 'w"
  db_acquire :: "'w \<Rightarrow> string option \<times> 'w"
  doc_json :: "string \<Rightarrow> string option"
  db_insert :: "string \<Rightarrow> string \<Rightarrow> string \<Rightarrow> 'w \<Rightarrow> db_outcome \<times> 'w"
  db_find :: "string \<Rightarrow> string \<Rightarrow> 'w \<Rightarrow> (string option list \<times> string option) \<times> 'w"

text \<open>\<open>exists(path) && is_regular_file(path)\<close>, which asks the second question only after a yes to the first.\<close>

definition regular_file :: "'w environment \<Rightarrow> 'w \<Rightarrow> string \<Rightarrow> cpp_fault + bool" where
  "regular_file env w path =
     (case fs_exists env w path of
        Inl msg \<Rightarrow> Inl (RuntimeError msg)
      | Inr there \<Rightarrow>
          (if \<not> there then Inr False
           else case fs_regular env w path of Inl msg \<Rightarrow> Inl (RuntimeError msg) | Inr regular \<Rightarrow> Inr regular))"

text \<open>
  The state of the process that requests share: the static members of \<open>RequestHandlerDispatcher\<close> and
  the connection pool of the \<open>db_instance\<close> singleton (\<open>None\<close>: the null pointer it starts with). The
  two counters are \<open>size_t\<close>.
\<close>

record statistics =
  request_handler_uri :: "string smap"
  request_code_received :: "nat list smap"
  num_handlers :: nat
  num_requests :: nat

definition new_statistics :: statistics where
  "new_statistics = \<lparr>request_handler_uri = [], request_code_received = [], num_handlers = 0, num_requests = 0\<rparr>"

record 'w process =
  world :: 'w
  client_pool :: "string option"
  stats :: statistics

text \<open>\<open>request_code_received_[uri].push_back(code)\<close> and \<open>.pop_back()\<close>.\<close>

definition push_code :: "string \<Rightarrow> nat \<Rightarrow> statistics \<Rightarrow> statistics" where
  "push_code uri code s =
     (let (codes, m) = smap_at [] uri (request_code_received s)
      in s\<lparr>request_code_received := smap_set uri (codes @ [code]) m\<rparr>)"

text \<open>
  The two halves of the first, for threads that come in between: \<open>operator[]\<close> finds or makes the vector
  and \<open>push_back\<close> reads where it ends; then the new code is written behind what was there.
\<close>

definition fetch_codes :: "string \<Rightarrow> statistics \<Rightarrow> nat list \<times> statistics" where
  "fetch_codes uri s =
     (let (codes, m) = smap_at [] uri (request_code_received s) in (codes, s\<lparr>request_code_received := m\<rparr>))"

definition store_codes :: "string \<Rightarrow> nat list \<Rightarrow> statistics \<Rightarrow> statistics" where
  "store_codes uri codes s = s\<lparr>request_code_received := smap_set uri codes (request_code_received s)\<rparr>"

definition pop_code :: "string \<Rightarrow> statistics \<Rightarrow> cpp_fault + statistics" where
  "pop_code uri s =
     (let (codes, m) = smap_at [] uri (request_code_received s)
      in if codes = [] then Inl OutOfBoundsRead
         else Inr (s\<lparr>request_code_received := smap_set uri (butlast codes) m\<rparr>))"

definition codes_of :: "statistics \<Rightarrow> string \<Rightarrow> nat list" where
  "codes_of s uri = (case smap_find (request_code_received s) uri of None \<Rightarrow> [] | Some codes \<Rightarrow> codes)"

lemma push_code_halves: "push_code uri code s = (case fetch_codes uri s of (codes, s) \<Rightarrow> store_codes uri (codes @ [code]) s)"
  by (simp add: push_code_def fetch_codes_def store_codes_def Let_def split_def)

lemma codes_of_fetch: "fetch_codes uri s = (codes, s') \<Longrightarrow> codes = codes_of s uri \<and> codes_of s' = codes_of s"
  by (cases "smap_find (request_code_received s) uri")
    (auto simp: fetch_codes_def codes_of_def smap_at_def smap_find_set fun_eq_iff)

lemma codes_of_store: "codes_of (store_codes uri codes s) = (codes_of s)(uri := codes)"
  by (simp add: codes_of_def store_codes_def smap_find_set fun_eq_iff)

lemma codes_of_push [simp]:
  "codes_of (push_code uri code s) k = (if k = uri then codes_of s uri @ [code] else codes_of s k)"
  by (simp add: codes_of_def push_code_def smap_at_def Let_def split_def smap_find_set split: option.splits)

lemma push_code_other [simp]:
  "request_handler_uri (push_code uri code s) = request_handler_uri s"
  "num_handlers (push_code uri code s) = num_handlers s"
  "num_requests (push_code uri code s) = num_requests s"
  by (simp_all add: push_code_def Let_def split_def)

lemma pop_push_code:
  "\<exists>s'. pop_code uri (push_code uri code s) = Inr s' \<and> (\<forall>k. codes_of s' k = codes_of s k)
     \<and> request_handler_uri s' = request_handler_uri s \<and> num_handlers s' = num_handlers s
     \<and> num_requests s' = num_requests s"
  by (auto simp: pop_code_def push_code_def codes_of_def smap_at_def Let_def split_def smap_find_set
      split: option.splits)

end
