(* ===== verification/Simple_Handlers.thy ===== *)
theory Simple_Handlers
  imports Environment Nginx_Config
begin

text \<open>
  The handlers of \<open>src/request_handler\<close> that need no state: \<open>BadRequestHandler\<close>,
  \<open>EchoRequestHandler\<close>, \<open>HealthHandler\<close>, \<open>NotFoundRequestHandler\<close> and \<open>RedirectHandler\<close>.
\<close>

section \<open>The handlers\<close>

definition bad_request_handle :: "request \<Rightarrow> reply" where
  "bad_request_handle req =
     (let bad_request = ''<html><head><title>Bad Request</title></head>''
                        @ ''<body><h1>400 Bad Request</h1></body></html>'';
          rep = new_reply\<lparr>rep_code := Bad_request, rep_body := bad_request\<rparr>;
          rep = set_header ''Content-Length'' (to_string (length bad_request)) rep
      in set_header ''Content-Type'' ''text/html'' rep)"

text \<open>\<open>body_.length() - 2\<close> is computed in \<open>size_t\<close>, also for a body of fewer than two bytes.\<close>

definition echo_handle :: "request \<Rightarrow> cpp_fault + reply" where
  "echo_handle req =
     (let content_size = size_sub (length (req_body req)) 2
      in rbind (substr (req_body req) 0 content_size) (\<lambda>body.
           let rep = new_reply\<lparr>rep_code := Ok, rep_body := body\<rparr>;
               rep = set_header ''Content-Length'' (to_string content_size) rep
           in Inr (set_header ''Content-Type'' ''text/plain'' rep)))"

definition health_handle :: "request \<Rightarrow> reply" where
  "health_handle req =
     (let health_ok = ''OK'';
          rep = new_reply\<lparr>rep_code := Ok, rep_body := health_ok\<rparr>;
          rep = set_header ''Content-Length'' (to_string (length health_ok)) rep
      in set_header ''Content-Type'' ''text/plain'' rep)"

definition not_found_handle :: "request \<Rightarrow> reply" where
  "not_found_handle req =
     (let not_found = ''<html><head><title>Not Found</title></head>''
                      @ ''<body><h1>404 Not Found</h1></body></html>'';
          rep = new_reply\<lparr>rep_code := Not_found, rep_body := not_found\<rparr>;
          rep = set_header ''Content-Length'' (to_string (length not_found)) rep
      in set_header ''Content-Type'' ''text/html'' rep)"

text \<open>
  \<open>RedirectHandler::Init\<close> takes the last two-token statement \<open>host <name>\<close> of the block and removes
  the slashes from the name.
\<close>

definition redirect_init :: "(string \<Rightarrow> string \<Rightarrow> string \<Rightarrow> string) \<Rightarrow> nginx_config \<Rightarrow> string" where
  "redirect_init replace config =
     foldl (\<lambda>host st.
         (case st_tokens st of
            [k, v] \<Rightarrow> if k = ''host'' then replace v ''/'' [] else host
          | _ \<Rightarrow> host)) [] config"

definition redirect_handle :: "string \<Rightarrow> request \<Rightarrow> reply" where
  "redirect_handle host req =
     (let location = ''http://'' @ host @ ''/static/index.html'';
          rep = set_header ''Location'' location (new_reply\<lparr>rep_code := Moved_temporarily\<rparr>)
      in rep\<lparr>rep_body := ''HTTP/1.1 302 Found'' @ crlf @ ''Location: '' @ location @ crlf @ crlf\<rparr>)"

section \<open>Their replies\<close>

lemmas handler_defs = bad_request_handle_def health_handle_def not_found_handle_def Let_def

lemma fixed_handlers_framed_replies:
  "framed (bad_request_handle req)" "framed (health_handle req)" "framed (not_found_handle req)"
  by (simp_all add: handler_defs)

interpretation bad_request: framed_reply bad_request_handle "\<lambda>_. True"
  using fixed_handlers_framed_replies(1) by unfold_locales (auto simp: framed_def)

interpretation health: framed_reply health_handle "\<lambda>_. True"
  using fixed_handlers_framed_replies(2) by unfold_locales (auto simp: framed_def)

interpretation not_found: framed_reply not_found_handle "\<lambda>_. True"
  using fixed_handlers_framed_replies(3) by unfold_locales (auto simp: framed_def)

definition echo_reply :: "request \<Rightarrow> reply" where
  "echo_reply req = (case echo_handle req of Inl e \<Rightarrow> new_reply | Inr r \<Rightarrow> r)"

lemma echo_handle_reply:
  "echo_handle req = Inr (set_header ''Content-Type'' ''text/plain''
    (set_header ''Content-Length'' (to_string (size_sub (length (req_body req)) 2))
      (new_reply\<lparr>rep_code := Ok, rep_body := take (size_sub (length (req_body req)) 2) (req_body req)\<rparr>)))"
  by (simp add: echo_handle_def substr_def Let_def)

interpretation echo: framed_reply echo_reply
  "\<lambda>req. 2 \<le> length (req_body req) \<and> length (req_body req) < 2 ^ 64"
  by unfold_locales
     (auto simp: echo_reply_def echo_handle_reply content_length_ok_def clean_headers_def set_header_def
       get_header_def less_char_def size_sub_ge)

text \<open>
  The handlers with a fixed answer: whatever the request, the bad-request, health and not-found
  handlers reply with their status and text, and a client that cuts the reply at the first blank
  line finds exactly that text with the length the header announced.
\<close>

theorem fixed_handlers_framed:
  "(\<forall>make \<in> {bad_request_handle, health_handle, not_found_handle}.
      \<exists>h l. find_str (wire (make req)) (crlf @ crlf) = Some h
        \<and> get_header (make req) ''Content-Length'' = Some l
        \<and> stoi l = Inr (int (length (drop (h + 4) (wire (make req)))))
        \<and> drop (h + 4) (wire (make req)) = rep_body (make req))
   \<and> rep_code (bad_request_handle req) = Bad_request
   \<and> rep_code (health_handle req) = Ok \<and> rep_body (health_handle req) = ''OK''
   \<and> rep_code (not_found_handle req) = Not_found"
proof -
  have short: "length (rep_body (bad_request_handle req)) < 2 ^ 31"
    "length (rep_body (health_handle req)) < 2 ^ 31" "length (rep_body (not_found_handle req)) < 2 ^ 31"
    by (simp_all add: handler_defs)
  have codes: "rep_code (bad_request_handle req) = Bad_request" "rep_code (health_handle req) = Ok"
    "rep_body (health_handle req) = ''OK''" "rep_code (not_found_handle req) = Not_found"
    by (simp_all add: handler_defs)
  show ?thesis
    using bad_request.client_reads [OF TrueI short(1)] health.client_reads [OF TrueI short(2)]
      not_found.client_reads [OF TrueI short(3)] codes
    by blast
qed

theorem fixed_handlers_framed_witness:
  "\<exists>h. find_str (wire (health_handle (new_request None 0 0))) (crlf @ crlf) = Some h
     \<and> drop (h + 4) (wire (health_handle (new_request None 0 0))) = ''OK''"
proof -
  let ?r = "health_handle (new_request None 0 0)"
  have "\<exists>h l. find_str (wire ?r) (crlf @ crlf) = Some h \<and> get_header ?r ''Content-Length'' = Some l
      \<and> stoi l = Inr (int (length (drop (h + 4) (wire ?r)))) \<and> drop (h + 4) (wire ?r) = rep_body ?r"
    "rep_body ?r = ''OK''"
    using fixed_handlers_framed [of "new_request None 0 0"] by blast+
  then show ?thesis by auto
qed

text \<open>
  The echo handler returns the request's text less its last two bytes, announced correctly; but
  for a text shorter than two bytes the length wraps around, so the whole text is sent with an
  announced length near \<open>2^64\<close>.
\<close>

theorem echo_reply_body:
  assumes "length (req_body req) < 2 ^ 64"
  shows "\<exists>r. echo_handle req = Inr r \<and> rep_code r = Ok
    \<and> rep_body r = (if 2 \<le> length (req_body req) then take (length (req_body req) - 2) (req_body req)
                    else req_body req)
    \<and> get_header r ''Content-Length'' =
        Some (to_string (if 2 \<le> length (req_body req) then length (rep_body r)
                         else 2 ^ 64 - 2 + length (rep_body r)))"
proof (cases "2 \<le> length (req_body req)")
  case True
  with assms show ?thesis by (simp add: echo_handle_reply size_sub_ge)
next
  case False
  then show ?thesis by (simp add: echo_handle_reply size_sub_lt)
qed

theorem echo_reply_body_witness:
  "\<exists>r. echo_handle ((new_request None 0 0)\<lparr>req_body := ''x''\<rparr>) = Inr r \<and> rep_body r = ''x''
     \<and> get_header r ''Content-Length'' = Some (to_string 18446744073709551615)"
  using echo_reply_body [of "(new_request None 0 0)\<lparr>req_body := ''x''\<rparr>"] by fastforce

text \<open>
  The redirect handler answers 302 with the location \<open>/static/index.html\<close> on the host of the
  block's last two-token \<open>host\<close> statement, slashes removed; it announces no length, and its body is
  itself a response header.
\<close>

theorem redirect_location:
  assumes "boost_replace f"
    "\<forall>st \<in> set later. \<forall>v. st_tokens st \<noteq> [''host'', v]"
  shows "let r = redirect_handle (redirect_init f (earlier @ Statement [''host'', host] ch # later)) req;
             location = ''http://'' @ filter (\<lambda>c. c \<noteq> CHR ''/'') host @ ''/static/index.html''
         in rep_code r = Moved_temporarily \<and> get_header r ''Location'' = Some location
            \<and> get_header r ''Content-Length'' = None
            \<and> rep_body r = ''HTTP/1.1 302 Found'' @ crlf @ ''Location: '' @ location @ crlf @ crlf"
proof -
  have rest: "foldl (\<lambda>host st. case st_tokens st of [k, v] \<Rightarrow> if k = ''host'' then f v ''/'' [] else host
      | _ \<Rightarrow> host) h later = h" for h
    using assms(2) by (induction later arbitrary: h) (auto split: list.splits)
  have "concat (map (\<lambda>x. if x = CHR ''/'' then [] else [x]) s) = filter (\<lambda>c. c \<noteq> CHR ''/'') s" for s
    by (induction s) auto
  then have "f host ''/'' [] = filter (\<lambda>c. c \<noteq> CHR ''/'') host"
    by (simp add: boost_replace.replace_char [OF assms(1)])
  then have "redirect_init f (earlier @ Statement [''host'', host] ch # later) =
      filter (\<lambda>c. c \<noteq> CHR ''/'') host"
    using rest by (simp add: redirect_init_def)
  then show ?thesis
    by (simp add: redirect_handle_def Let_def get_header_def set_header_def)
qed

theorem redirect_location_witness:
  "get_header (redirect_handle (redirect_init replace_ref [Statement [''host'', ''/a.b/''] None]) (new_request None 0 0))
     ''Location'' = Some ''http://a.b/static/index.html''"
  using redirect_location [OF ref_replace.boost_replace_axioms, of "[]" "[]" "''/a.b/''" None "new_request None 0 0"]
  by (simp add: Let_def)

end
