(* ===== verification/Static_Handler.thy ===== *)
theory Static_Handler
  imports Simple_Handlers Markdown
begin

text \<open>
  \<open>StaticRequestHandler\<close> (\<open>src/request_handler/static_request_handler.cc\<close>): the root directory from
  the configuration block, the file a URI names, its content type and the reply.
\<close>

section \<open>The handler\<close>

text \<open>
  \<open>Init\<close>: the last two-token statement \<open>root <dir>\<close>, \<open>/\<close> by default, with a slash appended if it does
  not end in one (\<open>back()\<close> of an empty string is undefined).
\<close>

definition static_init :: "nginx_config \<Rightarrow> cpp_fault + string" where
  "static_init config =
     (let root = foldl (\<lambda>root st.
            (case st_tokens st of
               [k, v] \<Rightarrow> if k = ''root'' then v else root
             | _ \<Rightarrow> root)) ''/'' config
      in if root = [] then Inl OutOfBoundsRead
         else Inr (if last root \<noteq> CHR ''/'' then root @ ''/'' else root))"

text \<open>\<open>new_uri.replace(0, location_path_.size(), root_)\<close>, then \<open>new_uri.replace(0, 1, "../")\<close>.\<close>

definition static_path :: "string \<Rightarrow> string \<Rightarrow> string \<Rightarrow> string" where
  "static_path location root uri =
     (let new_uri = root @ drop (length location) uri
      in ''../'' @ drop 1 new_uri)"

text \<open>
  \<open>setContentType\<close>: without a dot \<open>dotIndex\<close> is -1 and the whole path counts as the extension.
\<close>

definition set_content_type :: "string \<Rightarrow> string" where
  "set_content_type path =
     (let extension = (case find_last_char path (CHR ''.'') of
            Some dot \<Rightarrow> drop (dot + 1) path
          | None \<Rightarrow> path)
      in if extension = ''html'' then ''text/html''
         else if extension = ''jpg'' then ''image/jpeg''
         else if extension = ''zip'' then ''application/zip''
         else if extension = ''txt'' then ''text/plain''
         else if extension = ''gif'' then ''image/gif''
         else if extension = ''png'' then ''image/png''
         else [])"

text \<open>The two checks of the file can throw; nothing catches it.\<close>

definition static_handle ::
  "'w environment \<Rightarrow> 'w \<Rightarrow> string \<Rightarrow> string \<Rightarrow> request \<Rightarrow> cpp_fault + reply" where
  "static_handle env w location root req =
     (let new_uri = static_path location root (req_uri req)
      in rbind (regular_file env w new_uri) (\<lambda>found.
         if \<not> found then Inr (stock_reply (replace_all env) Not_found)
         else case fs_read env w new_uri of
                None \<Rightarrow> Inr (stock_reply (replace_all env) Not_found)
              | Some file \<Rightarrow>
                  (let content_type = set_content_type new_uri;
                       content = (if content_type = ''text/html'' \<or> content_type = ''text/plain''
                                  then replace_all env file [LF] crlf @ crlf else file);
                       is_markdown = (find_str new_uri ''.md'' \<noteq> None)
                   in rbind (if is_markdown then markdown_parse None content else Inr content) (\<lambda>body.
                        let rep = new_reply\<lparr>rep_code := Ok\<rparr>;
                            rep = set_header ''Content-Length'' (to_string (length body)) rep;
                            rep = set_header ''Content-Type'' (if is_markdown then ''text/html'' else content_type) rep
                        in Inr (rep\<lparr>rep_body := body\<rparr>)))))"

section \<open>Its replies\<close>

lemma content_type_no_CR: "CR \<notin> set (set_content_type path)"
  by (simp add: set_content_type_def Let_def)

lemma static_handle_framed: "static_handle env w location root req = Inr r \<Longrightarrow> framed r"
  using content_type_no_CR [of "static_path location root (req_uri req)"]
  by (auto simp: static_handle_def Let_def fault_simps split: option.splits if_splits)

definition static_reply :: "'w environment \<times> 'w \<times> string \<times> string \<times> request \<Rightarrow> reply" where
  "static_reply = (\<lambda>(env, w, location, root, req).
     case static_handle env w location root req of Inl e \<Rightarrow> new_reply | Inr r \<Rightarrow> r)"

interpretation static_file: framed_reply static_reply
  "\<lambda>(env, w, location, root, req). \<exists>r. static_handle env w location root req = Inr r"
  by unfold_locales (auto simp: static_reply_def framed_def dest: static_handle_framed [unfolded framed_def])

lemma static_path_prefix:
  "root \<noteq> [] \<Longrightarrow> static_path location root (location @ t) = ''../'' @ tl root @ t"
  by (cases root) (simp_all add: static_path_def)

text \<open>
  The file a static request names: after the location, the rest of the URI is appended to the
  root directory as it stands, so the client chooses it freely and can climb out of the root with
  \<open>/../\<close>; the first character of the configured root is always dropped, slash or not.
\<close>

theorem static_path_unchecked:
  assumes "static_init config = Inr root"
  shows "static_path location root (location @ t) = ''../'' @ tl root @ t
    \<and> last root = CHR ''/''
    \<and> (let climb = static_path location root (location @ ''/../../'' @ secret)
       in climb = ''../'' @ tl root @ ''/../../'' @ secret)"
proof -
  have "root \<noteq> []" "last root = CHR ''/''"
    using assms by (auto simp: static_init_def Let_def split: if_splits)
  then show ?thesis by (simp add: static_path_prefix)
qed

theorem static_path_unchecked_witness:
  "static_path ''/static'' ''files/'' (''/static'' @ ''/../../conf'') = ''../iles//../../conf''"
  using static_path_unchecked [of "[Statement [''root'', ''files''] None]" "''files/''" "''/static''"
      "''/../../conf''" "[]"]
  by (simp add: static_init_def)

text \<open>
  C39. What a static request is answered with. If the file system cannot say whether the file is there
  or whether it is a regular one (a name that is too long, a directory that may not be searched), the
  handler throws. If the file is missing, not regular or cannot be opened the reply is the 404 page.
  Otherwise, unless the path contains \<open>.md\<close>, it is 200 with the
  file's bytes: as they are for an image, an archive or an unknown type, with every line feed turned
  into CR LF and one more line end appended for HTML and plain text. A path with \<open>.md\<close> is served as
  the HTML of its Markdown (when the extension is not \<open>html\<close> or \<open>txt\<close>); without a table this cannot fail.
\<close>

theorem static_reply_content:
  assumes "boost_replace (replace_all env)"
  shows "let path = static_path location root (req_uri req);
             found = (fs_exists env w path = Inr True \<and> fs_regular env w path = Inr True);
             missing = (fs_exists env w path = Inr False
               \<or> fs_exists env w path = Inr True \<and> fs_regular env w path = Inr False);
             text = (set_content_type path \<in> {''text/html'', ''text/plain''})
         in (\<forall>msg. fs_exists env w path = Inl msg \<or> fs_exists env w path = Inr True \<and> fs_regular env w path = Inl msg \<longrightarrow>
               static_handle env w location root req = Inl (RuntimeError msg))
          \<and> (missing \<or> found \<and> fs_read env w path = None \<longrightarrow>
               (\<exists>r. static_handle env w location root req = Inr r \<and> rep_code r = Not_found))
          \<and> (\<forall>bytes. found \<and> fs_read env w path = Some bytes \<and> find_str path ''.md'' = None \<longrightarrow>
               (\<exists>r. static_handle env w location root req = Inr r \<and> rep_code r = Ok
                  \<and> get_header r ''Content-Type'' = Some (set_content_type path)
                  \<and> rep_body r = (if text then concat (map (\<lambda>c. if c = LF then crlf else [c]) bytes) @ crlf
                                  else bytes)
                  \<and> content_length_ok r))
          \<and> (\<forall>bytes. found \<and> fs_read env w path = Some bytes \<and> find_str path ''.md'' \<noteq> None
               \<and> \<not> text \<and> ''|table>'' \<notin> set (getlines LF bytes) \<longrightarrow>
               (\<exists>r html. static_handle env w location root req = Inr r \<and> rep_code r = Ok
                  \<and> markdown_parse None bytes = Inr html \<and> rep_body r = html
                  \<and> get_header r ''Content-Type'' = Some ''text/html''))"
proof -
  let ?path = "static_path location root (req_uri req)"
  have replaced: "replace_all env s [LF] crlf = concat (map (\<lambda>c. if c = LF then crlf else [c]) s)" for s
    using boost_replace.replace_char [OF assms] .
  have md: "\<exists>html. markdown_parse None s = Inr html" if "''|table>'' \<notin> set (getlines LF s)" for s
    unfolding markdown_parse_def using parse_lines_total [of None "getlines LF s" None "[]"] that by simp
  have "static_handle env w location root req = Inl (RuntimeError msg)"
    if "fs_exists env w ?path = Inl msg \<or> fs_exists env w ?path = Inr True \<and> fs_regular env w ?path = Inl msg" for msg
    using that by (auto simp: static_handle_def regular_file_def Let_def)
  moreover have "static_handle env w location root req = Inr (stock_reply (replace_all env) Not_found)"
    if "fs_exists env w ?path = Inr False \<or> fs_exists env w ?path = Inr True \<and> fs_regular env w ?path = Inr False
      \<or> fs_exists env w ?path = Inr True \<and> fs_regular env w ?path = Inr True \<and> fs_read env w ?path = None"
    using that by (auto simp: static_handle_def regular_file_def Let_def)
  moreover have "\<exists>r. static_handle env w location root req = Inr r \<and> rep_code r = Ok
      \<and> get_header r ''Content-Type'' = Some (set_content_type ?path)
      \<and> rep_body r = (if set_content_type ?path \<in> {''text/html'', ''text/plain''}
           then concat (map (\<lambda>c. if c = LF then crlf else [c]) bytes) @ crlf else bytes)
      \<and> content_length_ok r"
    if "fs_exists env w ?path = Inr True \<and> fs_regular env w ?path = Inr True" "fs_read env w ?path = Some bytes"
      "find_str ?path ''.md'' = None" for bytes
    using that by (simp add: static_handle_def regular_file_def replaced Let_def content_length_ok_def)
  moreover have "\<exists>r html. static_handle env w location root req = Inr r \<and> rep_code r = Ok
      \<and> markdown_parse None bytes = Inr html \<and> rep_body r = html
      \<and> get_header r ''Content-Type'' = Some ''text/html''"
    if "fs_exists env w ?path = Inr True \<and> fs_regular env w ?path = Inr True" "fs_read env w ?path = Some bytes"
      "find_str ?path ''.md'' \<noteq> None" "set_content_type ?path \<notin> {''text/html'', ''text/plain''}"
      "''|table>'' \<notin> set (getlines LF bytes)" for bytes
    using that md [of bytes] by (auto simp: static_handle_def regular_file_def Let_def)
  ultimately show ?thesis
    unfolding Let_def using stock_reply_headers(4) [of "replace_all env" Not_found] by blast
qed

definition sample_files :: "unit environment" where
  "sample_files = \<lparr>replace_all = replace_ref, fs_exists = (\<lambda>w p. Inr (p = ''../data/a.txt'')),
     fs_regular = (\<lambda>w p. Inr True), fs_read = (\<lambda>w p. Some (''x'' @ [LF] @ ''y'')),
     db_open = (\<lambda>u w. (None, w)), db_acquire = (\<lambda>w. (None, w)), doc_json = (\<lambda>s. Some s),
     db_insert = (\<lambda>d c s w. (Stored, w)), db_find = (\<lambda>d c w. (([], None), w))\<rparr>"

theorem static_reply_content_witness:
  "\<exists>r. static_handle sample_files () ''/static'' ''/data/'' ((new_request None 0 0)\<lparr>req_uri := ''/statica.txt''\<rparr>)
       = Inr r \<and> rep_body r = ''x'' @ crlf @ ''y'' @ crlf"
proof -
  let ?req = "(new_request None 0 0)\<lparr>req_uri := ''/statica.txt''\<rparr>"
  have path: "static_path ''/static'' ''/data/'' (req_uri ?req) = ''../data/a.txt''"
    by (simp add: static_path_def)
  have type: "set_content_type ''../data/a.txt'' = ''text/plain''" by code_simp
  have env: "boost_replace (replace_all sample_files)"
    using ref_replace.boost_replace_axioms by (simp add: sample_files_def)
  show ?thesis
    using static_reply_content [OF env, of "''/static''" "''/data/''" ?req "()"]
    unfolding path Let_def by (simp add: type sample_files_def) auto
qed

end
