(* ===== verification/Static_Paths.thy ===== *)
theory Static_Paths
  imports Static_Handler
begin

text \<open>
  The files that requests for a static location reach: the paths that \<open>StaticRequestHandler\<close> builds
  (\<open>src/request_handler/static_request_handler.cc\<close>), resolved the way a file system does.
\<close>

section \<open>Which file a request reaches\<close>

text \<open>
  The file system resolves a relative path name by name from the current directory; a directory is
  the list of the names that lead to it, the innermost first (there are no symbolic links here).
\<close>

fun segments :: "string \<Rightarrow> string list" where
  "segments [] = [[]]"
| "segments (c # s) =
     (if c = CHR ''/'' then [] # segments s else (c # hd (segments s)) # tl (segments s))"

definition enter :: "string list \<Rightarrow> string \<Rightarrow> string list" where
  "enter dir name =
     (if name \<in> {[], ''.''} then dir else if name = ''..'' then tl dir else name # dir)"

definition resolve :: "string list \<Rightarrow> string \<Rightarrow> string list" where
  "resolve dir path = foldl enter dir (segments path)"

lemma segments_some [simp]: "segments s \<noteq> []"
  by (cases s) auto

lemma segments_slash: "segments (u @ CHR ''/'' # v) = segments u @ segments v"
  by (induction u) auto

lemma segments_name: "CHR ''/'' \<notin> set n \<Longrightarrow> segments n = [n]"
  by (induction n) auto

lemma segments_names:
  "\<forall>n \<in> set ns. CHR ''/'' \<notin> set n \<Longrightarrow> segments (concat (map (\<lambda>n. CHR ''/'' # n) ns)) = [] # ns"
proof (induction ns rule: rev_induct)
  case (snoc n ns)
  then show ?case by (simp add: segments_slash segments_name)
qed simp

lemma resolve_below: "''..'' \<notin> set (segments path) \<Longrightarrow> \<exists>names. resolve dir path = names @ dir"
proof -
  have "''..'' \<notin> set ns \<Longrightarrow> \<exists>names. foldl enter dir ns = names @ dir" for ns
    by (induction ns rule: rev_induct) (auto simp: enter_def)
  then show "''..'' \<notin> set (segments path) \<Longrightarrow> \<exists>names. resolve dir path = names @ dir"
    by (simp add: resolve_def)
qed

definition file_name :: "string \<Rightarrow> bool" where
  "file_name n \<longleftrightarrow> n \<notin> {[], ''.'', ''..''} \<and> CHR ''/'' \<notin> set n"

lemma resolve_climb:
  assumes "\<forall>n \<in> set target. file_name n"
  shows "resolve dir (concat (map (\<lambda>n. CHR ''/'' # n) (replicate (length dir) ''..'' @ rev target))) = target"
proof -
  let ?names = "replicate (length dir) ''..'' @ rev target"
  have up: "foldl enter dir (replicate (length dir) ''..'') = []" for dir
    by (induction dir) (simp_all add: enter_def)
  have down: "foldl enter [] ns = rev ns" if "\<forall>n \<in> set ns. file_name n" for ns
    using that by (induction ns rule: rev_induct) (simp_all add: enter_def file_name_def)
  have slashes: "\<forall>n \<in> set ?names. CHR ''/'' \<notin> set n"
    using assms by (simp add: ball_Un file_name_def)
  have "foldl enter [] (rev target) = target" using assms down [of "rev target"] by simp
  then have "foldl enter dir ?names = target" using up [of dir] by (simp only: foldl_append)
  moreover have "foldl enter dir ([] # ?names) = foldl enter dir ?names" by (simp add: enter_def)
  ultimately show ?thesis by (simp only: resolve_def segments_names [OF slashes])
qed

lemma static_init_slash: "static_init config = Inr root \<Longrightarrow> \<exists>r. root = r @ ''/''"
  by (auto simp: static_init_def Let_def split: if_splits) (metis append_butlast_last_id)

lemma static_path_resolves:
  assumes "static_init config = Inr root"
  shows "resolve cwd (static_path location root (location @ rest)) =
    resolve (resolve cwd (static_path location root location)) rest"
proof -
  obtain r where r: "root = r @ ''/''" using static_init_slash [OF assms] by blast
  have join: "resolve cwd (u @ CHR ''/'' # v) = resolve (resolve cwd u) v"
    "resolve cwd (u @ ''/'') = resolve cwd u" for u v
    by (simp_all add: resolve_def segments_slash enter_def)
  show ?thesis
  proof (cases r)
    case Nil
    with r show ?thesis using join [of "''..''"] by (simp add: static_path_def)
  next
    case (Cons c s)
    with r show ?thesis using join [of "''../'' @ s"] by (simp add: static_path_def)
  qed
qed

text \<open>
  C23. What the static handler can be made to read: with no segment \<open>..\<close> after the location, a
  request stays inside the configured root directory; but nothing checks for one, and for every file
  of the machine, wherever it is, there is a path after the location that names it, made of slashes,
  dots and the characters of its own names. (Names with a character that no request target can hold, a
  blank for example, cannot be asked for.)
\<close>

theorem static_path_reach:
  assumes "static_init config = Inr root" "\<forall>n \<in> set target. file_name n"
  shows "(\<forall>rest. ''..'' \<notin> set (segments rest) \<longrightarrow>
        (\<exists>names. resolve cwd (static_path location root (location @ rest)) =
          names @ resolve cwd (static_path location root location)))
    \<and> (\<exists>rest. resolve cwd (static_path location root (location @ rest)) = target
        \<and> set rest \<subseteq> {CHR ''/'', CHR ''.''} \<union> (\<Union>n \<in> set target. set n))"
proof (intro conjI allI impI)
  show "\<exists>names. resolve cwd (static_path location root (location @ rest)) =
      names @ resolve cwd (static_path location root location)" if "''..'' \<notin> set (segments rest)" for rest
    unfolding static_path_resolves [OF assms(1), of cwd location rest] using that by (rule resolve_below)
  let ?rest = "concat (map (\<lambda>n. CHR ''/'' # n)
      (replicate (length (resolve cwd (static_path location root location))) ''..'' @ rev target))"
  have "resolve cwd (static_path location root (location @ ?rest)) = target"
    unfolding static_path_resolves [OF assms(1), of cwd location ?rest] by (rule resolve_climb [OF assms(2)])
  moreover have "set ?rest \<subseteq> {CHR ''/'', CHR ''.''} \<union> (\<Union>n \<in> set target. set n)" by auto
  ultimately show "\<exists>rest. resolve cwd (static_path location root (location @ rest)) = target
      \<and> set rest \<subseteq> {CHR ''/'', CHR ''.''} \<union> (\<Union>n \<in> set target. set n)" by blast
qed

theorem static_path_reach_witness:
  "\<exists>rest. resolve [''build'', ''app''] (static_path ''/static'' ''/data/'' (''/static'' @ rest)) = [''passwd'', ''etc'']"
  using static_path_reach [of "[Statement [''root'', ''/data''] None]" "''/data/''" "[''passwd'', ''etc'']" "[''build'', ''app'']" "''/static''"]
  by (auto simp: static_init_def file_name_def)

end
