(* ===== verification/Status_Handler.thy ===== *)
theory Status_Handler
  imports Environment
begin

text \<open>
  \<open>StatusRequestHandler\<close> (\<open>src/request_handler/status_handler.cc\<close>): the HTML page made from the
  static members of the dispatcher, which the handler changes and restores while it makes the page.
\<close>

definition code_rows :: "string \<times> nat list \<Rightarrow> string" where
  "code_rows = (\<lambda>(uri, codes).
     concat (map (\<lambda>code. ''<tr><td>'' @ uri @ ''</td><td>'' @ to_string code @ ''</td></tr>'') codes))"

definition handler_row :: "string \<times> string \<Rightarrow> string" where
  "handler_row = (\<lambda>(prefix, name). ''<tr><td>'' @ prefix @ ''</td><td>'' @ name @ ''</td></tr>'')"

definition status_page :: "statistics \<Rightarrow> string" where
  "status_page s =
     (let request_info = concat (map code_rows (request_code_received s));
          request_handler_info = concat (map handler_row (Environment.request_handler_uri s))
      in ''<html><body><h2>Status Handler</h1><div></div>''
         @ ''<table><tr><th>Total Number of Requests</th></tr><tr><td>'' @ to_string (num_requests s)
         @ ''</td></tr></table>''
         @ ''<table><tr><th>Requests Server Received : </th><th>Response Code</th></tr>''
         @ request_info @ ''</table>''
         @ ''<table><tr><th>URL Prefixes : </th><th>Request Handlers Received</th></tr>''
         @ request_handler_info @ ''</table></body></html>'')"

definition status_handle :: "statistics \<Rightarrow> request \<Rightarrow> cpp_fault + (reply \<times> statistics)" where
  "status_handle s req =
     (let s1 = push_code (req_uri req) (status_value Ok) s;
          display_content = status_page s1;
          rep = new_reply\<lparr>rep_code := Ok, rep_body := display_content\<rparr>;
          rep = set_header ''Content-Length'' (to_string (length display_content)) rep;
          rep = set_header ''Content-Type'' ''text/html'' rep
      in rbind (pop_code (req_uri req) s1) (\<lambda>s2. Inr (rep, s2)))"

text \<open>A row of the page, as a part of its text.\<close>

lemma status_page_code_row:
  assumes "smap_find (request_code_received s) uri = Some codes" "code \<in> set codes"
  shows "\<exists>a b. status_page s = a @ ''<tr><td>'' @ uri @ ''</td><td>'' @ to_string code @ ''</td></tr>'' @ b"
proof -
  let ?row = "\<lambda>code. ''<tr><td>'' @ uri @ ''</td><td>'' @ to_string code @ ''</td></tr>''"
  obtain xs ys where codes: "codes = xs @ code # ys" using split_list [OF assms(2)] by blast
  have "(uri, codes) \<in> set (request_code_received s)"
    using assms(1) by (metis map_of_SomeD smap_find_map_of)
  then obtain us vs where m: "request_code_received s = us @ (uri, codes) # vs"
    using split_list by metis
  have "concat (map code_rows (request_code_received s)) =
      (concat (map code_rows us) @ concat (map ?row xs)) @ ?row code
        @ (concat (map ?row ys) @ concat (map code_rows vs))"
    unfolding m codes by (simp add: code_rows_def)
  then obtain a b where info: "concat (map code_rows (request_code_received s)) = a @ ?row code @ b"
    by blast
  show ?thesis
    unfolding status_page_def Let_def info by (simp only: append.assoc) (metis append.assoc)
qed

lemma push_code_find:
  "smap_find (request_code_received (push_code uri code s)) k =
    (if k = uri then Some (codes_of s uri @ [code]) else smap_find (request_code_received s) k)"
  by (simp add: push_code_def codes_of_def smap_at_def Let_def split_def smap_find_set split: option.splits)

text \<open>
  C40. The status page: the handler always answers 200 with a page that has a row for every code
  recorded so far and one for this request's own 200, announced with its length; and the push and pop
  on the shared table cancel out, so no recorded code, handler or counter is changed by it.
\<close>

theorem status_page_complete:
  "\<exists>r s'. status_handle s req = Inr (r, s') \<and> rep_code r = Ok \<and> content_length_ok r
    \<and> (\<forall>uri. \<forall>code \<in> set (codes_of s uri).
         \<exists>a b. rep_body r = a @ ''<tr><td>'' @ uri @ ''</td><td>'' @ to_string code @ ''</td></tr>'' @ b)
    \<and> (\<exists>a b. rep_body r = a @ ''<tr><td>'' @ req_uri req @ ''</td><td>200</td></tr>'' @ b)
    \<and> (\<forall>uri. codes_of s' uri = codes_of s uri)
    \<and> Environment.request_handler_uri s' = Environment.request_handler_uri s
    \<and> num_handlers s' = num_handlers s \<and> num_requests s' = num_requests s"
proof -
  let ?s1 = "push_code (req_uri req) (status_value Ok) s"
  obtain s' where pop: "pop_code (req_uri req) ?s1 = Inr s'" "\<forall>k. codes_of s' k = codes_of s k"
    "request_handler_uri s' = request_handler_uri s" "num_handlers s' = num_handlers s"
    "num_requests s' = num_requests s"
    using pop_push_code by blast
  let ?r = "set_header ''Content-Type'' ''text/html'' (set_header ''Content-Length''
    (to_string (length (status_page ?s1))) (new_reply\<lparr>rep_code := Ok, rep_body := status_page ?s1\<rparr>))"
  have row: "\<exists>a b. status_page ?s1 = a @ ''<tr><td>'' @ uri @ ''</td><td>'' @ to_string code @ ''</td></tr>'' @ b"
    if mem: "code \<in> set (codes_of s uri)" for uri code
  proof (cases "uri = req_uri req")
    case True
    with that show ?thesis
      by (intro status_page_code_row [of _ _ "codes_of s uri @ [status_value Ok]"])
         (simp_all add: push_code_find)
  next
    case False
    obtain codes where "smap_find (request_code_received s) uri = Some codes" "code \<in> set codes"
      using mem by (cases "smap_find (request_code_received s) uri") (auto simp: codes_of_def)
    with False show ?thesis
      by (intro status_page_code_row [of _ _ codes]) (simp_all add: push_code_find)
  qed
  have n200: "to_string 200 = ''200''" by (simp add: to_string.simps)
  have own: "\<exists>a b. status_page ?s1 = a @ ''<tr><td>'' @ req_uri req @ ''</td><td>'' @ to_string 200 @ ''</td></tr>'' @ b"
    by (rule status_page_code_row [of _ _ "codes_of s (req_uri req) @ [status_value Ok]"])
       (simp_all add: push_code_find)
  have "status_handle s req = Inr (?r, s')"
    using pop(1) by (simp add: status_handle_def Let_def)
  moreover have "rep_code ?r = Ok" "content_length_ok ?r" "rep_body ?r = status_page ?s1"
    by (simp_all add: content_length_ok_def)
  ultimately show ?thesis using pop row own n200 by auto
qed

theorem status_page_complete_witness:
  "\<exists>r s' a b. status_handle (push_code ''/x'' 404 new_statistics) ((new_request None 0 0)\<lparr>req_uri := ''/status''\<rparr>)
      = Inr (r, s') \<and> rep_body r = a @ ''<tr><td>'' @ ''/x'' @ ''</td><td>'' @ to_string 404 @ ''</td></tr>'' @ b"
proof -
  have "404 \<in> set (codes_of (push_code ''/x'' 404 new_statistics) ''/x'')" by simp
  then show ?thesis
    using status_page_complete [of "push_code ''/x'' 404 new_statistics"
        "(new_request None 0 0)\<lparr>req_uri := ''/status''\<rparr>"] by blast
qed

end
