(* ===== verification/Db.thy ===== *)
theory Db
  imports Environment
begin

text \<open>
  \<open>src/db\<close>: the \<open>db_instance\<close> singleton with its connection pool and the \<open>db_handler\<close> that stores
  and lists Markdown submissions. The MongoDB driver is a parameter (\<open>environment\<close>); the connection
  string is an argument, since nothing depends on what it says.
\<close>

section \<open>db_instance\<close>

text \<open>
  \<open>createPool\<close> makes a pool only once, and leaves the pointer null when the constructors of the URI or
  of the pool throw; \<open>getClientFromPool\<close> dereferences the pointer, and \<open>acquire\<close> can throw.
\<close>

definition driver_call :: "string option \<times> 'w \<Rightarrow> 'a \<Rightarrow> 'w process \<Rightarrow> (cpp_fault + 'a) \<times> 'w process" where
  "driver_call outcome x p =
     (case outcome of
        (Some msg, w) \<Rightarrow> (Inl (RuntimeError msg), p\<lparr>world := w\<rparr>)
      | (None, w) \<Rightarrow> (Inr x, p\<lparr>world := w\<rparr>))"

definition create_pool :: "'w environment \<Rightarrow> string \<Rightarrow> 'w process \<Rightarrow> (cpp_fault + unit) \<times> 'w process" where
  "create_pool env uri p =
     (case client_pool p of
        Some pool \<Rightarrow> (Inr (), p)
      | None \<Rightarrow>
          (case driver_call (db_open env uri (world p)) () p of
             (Inl e, p) \<Rightarrow> (Inl e, p)
           | (Inr u, p) \<Rightarrow> (Inr (), p\<lparr>client_pool := Some uri\<rparr>)))"

definition get_client_from_pool :: "'w environment \<Rightarrow> 'w process \<Rightarrow> (cpp_fault + string) \<times> 'w process" where
  "get_client_from_pool env p =
     (case client_pool p of
        None \<Rightarrow> (Inl NullDeref, p)
      | Some pool \<Rightarrow> driver_call (db_acquire env (world p)) pool p)"

section \<open>db_handler\<close>

record db_handler =
  db_name :: string
  collection_name :: string

definition new_db_handler ::
  "'w environment \<Rightarrow> string \<Rightarrow> string \<Rightarrow> string \<Rightarrow> 'w process \<Rightarrow> (cpp_fault + db_handler) \<times> 'w process" where
  "new_db_handler env uri db coll p =
     (case create_pool env uri p of
        (Inl e, p) \<Rightarrow> (Inl e, p)
      | (Inr u, p) \<Rightarrow> (Inr \<lparr>db_name = db, collection_name = coll\<rparr>, p))"

text \<open>
  \<open>insert\<close>: a \<open>bsoncxx\<close> exception and a bulk write exception are caught and give -1; any other
  exception leaves the function.
\<close>

definition insert_document ::
  "'w environment \<Rightarrow> db_handler \<Rightarrow> string \<Rightarrow> 'w process \<Rightarrow> (cpp_fault + int) \<times> 'w process" where
  "insert_document env h json p =
     (case db_insert env (db_name h) (collection_name h) json (world p) of
        (outcome, w) \<Rightarrow>
          (case outcome of
             Stored \<Rightarrow> Inr 0
           | Bson_exception msg \<Rightarrow> Inr (- 1)
           | Bulk_write_exception msg \<Rightarrow> Inr (- 1)
           | Other_exception msg \<Rightarrow> Inl (RuntimeError msg), p\<lparr>world := w\<rparr>))"

definition insert_markdown ::
  "'w environment \<Rightarrow> db_handler \<Rightarrow> string \<Rightarrow> 'w process \<Rightarrow> (cpp_fault + int) \<times> 'w process" where
  "insert_markdown env h md p =
     (case doc_json env md of
        None \<Rightarrow> (Inl (RuntimeError ''bsoncxx''), p)
      | Some json \<Rightarrow>
          (case get_client_from_pool env p of
             (Inl e, p) \<Rightarrow> (Inl e, p)
           | (Inr client, p) \<Rightarrow> insert_document env h json p))"

text \<open>
  \<open>DBHelper\<close>: the \<open>md\<close> fields of the documents, in the order of the cursor. A document without one
  throws a \<open>bsoncxx\<close> exception, which is not caught; the driver's \<open>operation_exception\<close> is caught and
  what was read before it is returned.
\<close>

fun collect_md :: "string option list \<Rightarrow> cpp_fault + string list" where
  "collect_md [] = Inr []"
| "collect_md (None # docs) = Inl (RuntimeError ''bsoncxx'')"
| "collect_md (Some md # docs) = rbind (collect_md docs) (\<lambda>mds. Inr (md # mds))"

definition db_helper ::
  "'w environment \<Rightarrow> db_handler \<Rightarrow> 'w process \<Rightarrow> (cpp_fault + string list) \<times> 'w process" where
  "db_helper env h p =
     (case db_find env (db_name h) (collection_name h) (world p) of
        ((docs, operation_exception), w) \<Rightarrow> (collect_md docs, p\<lparr>world := w\<rparr>))"

text \<open>The loop of \<open>getTenMarkdowns\<close> with its counter \<open>n\<close>.\<close>

fun last_ten :: "int \<Rightarrow> int \<Rightarrow> string list \<Rightarrow> string list" where
  "last_ten n_end n [] = []"
| "last_ten n_end n (md # mds) = (if n_end - n \<le> 10 then [md] else []) @ last_ten n_end (n + 1) mds"

definition get_ten_markdowns ::
  "'w environment \<Rightarrow> db_handler \<Rightarrow> 'w process \<Rightarrow> (cpp_fault + string list) \<times> 'w process" where
  "get_ten_markdowns env h p =
     (case get_client_from_pool env p of
        (Inl e, p) \<Rightarrow> (Inl e, p)
      | (Inr client, p) \<Rightarrow>
          (case db_helper env h p of
             (Inl e, p') \<Rightarrow> (Inl e, p')
           | (Inr mds, p') \<Rightarrow> (Inr (last_ten (int (length mds)) 0 mds), p')))"

lemma collect_md_Some: "collect_md (map Some mds) = Inr mds"
  by (induction mds) auto

lemma last_ten_drop:
  "last_ten (n + int (length mds)) n mds = drop (length mds - 10) mds"
proof (induction mds arbitrary: n)
  case (Cons md mds)
  have IH: "last_ten (n + int (length (md # mds))) (n + 1) mds = drop (length mds - 10) mds"
    using Cons [of "n + 1"] by (simp add: algebra_simps)
  show ?case
  proof (cases "length mds < 10")
    case False
    then have "length (md # mds) - 10 = Suc (length mds - 10)" by simp
    with False IH show ?thesis by (simp only: drop_Suc_Cons) simp
  qed (use IH in simp)
qed simp

text \<open>
  When the driver does not throw: a handler is made over the first pool there was, and a client is
  found; \<open>opened\<close> is the process then. (The driver's calls may change the world.)
\<close>

definition opened :: "'w environment \<Rightarrow> string \<Rightarrow> 'w process \<Rightarrow> 'w process" where
  "opened env uri p =
     (case client_pool p of
        Some pool \<Rightarrow> p
      | None \<Rightarrow> p\<lparr>world := snd (db_open env uri (world p)), client_pool := Some uri\<rparr>)"

definition acquired :: "'w environment \<Rightarrow> 'w process \<Rightarrow> 'w process" where
  "acquired env p = p\<lparr>world := snd (db_acquire env (world p))\<rparr>"

lemma new_db_handler_ok:
  assumes "client_pool p = None \<Longrightarrow> fst (db_open env uri (world p)) = None"
  shows "new_db_handler env uri db coll p = (Inr \<lparr>db_name = db, collection_name = coll\<rparr>, opened env uri p)"
  using assms
  by (cases "db_open env uri (world p)")
    (auto simp: new_db_handler_def create_pool_def driver_call_def opened_def split: option.splits)

lemma new_db_handler_made:
  assumes "new_db_handler env uri db coll p = (Inr h, p1)"
  shows "h = \<lparr>db_name = db, collection_name = coll\<rparr> \<and> client_pool p1 \<noteq> None \<and> (client_pool p \<noteq> None \<longrightarrow> p1 = p)"
proof (cases "client_pool p")
  case None
  obtain m w where "db_open env uri (world p) = (m, w)" by (cases "db_open env uri (world p)")
  with None assms show ?thesis
    by (cases m) (auto simp: new_db_handler_def create_pool_def driver_call_def)
qed (use assms in \<open>auto simp: new_db_handler_def create_pool_def\<close>)

lemma get_client_ok:
  assumes "client_pool p = Some pool" "fst (db_acquire env (world p)) = None"
  shows "get_client_from_pool env p = (Inr pool, acquired env p)"
  using assms
  by (cases "db_acquire env (world p)") (simp add: get_client_from_pool_def driver_call_def acquired_def)

lemma opened_pool: "client_pool (opened env uri p) = Some (case client_pool p of None \<Rightarrow> uri | Some pool \<Rightarrow> pool)"
  by (simp add: opened_def split: option.splits)

lemma insert_markdown_ok:
  assumes "client_pool p = Some pool" "fst (db_acquire env (world p)) = None" "doc_json env md = Some json"
  shows "insert_markdown env h md p = insert_document env h json (acquired env p)"
  using assms by (simp add: insert_markdown_def get_client_ok)

lemma get_ten_ok:
  assumes "client_pool p = Some pool" "fst (db_acquire env (world p)) = None"
    and "db_find env (db_name h) (collection_name h) (world (acquired env p)) = ((map Some mds, exc), w)"
  shows "get_ten_markdowns env h p = (Inr (drop (length mds - 10) mds), (acquired env p)\<lparr>world := w\<rparr>)"
  using assms last_ten_drop [of 0 mds]
  by (simp add: get_ten_markdowns_def get_client_ok db_helper_def collect_md_Some)

text \<open>
  The database handler: when a pool can be made and a client acquired, the listing is the last ten
  submissions in the order in which the database yields them, or all of them when there are fewer; and
  an insertion returns 0 only when the driver stored the document, -1 for the two exceptions that are
  caught, and throws for any other. When the pool cannot be made or no client is acquired, the
  driver's exception leaves the handler, and no pool is kept.
\<close>

theorem db_lists_last_ten:
  assumes "new_db_handler env uri db coll p = (Inr h, p1)"
    and "fst (db_acquire env (world p1)) = None"
    and "db_find env db coll (snd (db_acquire env (world p1))) = ((map Some mds, exc), w)"
  shows "client_pool p1 \<noteq> None
    \<and> (client_pool p \<noteq> None \<longrightarrow> p1 = p)
    \<and> get_ten_markdowns env h p1 = (Inr (drop (length mds - 10) mds), p1\<lparr>world := w\<rparr>)
    \<and> (\<forall>md json. doc_json env md = Some json \<longrightarrow>
         fst (insert_markdown env h md p1) =
           (case fst (db_insert env db coll json (snd (db_acquire env (world p1)))) of
              Stored \<Rightarrow> Inr 0
            | Bson_exception m \<Rightarrow> Inr (- 1)
            | Bulk_write_exception m \<Rightarrow> Inr (- 1)
            | Other_exception m \<Rightarrow> Inl (RuntimeError m)))"
proof -
  note made = new_db_handler_made [OF assms(1)]
  then have h: "h = \<lparr>db_name = db, collection_name = coll\<rparr>"
    and pool: "client_pool p1 \<noteq> None" "client_pool p \<noteq> None \<longrightarrow> p1 = p" by simp_all
  then obtain c where c: "client_pool p1 = Some c" by auto
  have "get_ten_markdowns env h p1 = (Inr (drop (length mds - 10) mds), p1\<lparr>world := w\<rparr>)"
    using get_ten_ok [OF c assms(2), of h mds exc w] assms(3) by (simp add: h acquired_def)
  moreover have "fst (insert_markdown env h md p1) =
      (case fst (db_insert env db coll json (snd (db_acquire env (world p1)))) of
         Stored \<Rightarrow> Inr 0
       | Bson_exception m \<Rightarrow> Inr (- 1)
       | Bulk_write_exception m \<Rightarrow> Inr (- 1)
       | Other_exception m \<Rightarrow> Inl (RuntimeError m))" if "doc_json env md = Some json" for md json
    by (simp add: insert_markdown_ok [OF c assms(2) that] insert_document_def acquired_def h split: prod.split)
  ultimately show ?thesis using pool by blast
qed

definition twelve_posts :: "nat environment" where
  "twelve_posts = \<lparr>replace_all = replace_ref, fs_exists = (\<lambda>w p. Inr False), fs_regular = (\<lambda>w p. Inr False),
     fs_read = (\<lambda>w p. None), db_open = (\<lambda>u w. (None, w)), db_acquire = (\<lambda>w. (None, w)), doc_json = (\<lambda>s. Some s),
     db_insert = (\<lambda>d c s w. (Stored, w + 1)),
     db_find = (\<lambda>d c w. ((map Some (map to_string [0..<w]), None), w))\<rparr>"

theorem db_lists_last_ten_witness:
  "fst (get_ten_markdowns twelve_posts \<lparr>db_name = ''WFH'', collection_name = ''markdown''\<rparr>
     \<lparr>world = 12, client_pool = Some ''u'', stats = new_statistics\<rparr>) = Inr (map to_string [2..<12])"
proof -
  let ?p = "\<lparr>world = (12 :: nat), client_pool = None, stats = new_statistics\<rparr>"
  have "new_db_handler twelve_posts ''u'' ''WFH'' ''markdown'' ?p =
      (Inr \<lparr>db_name = ''WFH'', collection_name = ''markdown''\<rparr>, ?p\<lparr>client_pool := Some ''u''\<rparr>)"
    by (simp add: new_db_handler_def create_pool_def driver_call_def twelve_posts_def)
  moreover have "drop (length (map to_string [0..<12]) - 10) (map to_string [0..<12]) = map to_string [2..<12]"
    unfolding drop_map drop_upt length_map length_upt
    by (rule arg_cong [where f = "map to_string"], rule arg_cong2 [of _ _ _ _ upt]) simp_all
  ultimately show ?thesis
    using db_lists_last_ten [of twelve_posts "''u''" "''WFH''" "''markdown''" ?p _ _ "map to_string [0..<12]" None 12]
    by (simp add: twelve_posts_def del: upt_rec_numeral)
qed

end
