(* ===== verification/Markdown_Handler.thy ===== *)
theory Markdown_Handler
  imports Static_Handler Db
begin

text \<open>
  \<open>MarkdownHandler\<close> (\<open>src/request_handler/markdown_handler.cc\<close>): the URL decoder, the page that shows
  a submission and the form with the last ten.
\<close>

section \<open>urldecode2\<close>

text \<open>
  A hexadecimal digit as the code computes it on a (signed) \<open>char\<close>, and the decoder from a C string
  (without its terminating NUL) to the characters it writes before the terminating NUL.
\<close>

definition hex_val :: "char \<Rightarrow> int" where
  "hex_val c =
     (let a = schar c;
          a = (if 97 \<le> a then a - 32 else a)
      in if 65 \<le> a then a - 55 else a - 48)"

fun urldecode2 :: "string \<Rightarrow> string" where
  "urldecode2 [] = []"
| "urldecode2 (c # a # b # s) =
     (if c = CHR ''%'' \<and> isxdigit a \<and> isxdigit b
      then char_of (nat ((16 * hex_val a + hex_val b) mod 256)) # urldecode2 s
      else if c = CHR ''+'' then CHR '' '' # urldecode2 (a # b # s)
      else c # urldecode2 (a # b # s))"
| "urldecode2 (c # s) = (if c = CHR ''+'' then CHR '' '' # urldecode2 s else c # urldecode2 s)"

text \<open>
  \<open>viewMarkdown\<close> decodes into an array of \<open>input_.size()\<close> characters; with the terminating NUL one more
  character is written than was decoded. \<open>after c s\<close> is \<open>find(c) + 1\<close>, where \<open>npos + 1\<close> wraps to 0.
\<close>

definition decode_input :: "string \<Rightarrow> cpp_fault + string" where
  "decode_input input =
     (let decoded = urldecode2 (takeWhile (\<lambda>c. c \<noteq> NUL) input)
      in if length input < length decoded + 1 then Inl BufferOverflow
         else Inr (takeWhile (\<lambda>c. c \<noteq> NUL) decoded))"

definition after :: "char \<Rightarrow> string \<Rightarrow> nat" where
  "after c s = (case find_char s c of None \<Rightarrow> 0 | Some i \<Rightarrow> i + 1)"

definition find_pos :: "char \<Rightarrow> string \<Rightarrow> nat" where
  "find_pos c s = (case find_char s c of None \<Rightarrow> npos | Some i \<Rightarrow> i)"

definition extract_input :: "string \<Rightarrow> cpp_fault + string" where
  "extract_input body =
     rbind (substr body (after (CHR '' '') body) npos) (\<lambda>trimmed.
       substr trimmed (after (CHR ''='') trimmed)
         (size_sub (find_pos (CHR '' '') trimmed) (after (CHR ''='') trimmed)))"

section \<open>The handler\<close>

definition view_markdown ::
  "'w environment \<Rightarrow> string \<Rightarrow> 'w process \<Rightarrow> request \<Rightarrow> (cpp_fault + reply) \<times> 'w process" where
  "view_markdown env uri p req =
     (case rbind (extract_input (req_body req)) decode_input of
        Inl e \<Rightarrow> (Inl e, p)
      | Inr decoded \<Rightarrow>
          (let cleaned = replace_all env decoded crlf [LF];
               (made, p1) = new_db_handler env uri ''WFH'' ''markdown'' p
           in case made of
                Inl e \<Rightarrow> (Inl e, p1)
              | Inr db \<Rightarrow>
             (case insert_markdown env db cleaned p1 of
                (Inl e, p2) \<Rightarrow> (Inl e, p2)
              | (Inr status, p2) \<Rightarrow>
                  (rbind (markdown_parse None cleaned) (\<lambda>html.
                     let rep = new_reply\<lparr>rep_code := Ok, rep_body := html\<rparr>;
                         rep = set_header ''Content-Length'' (to_string (length html)) rep
                     in Inr (set_header ''Content-Type'' ''text/html'' rep)), p2))))"

fun post_rows :: "string list \<Rightarrow> cpp_fault + string" where
  "post_rows [] = Inr []"
| "post_rows (post # posts) =
     rbind (markdown_parse None post) (\<lambda>html.
       rbind (post_rows posts) (\<lambda>rows.
         Inr (''<tr><td>'' @ post @ ''</td><td>'' @ html @ ''</td></tr>'' @ rows)))"

definition input_form_path :: string where
  "input_form_path = ''../data/input_form.html''"

definition create_form ::
  "'w environment \<Rightarrow> string \<Rightarrow> 'w process \<Rightarrow> request \<Rightarrow> (cpp_fault + reply) \<times> 'w process" where
  "create_form env uri p req =
     (case regular_file env (world p) input_form_path of
        Inl e \<Rightarrow> (Inl e, p)
      | Inr found \<Rightarrow>
          (if \<not> found then (Inr (stock_reply (replace_all env) Internal_server_error), p)
           else case fs_read env (world p) input_form_path of
             None \<Rightarrow> (Inr (stock_reply (replace_all env) Internal_server_error), p)
           | Some form \<Rightarrow>
               (case new_db_handler env uri ''WFH'' ''markdown'' p of
                  (Inl e, p1) \<Rightarrow> (Inl e, p1)
                | (Inr db, p1) \<Rightarrow>
                    (case get_ten_markdowns env db p1 of
                       (Inl e, p2) \<Rightarrow> (Inl e, p2)
                     | (Inr posts, p2) \<Rightarrow>
                         (rbind (post_rows posts) (\<lambda>rows.
                            let content = form @ ''<div><h3>10 Recent Markdown Submissions</h3></div>''
                                          @ ''<table><tr><th>Raw Input</th><th>Markdown</th>'' @ rows
                                          @ ''</table>'' @ ''</body></html>'';
                                rep = new_reply\<lparr>rep_code := Ok\<rparr>;
                                rep = set_header ''Content-Length'' (to_string (length content)) rep;
                                rep = set_header ''Content-Type'' ''text/html'' rep
                            in Inr (rep\<lparr>rep_body := content\<rparr>)), p2)))))"

definition view_prefix :: string where
  "view_prefix = ''/markdown/view?markdown_input=''"

definition markdown_handle ::
  "'w environment \<Rightarrow> string \<Rightarrow> 'w process \<Rightarrow> request \<Rightarrow> (cpp_fault + reply) \<times> 'w process" where
  "markdown_handle env uri p req =
     (if req_uri req = ''/markdown'' then create_form env uri p req
      else if take 30 (req_uri req) = view_prefix then view_markdown env uri p req
      else create_form env uri p req)"

section \<open>Encoding and decoding\<close>

text \<open>
  The encoding a browser applies to the bytes of a form field (\<open>application/x-www-form-urlencoded\<close>):
  letters, digits and the characters \<open>*\<close>, \<open>-\<close>, \<open>.\<close> and \<open>_\<close> stay, a blank is a plus sign, any other byte
  is a percent sign and two digits.
\<close>

definition hex_char :: "nat \<Rightarrow> char" where
  "hex_char d = (if d < 10 then char_of (48 + d) else char_of (55 + d))"

definition form_plain :: "char \<Rightarrow> bool" where
  "form_plain c \<longleftrightarrow> isdigit c \<or> (65 \<le> schar c \<and> schar c \<le> 90) \<or> (97 \<le> schar c \<and> schar c \<le> 122)
     \<or> c \<in> {CHR ''*'', CHR ''-'', CHR ''.'', CHR ''_''}"

definition form_encode_char :: "char \<Rightarrow> string" where
  "form_encode_char c =
     (if form_plain c then [c]
      else if c = CHR '' '' then ''+''
      else [CHR ''%'', hex_char (of_char c div 16), hex_char (of_char c mod 16)])"

definition form_encode :: "string \<Rightarrow> string" where
  "form_encode s = concat (map form_encode_char s)"

lemma hex_char_digit:
  assumes "d < 16"
  shows "isxdigit (hex_char d)" "hex_val (hex_char d) = int d"
proof -
  have "of_char (hex_char d) = (if d < 10 then 48 + d else 55 + d)"
    using assms by (simp add: hex_char_def)
  then have "schar (hex_char d) = (if d < 10 then 48 + int d else 55 + int d)"
    using assms by (simp add: schar_def)
  then show "isxdigit (hex_char d)" "hex_val (hex_char d) = int d"
    using assms by (simp_all add: isxdigit_def isdigit_def hex_val_def Let_def)
qed

lemma urldecode2_plain:
  "c \<noteq> CHR ''%'' \<Longrightarrow> urldecode2 (c # s) = (if c = CHR ''+'' then CHR '' '' else c) # urldecode2 s"
  by (cases s rule: urldecode2.cases) auto

lemma urldecode2_encoded: "urldecode2 (form_encode_char c @ s) = c # urldecode2 s"
proof (cases "form_plain c \<or> c = CHR '' ''")
  case True
  then have "c \<noteq> CHR ''%''" "c \<noteq> CHR ''+''" by (auto simp: form_plain_def isdigit_def schar_def)
  with True show ?thesis
    by (auto simp: form_encode_char_def urldecode2_plain)
next
  case False
  let ?n = "of_char c :: nat"
  have "?n < 256" by (rule of_char_bound)
  then have n: "?n div 16 < 16" "?n mod 16 < 16" by (auto simp: less_mult_imp_div_less)
  have "16 * int (?n div 16) + int (?n mod 16) = int ?n"
    by (metis mult_div_mod_eq of_nat_add of_nat_mult of_nat_numeral)
  then have "char_of (nat ((16 * int (?n div 16) + int (?n mod 16)) mod 256)) = c"
    using \<open>?n < 256\<close> by simp
  with False n show ?thesis
    by (auto simp: form_encode_char_def hex_char_digit)
qed

text \<open>
  Decoding undoes the encoding of a browser: for every text, of any bytes, \<open>urldecode2\<close> of its
  form encoding is the text itself.
\<close>

theorem url_round_trip:
  "urldecode2 (form_encode s) = s"
  by (induction s) (simp_all add: form_encode_def urldecode2_encoded)

lemma urldecode2_length: "length (urldecode2 s) \<le> length s"
  by (induction s rule: urldecode2.induct) auto

lemma urldecode2_no_escape: "CHR ''%'' \<notin> set s \<Longrightarrow> length (urldecode2 s) = length s"
  by (induction s) (auto simp: urldecode2_plain)

lemma takeWhile_all: "c \<notin> set s \<Longrightarrow> takeWhile (\<lambda>x. x \<noteq> c) s = s"
  by (induction s) auto

text \<open>The submission in a request line \<open>METHOD path=input rest\<close>.\<close>

lemma extract_input_request_line:
  assumes "CHR '' '' \<notin> set m" "CHR ''='' \<notin> set path" "CHR '' '' \<notin> set path" "CHR '' '' \<notin> set input"
    "body = m @ '' '' @ path @ ''='' @ input @ '' '' @ rest" "length body < 2 ^ 64"
  shows "extract_input body = Inr input"
proof -
  let ?t = "path @ CHR ''='' # input @ CHR '' '' # rest"
  have body: "body = m @ CHR '' '' # ?t" using assms(5) by simp
  have space: "find_char body (CHR '' '') = Some (length m)"
    unfolding body using assms(1) by (rule find_char_mid)
  have eq: "find_char ?t (CHR ''='') = Some (length path)"
    using assms(2) by (rule find_char_mid)
  have "find_char ((path @ CHR ''='' # input) @ CHR '' '' # rest) (CHR '' '') = Some (length (path @ CHR ''='' # input))"
    by (rule find_char_mid) (use assms(3,4) in auto)
  then have stop: "find_char ?t (CHR '' '') = Some (length path + 1 + length input)" by simp
  have len: "length path + length input + length rest + 3 + length m < 2 ^ 64"
    using assms(6) unfolding body by simp
  then have "size_sub (length path + 1 + length input) (length path + 1) = length input"
    by (subst size_sub_ge) simp_all
  with eq stop have "substr ?t (after (CHR ''='') ?t) (size_sub (find_pos (CHR '' '') ?t) (after (CHR ''='') ?t)) = Inr input"
    by (simp add: after_def find_pos_def substr_def)
  moreover have "take npos ?t = ?t" using len by (simp add: npos_def)
  then have "substr body (after (CHR '' '') body) npos = Inr ?t"
    by (simp add: after_def space substr_def) (simp add: body)
  ultimately show ?thesis by (simp add: extract_input_def)
qed

lemma form_encode_chars:
  "x \<in> set (form_encode s) \<Longrightarrow> x \<noteq> CHR '' '' \<and> x \<noteq> NUL"
proof -
  assume "x \<in> set (form_encode s)"
  then obtain c where c: "x \<in> set (form_encode_char c)" by (auto simp: form_encode_def)
  have "of_char c div 16 < (16 :: nat)" "of_char c mod 16 < (16 :: nat)"
    using of_char_bound [of c] by (auto simp: less_mult_imp_div_less)
  then have "isxdigit (hex_char (of_char c div 16))" "isxdigit (hex_char (of_char c mod 16))"
    by (simp_all add: hex_char_digit)
  moreover have "\<not> isxdigit (CHR '' '')" "\<not> isxdigit NUL"
    by (simp_all add: isxdigit_def isdigit_def schar_def)
  ultimately show "x \<noteq> CHR '' '' \<and> x \<noteq> NUL"
    using c by (auto simp: form_encode_char_def form_plain_def isdigit_def schar_def split: if_splits)
qed

text \<open>A text that the browser sends without any \<open>%\<close> escape.\<close>

definition unescaped :: "string \<Rightarrow> bool" where
  "unescaped s \<longleftrightarrow> list_all (\<lambda>c. length (form_encode_char c) = 1) s"

lemma unescaped_plain: "unescaped s \<longleftrightarrow> (\<forall>c \<in> set s. form_plain c \<or> c = CHR '' '')"
  by (auto simp: unescaped_def list_all_iff form_encode_char_def)

lemma form_encode_length:
  "if unescaped s then length (form_encode s) = length s else length s < length (form_encode s)"
proof (induction s)
  case (Cons c s)
  have "1 \<le> length (form_encode_char c)" by (simp add: form_encode_char_def)
  with Cons show ?case by (auto simp: unescaped_def form_encode_def split: if_splits)
qed (simp add: unescaped_def form_encode_def)

lemma decode_input_encoded:
  assumes "NUL \<notin> set s"
  shows "decode_input (form_encode s) = (if unescaped s then Inl BufferOverflow else Inr s)"
proof -
  have "urldecode2 (form_encode s) = s"
    by (induction s) (simp_all add: form_encode_def urldecode2_encoded)
  moreover have "NUL \<notin> set (form_encode s)" using form_encode_chars by blast
  ultimately show ?thesis
    using form_encode_length [of s] assms by (auto simp: decode_input_def takeWhile_all split: if_splits)
qed

text \<open>
  C38. A submission: when a browser sends the text \<open>s\<close>, the handler hands exactly \<open>s\<close> (CR LF turned into
  LF) to the database and answers 200 with the HTML of that text, also when the database refused it
  with one of the exceptions that are caught; when the connection to the database cannot be made, the
  driver's exception leaves the handler. But if the browser had nothing to escape (\<open>s\<close> is empty, or made
  of letters, digits, blanks and the characters \<open>*\<close>, \<open>-\<close>, \<open>.\<close>, \<open>_\<close> only), the decoded form fills the
  array, and the terminating NUL is written one byte past its end.
\<close>

theorem markdown_submission:
  fixes env :: "'w environment" and s uri :: string and p :: "'w process"
  assumes "req_body req = m @ '' '' @ path @ ''='' @ form_encode s @ '' '' @ rest"
    "CHR '' '' \<notin> set m" "CHR ''='' \<notin> set path" "CHR '' '' \<notin> set path" "NUL \<notin> set s"
    "length (req_body req) < 2 ^ 64"
  defines "text \<equiv> replace_all env s crlf [LF]"
  shows "if \<forall>c \<in> set s. form_plain c \<or> c = CHR '' '' then view_markdown env uri p req = (Inl BufferOverflow, p)
    else (\<forall>e p1. new_db_handler env uri ''WFH'' ''markdown'' p = (Inl e, p1) \<longrightarrow>
        view_markdown env uri p req = (Inl e, p1))
      \<and> (\<forall>h p1 n p2 html. new_db_handler env uri ''WFH'' ''markdown'' p = (Inr h, p1)
          \<and> insert_markdown env h text p1 = (Inr n, p2) \<and> markdown_parse None text = Inr html \<longrightarrow>
        (\<exists>r. view_markdown env uri p req = (Inr r, p2) \<and> rep_code r = Ok \<and> rep_body r = html \<and> framed r))"
proof -
  have "CHR '' '' \<notin> set (form_encode s)" using form_encode_chars by blast
  then have "extract_input (req_body req) = Inr (form_encode s)"
    using extract_input_request_line [OF assms(2-4) _ assms(1,6)] by blast
  then have decoded: "rbind (extract_input (req_body req)) decode_input =
      (if unescaped s then Inl BufferOverflow else Inr s)"
    using decode_input_encoded [OF assms(5)] by simp
  show ?thesis
    unfolding unescaped_plain [symmetric]
    by (auto simp: view_markdown_def decoded Let_def text_def [symmetric])
qed

definition storing :: "unit environment" where
  "storing = \<lparr>replace_all = replace_ref, fs_exists = (\<lambda>w p. Inr False), fs_regular = (\<lambda>w p. Inr False),
     fs_read = (\<lambda>w p. None), db_open = (\<lambda>u w. (None, w)), db_acquire = (\<lambda>w. (None, w)), doc_json = (\<lambda>s. Some s),
     db_insert = (\<lambda>d c s w. (Stored, w)), db_find = (\<lambda>d c w. (([], None), w))\<rparr>"

lemma storing_inserts:
  "new_db_handler storing uri d c \<lparr>world = (), client_pool = None, stats = st\<rparr> =
     (Inr \<lparr>db_name = d, collection_name = c\<rparr>, \<lparr>world = (), client_pool = Some uri, stats = st\<rparr>)"
  "replace_all storing = replace_ref"
  "insert_markdown storing h md \<lparr>world = (), client_pool = Some uri, stats = st\<rparr> =
     (Inr 0, \<lparr>world = (), client_pool = Some uri, stats = st\<rparr>)"
  by (simp_all add: storing_def new_db_handler_def create_pool_def driver_call_def insert_markdown_def
      get_client_from_pool_def insert_document_def)

theorem markdown_submission_witness:
  "fst (view_markdown storing ''u'' \<lparr>world = (), client_pool = None, stats = new_statistics\<rparr>
     ((new_request None 0 0)\<lparr>req_body := ''GET /markdown/view?markdown_input=a-b. HTTP/1.1''\<rparr>)) = Inl BufferOverflow
   \<and> (\<exists>r. view_markdown storing ''u'' \<lparr>world = (), client_pool = None, stats = new_statistics\<rparr>
       ((new_request None 0 0)\<lparr>req_body := ''GET /markdown/view?markdown_input=%23+hi HTTP/1.1''\<rparr>)
       = (Inr r, \<lparr>world = (), client_pool = Some ''u'', stats = new_statistics\<rparr>) \<and> rep_body r = ''<h1>hi</h1>'')"
proof -
  let ?req = "\<lambda>b. (new_request None 0 0)\<lparr>req_body := b\<rparr>" and ?p = "\<lparr>world = (), client_pool = None, stats = new_statistics\<rparr>"
  have e: "form_encode ''a-b.'' = ''a-b.''" "form_encode ''# hi'' = ''%23+hi''" "replace_ref ''# hi'' crlf [LF] = ''# hi''"
    "markdown_parse None ''# hi'' = Inr ''<h1>hi</h1>''" by code_simp+
  have plain: "\<forall>c \<in> set ''a-b.''. form_plain c \<or> c = CHR '' ''" "\<not> (\<forall>c \<in> set ''# hi''. form_plain c \<or> c = CHR '' '')"
    by (simp_all add: form_plain_def isdigit_def schar_def)
  have "view_markdown storing ''u'' ?p (?req ''GET /markdown/view?markdown_input=a-b. HTTP/1.1'') = (Inl BufferOverflow, ?p)"
    using markdown_submission [of "?req ''GET /markdown/view?markdown_input=a-b. HTTP/1.1''"
        "''GET''" "''/markdown/view?markdown_input''" "''a-b.''" "''HTTP/1.1''" storing "''u''" ?p] plain(1)
    by (simp add: e)
  moreover have "\<exists>r. view_markdown storing ''u'' ?p (?req ''GET /markdown/view?markdown_input=%23+hi HTTP/1.1'')
      = (Inr r, ?p\<lparr>client_pool := Some ''u''\<rparr>) \<and> rep_body r = ''<h1>hi</h1>''"
    using markdown_submission [of "?req ''GET /markdown/view?markdown_input=%23+hi HTTP/1.1''"
        "''GET''" "''/markdown/view?markdown_input''" "''# hi''" "''HTTP/1.1''" storing "''u''" ?p] plain(2)
    by (auto simp: e storing_inserts)
  ultimately show ?thesis by auto
qed

end
