(* ===== verification/Gzip.thy ===== *)
theory Gzip
  imports Prelude
begin

text \<open>
  \<open>gzip/compress.h\<close> and \<open>gzip/decompress.h\<close>: the loops that drive a zlib stream into a growing
  string. zlib is a parameter; a stream \<open>'z\<close> includes the input that was handed to it. The loops
  need not end, so they are option-valued: \<open>None\<close> is a call that never returns. \<open>debug\<close> is whether the
  size checks under \<open>#ifdef DEBUG\<close> are compiled in; the program is built without them.
\<close>

section \<open>zlib\<close>

text \<open>
  \<open>deflate_init level input\<close> is \<open>deflateInit2\<close> with \<open>next_in\<close> and \<open>avail_in\<close> set (\<open>None\<close>: not \<open>Z_OK\<close>);
  \<open>deflate z n\<close> is \<open>deflate(&z, Z_FINISH)\<close> with \<open>n\<close> bytes of room, giving the bytes it writes;
  \<open>inflate\<close> also returns its code, and \<open>inflate_msg\<close> is the \<open>msg\<close> pointer of the stream.
\<close>

record 'z zlib =
  deflate_init :: "int \<Rightarrow> string \<Rightarrow> 'z option"
  deflate :: "'z \<Rightarrow> nat \<Rightarrow> string \<times> 'z"
  inflate_init :: "string \<Rightarrow> 'z option"
  inflate :: "'z \<Rightarrow> nat \<Rightarrow> int \<times> string \<times> 'z"
  inflate_msg :: "'z \<Rightarrow> string option"

definition Z_OK :: int where "Z_OK = 0"
definition Z_STREAM_END :: int where "Z_STREAM_END = 1"
definition Z_BUF_ERROR :: int where "Z_BUF_ERROR = - 5"
definition Z_DEFAULT_COMPRESSION :: int where "Z_DEFAULT_COMPRESSION = - 1"

text \<open>\<open>output.resize(n)\<close>, and a write into \<open>output\<close> from position \<open>p\<close> on.\<close>

definition resize :: "nat \<Rightarrow> string \<Rightarrow> string" where
  "resize n buf = take n buf @ replicate (n - length buf) NUL"

definition write_at :: "nat \<Rightarrow> string \<Rightarrow> string \<Rightarrow> string" where
  "write_at p bytes buf = take p buf @ bytes @ drop (p + length bytes) buf"

section \<open>Compression\<close>

text \<open>The \<open>do ... while (avail_out == 0)\<close> loop; \<open>avail_out\<close> is an \<open>unsigned int\<close>.\<close>

partial_function (option) compress_loop :: "'z zlib \<Rightarrow> nat \<Rightarrow> 'z \<Rightarrow> string \<Rightarrow> nat \<Rightarrow> string option" where
  "compress_loop lib sz z output size_compressed =
     (let increase = sz div 2 + 1024;
          output = (if length output < size_compressed + increase
                    then resize (size_compressed + increase) output else output);
          room = increase mod 2 ^ 32;
          (bytes, z) = deflate lib z room;
          avail_out = room - length bytes;
          output = write_at size_compressed bytes output;
          size_compressed = size_compressed + (increase - avail_out)
      in if avail_out = 0 then compress_loop lib sz z output size_compressed
         else Some (resize size_compressed output))"

record compressor =
  max_size :: nat
  level :: int

definition compressor_compress :: "'z zlib \<Rightarrow> bool \<Rightarrow> compressor \<Rightarrow> string \<Rightarrow> string \<Rightarrow> (cpp_fault + string) option" where
  "compressor_compress lib debug c output input =
     (if debug \<and> 2 ^ 32 - 1 < length input
      then Some (Inl (RuntimeError ''size arg is too large to fit into unsigned int type''))
      else if max_size c < length input
      then Some (Inl (RuntimeError ''size may use more memory than intended when decompressing''))
      else case deflate_init lib (level c) input of
             None \<Rightarrow> Some (Inl (RuntimeError ''deflate init failed''))
           | Some z \<Rightarrow> map_option Inr (compress_loop lib (length input) z output 0))"

text \<open>\<open>gzip::compress\<close> with its default level.\<close>

definition gzip_compress :: "'z zlib \<Rightarrow> string \<Rightarrow> (cpp_fault + string) option" where
  "gzip_compress lib input =
     compressor_compress lib False \<lparr>max_size = 2000000000, level = Z_DEFAULT_COMPRESSION\<rparr> [] input"

section \<open>Decompression\<close>

text \<open>The default of the constructor's argument.\<close>

definition max_bytes :: nat where
  "max_bytes = 1000000000"

partial_function (option) decompress_loop ::
  "'z zlib \<Rightarrow> nat \<Rightarrow> 'z \<Rightarrow> string \<Rightarrow> nat \<Rightarrow> (cpp_fault + string) option" where
  "decompress_loop lib sz z output size_uncompressed =
     (let resize_to = size_uncompressed + 2 * sz
      in if max_bytes < resize_to
         then Some (Inl (RuntimeError
                ''size of output string will use more memory then intended when decompressing''))
         else
           (let output = resize resize_to output;
                room = 2 * sz mod 2 ^ 32;
                (ret, bytes, z) = inflate lib z room;
                avail_out = room - length bytes;
                output = write_at size_uncompressed bytes output
            in if ret \<noteq> Z_STREAM_END \<and> ret \<noteq> Z_OK \<and> ret \<noteq> Z_BUF_ERROR
               then Some (Inl (case inflate_msg lib z of Some msg \<Rightarrow> RuntimeError msg | None \<Rightarrow> NullDeref))
               else
                 (let size_uncompressed = size_uncompressed + (2 * sz - avail_out)
                  in if avail_out = 0 then decompress_loop lib sz z output size_uncompressed
                     else Some (Inr (resize size_uncompressed output)))))"

definition decompressor_decompress :: "'z zlib \<Rightarrow> bool \<Rightarrow> string \<Rightarrow> string \<Rightarrow> (cpp_fault + string) option" where
  "decompressor_decompress lib debug output input =
     (case inflate_init lib input of
        None \<Rightarrow> Some (Inl (RuntimeError ''inflate init failed''))
      | Some z \<Rightarrow>
          (if debug \<and> 2 ^ 32 - 1 < length input * 2
           then Some (Inl (RuntimeError ''size arg is too large to fit into unsigned int type x2''))
           else if max_bytes < length input \<or> max_bytes < length input * 2
           then Some (Inl (RuntimeError ''size may use more memory than intended when decompressing''))
           else decompress_loop lib (length input) z output 0))"

definition gzip_decompress :: "'z zlib \<Rightarrow> string \<Rightarrow> (cpp_fault + string) option" where
  "gzip_decompress lib input = decompressor_decompress lib False [] input"

text \<open>
  The checks of a \<open>DEBUG\<close> build refuse nothing that is not refused anyway: only the message differs,
  for inputs of 4 GB and more.
\<close>

lemma debug_checks_redundant:
  "length input < 2 ^ 31 \<Longrightarrow> compressor_compress lib True c output input = compressor_compress lib False c output input"
  "length input < 2 ^ 31 \<Longrightarrow> decompressor_decompress lib True output input = decompressor_decompress lib False output input"
  "max_size c \<le> 2000000000 \<Longrightarrow> (\<exists>msg. compressor_compress lib True c output input = Some (Inl (RuntimeError msg)))
     \<or> compressor_compress lib True c output input = compressor_compress lib False c output input"
  by (auto simp: compressor_compress_def decompressor_decompress_def split: option.splits)

section \<open>Streams\<close>

text \<open>
  What zlib documents of a sound stream (\<open>good\<close>: initialised on input it accepts, and not spoilt since)
  that is told to finish: each call writes as much of the output still to come (\<open>rest\<close>) as there is
  room for, and leaves the stream sound; \<open>inflate\<close> then reports none of the codes for bad input.
\<close>

definition drains :: "('z \<Rightarrow> nat \<Rightarrow> string \<times> 'z) \<Rightarrow> ('z \<Rightarrow> string) \<Rightarrow> ('z \<Rightarrow> bool) \<Rightarrow> bool" where
  "drains step rest good \<longleftrightarrow>
     (\<forall>z n. good z \<longrightarrow> fst (step z n) = take n (rest z) \<and> rest (snd (step z n)) = drop n (rest z)
        \<and> good (snd (step z n)))"

definition never_fails :: "'z zlib \<Rightarrow> ('z \<Rightarrow> bool) \<Rightarrow> bool" where
  "never_fails lib good \<longleftrightarrow> (\<forall>z n. good z \<longrightarrow> fst (inflate lib z n) \<in> {Z_STREAM_END, Z_OK, Z_BUF_ERROR})"

text \<open>What it documents of a call without room for output: no progress, and no failure.\<close>

definition idles :: "'z zlib \<Rightarrow> ('z \<Rightarrow> bool) \<Rightarrow> bool" where
  "idles lib good \<longleftrightarrow>
     (\<forall>z. good z \<longrightarrow> fst (inflate lib z 0) \<in> {Z_STREAM_END, Z_OK, Z_BUF_ERROR} \<and> good (snd (snd (inflate lib z 0))))"

lemma drains_step:
  assumes "drains step rest good" "good z" "step z n = (bytes, z')"
  shows "bytes = take n (rest z)" "rest z' = drop n (rest z)" "good z'"
  using assms unfolding drains_def by (metis fst_conv, metis snd_conv, metis snd_conv)

lemma resize_write:
  assumes "n \<le> length buf"
  shows "resize (n + length bytes) (write_at n bytes buf) = take n buf @ bytes"
  using assms by (simp add: resize_def write_at_def)

lemma take_write: "n \<le> length buf \<Longrightarrow> take (n + length bytes) (write_at n bytes buf) = take n buf @ bytes"
  by (simp add: write_at_def)

lemma length_write: "n + length bytes \<le> length (write_at n bytes buf) \<longleftrightarrow> n \<le> length buf"
  by (auto simp: write_at_def)

lemma take_resize: "k \<le> n \<Longrightarrow> k \<le> length buf \<Longrightarrow> take k (resize n buf) = take k buf"
  by (simp add: resize_def min_def)

lemma length_resize [simp]: "length (resize n buf) = n"
  by (simp add: resize_def)

text \<open>Both loops take a stream that drains to its end, whatever the chunk size.\<close>

lemma compress_loop_drains:
  assumes "drains (deflate lib) rest good" "sz \<le> 2000000000" "good z" "k \<le> length buf"
  shows "compress_loop lib sz z buf k = Some (take k buf @ rest z)"
  using assms(3,4)
proof (induction "length (rest z)" arbitrary: z buf k rule: less_induct)
  case less
  let ?inc = "sz div 2 + 1024"
  let ?out = "if length buf < k + ?inc then resize (k + ?inc) buf else buf"
  obtain bytes z' where step: "deflate lib z ?inc = (bytes, z')" by (cases "deflate lib z ?inc")
  note d = drains_step [OF assms(1) less.prems(1) step]
  have small: "?inc mod 4294967296 = ?inc" using assms(2) by simp
  have out: "take k ?out = take k buf" "k \<le> length ?out"
    using less.prems by (auto simp: take_resize)
  show ?case
  proof (cases "?inc \<le> length (rest z)")
    case True
    then have len: "length bytes = ?inc" "length (rest z') < length (rest z)" by (auto simp: d)
    have "compress_loop lib sz z buf k = compress_loop lib sz z' (write_at k bytes ?out) (k + ?inc)"
      using len(1) by (subst compress_loop.simps) (simp add: Let_def small step del: One_nat_def)
    also have "\<dots> = Some (take (k + ?inc) (write_at k bytes ?out) @ rest z')"
      using length_write [of k bytes ?out] out(2) len(1) by (intro less.hyps [OF len(2) d(3)]) simp
    also have "take (k + ?inc) (write_at k bytes ?out) = take k buf @ bytes"
      using take_write [OF out(2), of bytes] out(1) len(1) by simp
    finally show ?thesis by (simp add: d)
  next
    case False
    then have "compress_loop lib sz z buf k = Some (resize (k + length bytes) (write_at k bytes ?out))"
      by (subst compress_loop.simps) (simp add: Let_def small step d(1))
    then show ?thesis using resize_write [OF out(2), of bytes] out(1) False by (simp add: d(1))
  qed
qed

lemma decompress_loop_drains:
  assumes "drains (\<lambda>z n. snd (inflate lib z n)) rest good" "never_fails lib good"
    and "0 < sz" "good z" "k \<le> length buf" "k + length (rest z) + 2 * sz \<le> max_bytes"
  shows "decompress_loop lib sz z buf k = Some (Inr (take k buf @ rest z))"
  using assms(4-6)
proof (induction "length (rest z)" arbitrary: z buf k rule: less_induct)
  case less
  let ?out = "resize (k + 2 * sz) buf"
  obtain ret bytes z' where step: "inflate lib z (2 * sz) = (ret, bytes, z')"
    by (cases "inflate lib z (2 * sz)") auto
  note d = drains_step [OF assms(1) less.prems(1), of "2 * sz" bytes z', unfolded step, simplified]
  have ret: "\<not> (ret \<noteq> Z_STREAM_END \<and> ret \<noteq> Z_OK \<and> ret \<noteq> Z_BUF_ERROR)"
    using assms(2) less.prems(1) step unfolding never_fails_def by (metis fst_conv insertE singletonD)
  have small: "2 * sz mod 4294967296 = 2 * sz" "\<not> max_bytes < k + 2 * sz"
    using less.prems(3) by (simp_all add: max_bytes_def)
  have out: "take k ?out = take k buf" "k \<le> length ?out"
    using less.prems by (auto simp: take_resize)
  show ?case
  proof (cases "2 * sz \<le> length (rest z)")
    case True
    then have len: "length bytes = 2 * sz" "length (rest z') < length (rest z)"
      using assms(3) by (auto simp: d)
    have "decompress_loop lib sz z buf k = decompress_loop lib sz z' (write_at k bytes ?out) (k + 2 * sz)"
      using len(1) ret by (subst decompress_loop.simps) (auto simp: Let_def small step)
    also have "\<dots> = Some (Inr (take (k + 2 * sz) (write_at k bytes ?out) @ rest z'))"
      using length_write [of k bytes ?out] out(2) len(1) less.prems(3) True
      by (intro less.hyps [OF len(2) d(3)]) (simp_all add: d)
    also have "take (k + 2 * sz) (write_at k bytes ?out) = take k buf @ bytes"
      using take_write [OF out(2), of bytes] out(1) len(1) by simp
    finally show ?thesis by (simp add: d)
  next
    case False
    then have "decompress_loop lib sz z buf k = Some (Inr (resize (k + length bytes) (write_at k bytes ?out)))"
      using ret by (subst decompress_loop.simps) (auto simp: Let_def small step d(1))
    then show ?thesis using resize_write [OF out(2), of bytes] out(1) False by (simp add: d(1))
  qed
qed

text \<open>With any input at all the decompression loop ends: the output cannot outgrow its bound.\<close>

lemma decompress_loop_ends:
  assumes "0 < sz"
  shows "decompress_loop lib sz z buf k \<noteq> None"
proof (induction "max_bytes - k" arbitrary: z buf k rule: less_induct)
  case less
  obtain ret bytes z' where step: "inflate lib z (2 * sz mod 2 ^ 32) = (ret, bytes, z')"
    by (cases "inflate lib z (2 * sz mod 2 ^ 32)") auto
  have "decompress_loop lib sz z' b (k + 2 * sz) \<noteq> None" if "\<not> max_bytes < k + 2 * sz" for b
    using that assms by (intro less.hyps) simp
  then show ?case
    using step by (subst decompress_loop.simps) (auto simp: Let_def)
qed

text \<open>Without input there is no room in any chunk, and the loop goes round for ever.\<close>

lemma decompress_loop_empty:
  assumes "idles lib good" "good z" "k \<le> max_bytes"
  shows "decompress_loop lib 0 z buf k = None"
proof -
  let ?P = "\<lambda>l n z b i (r :: cpp_fault + string). l = lib \<longrightarrow> n = 0 \<longrightarrow> good z \<longrightarrow> i \<le> max_bytes \<longrightarrow> False"
  have "?P l n z b i r" if "decompress_loop l n z b i = Some r" for l n z b i r
  proof (rule decompress_loop.raw_induct [where P = ?P, OF _ that], goal_cases)
    case (1 loop l n z b i r)
    show ?case
    proof (intro impI)
      assume *: "l = lib" "n = 0" "good z" "i \<le> max_bytes"
      obtain ret bytes z' where step: "inflate lib z 0 = (ret, bytes, z')"
        by (cases "inflate lib z 0") auto
      have "ret = Z_STREAM_END \<or> ret = Z_OK \<or> ret = Z_BUF_ERROR" "good z'"
        using assms(1) step *(3) unfolding idles_def by (metis fst_conv insertE singletonD, metis snd_conv)
      with 1 step * show False by (auto simp: Let_def)
    qed
  qed
  with assms(2,3) show ?thesis by (cases "decompress_loop lib 0 z buf k") auto
qed

section \<open>Properties\<close>

text \<open>A stream format that only puts a mark in front, to apply the properties to.\<close>

definition stored :: "string zlib" where
  "stored = \<lparr>deflate_init = (\<lambda>level s. Some (''gz'' @ s)), deflate = (\<lambda>z n. (take n z, drop n z)),
     inflate_init = (\<lambda>s. Some (drop 2 s)), inflate = (\<lambda>z n. (Z_OK, take n z, drop n z)),
     inflate_msg = (\<lambda>z. None)\<rparr>"

lemma stored_drains:
  "drains (deflate stored) (\<lambda>z. z) (\<lambda>z. True)" "drains (\<lambda>z n. snd (inflate stored z n)) (\<lambda>z. z) (\<lambda>z. True)"
  "never_fails stored (\<lambda>z. True)" "idles stored (\<lambda>z. True)"
  by (simp_all add: stored_def drains_def never_fails_def idles_def)

text \<open>
  C17. Chunking is invisible: whenever zlib's streams drain as documented, \<open>compress\<close> returns the whole
  compressed stream although it only ever gives zlib room for half the input and a kilobyte more,
  and \<open>decompress\<close> of it returns the original text, within the bounds the two functions put on sizes.
\<close>

theorem gzip_round_trip:
  assumes "drains (deflate lib) rest good" "drains (\<lambda>z n. snd (inflate lib z n)) left sound" "never_fails lib sound"
    and "deflate_init lib Z_DEFAULT_COMPRESSION s = Some z" "good z"
    and "inflate_init lib (rest z) = Some z'" "sound z'"
    and "left z' = s" "rest z \<noteq> []"
    and "length s \<le> 2000000000" "length s + 2 * length (rest z) \<le> 1000000000"
  shows "gzip_compress lib s = Some (Inr (rest z)) \<and> gzip_decompress lib (rest z) = Some (Inr s)"
  using compress_loop_drains [OF assms(1,10,5), of 0 "[]"]
    decompress_loop_drains [OF assms(2,3) _ assms(7), of "length (rest z)" 0 "[]"] assms(4-11)
  by (simp add: gzip_compress_def compressor_compress_def gzip_decompress_def decompressor_decompress_def max_bytes_def)

theorem gzip_round_trip_witness:
  "gzip_compress stored ''abc'' = Some (Inr ''gzabc'') \<and> gzip_decompress stored ''gzabc'' = Some (Inr ''abc'')"
  using gzip_round_trip [OF stored_drains(1-3), of "''abc''" "''gzabc''" "''abc''"] by (simp add: stored_def)

text \<open>
  C35. When decompression returns: on every input but the empty one, since each round grows the output
  and the output is bounded; an empty input gives zlib no room, every round looks full, and the loop
  never ends.
\<close>

theorem decompress_returns:
  assumes "inflate_init lib s = Some z" "s = [] \<Longrightarrow> idles lib good \<and> good z"
  shows "gzip_decompress lib s = None \<longleftrightarrow> s = []"
  using decompress_loop_ends [of "length s" lib z "[]" 0] decompress_loop_empty [of lib good z 0 "[]"] assms
  by (cases "s = []") (auto simp: gzip_decompress_def decompressor_decompress_def)

theorem decompress_returns_witness: "gzip_decompress stored [] = None \<and> gzip_decompress stored ''gzabc'' \<noteq> None"
  using decompress_returns [of stored "[]" "[]" "\<lambda>z. True"]
    decompress_returns [of stored "''gzabc''" "''abc''" "\<lambda>z. True"] stored_drains(4) by (simp add: stored_def)

end
