(* ===== verification/Reverse_Proxy.thy ===== *)
theory Reverse_Proxy
  imports Environment Request_Parser Nginx_Config Gzip
begin

text \<open>
  \<open>ReverseProxyHandler\<close> (\<open>src/request_handler/reverse_proxy_handler.cc\<close>): the request it sends on, how
  it reads the answer, the redirects it follows itself and the body it rewrites. The sockets of
  \<open>boost::asio\<close>, \<open>boost::regex\<close> and the string algorithms of Boost are parameters.
\<close>

section \<open>The outside\<close>

text \<open>
  An endpoint is an address with its port. \<open>net_resolve\<close> yields an error message or the endpoints
  found, each with whether it is IPv4; \<open>net_connect\<close> the message of the exception it throws or the
  number of the connected socket; \<open>net_write\<close> and \<open>net_read\<close> act on that socket, and \<open>net_read\<close> is
  \<open>boost::asio::read\<close> with \<open>transfer_all\<close>. \<open>boost_regex text pattern format\<close> is \<open>boost::regex_replace\<close>,
  with the exceptions of the \<open>boost::regex\<close> constructor.
\<close>

type_synonym endpoint = "string \<times> nat"

datatype read_end = Read_ok | Read_eof | Read_failed string

record 'w network =
  net_resolve :: "string \<Rightarrow> string \<Rightarrow> 'w \<Rightarrow> (string + (endpoint \<times> bool) list) \<times> 'w"
  net_connect :: "endpoint \<Rightarrow> 'w \<Rightarrow> (string + nat) \<times> 'w"
  net_write :: "nat \<Rightarrow> string \<Rightarrow> 'w \<Rightarrow> string option \<times> 'w"
  net_read :: "nat \<Rightarrow> 'w \<Rightarrow> (string \<times> read_end) \<times> 'w"
  erase_first :: "string \<Rightarrow> string \<Rightarrow> string"
  trim :: "string \<Rightarrow> string"
  boost_regex :: "string \<Rightarrow> string \<Rightarrow> string \<Rightarrow> cpp_fault + string"

section \<open>Init\<close>

record proxy =
  location_path :: string
  proxy_dest :: string
  proxy_port :: int

text \<open>A \<open>proxy_port\<close> that is not a number makes \<open>Init\<close> return the null pointer.\<close>

fun proxy_settings :: "nginx_config \<Rightarrow> int \<Rightarrow> string \<Rightarrow> (int \<times> string) option" where
  "proxy_settings [] port dest = Some (port, dest)"
| "proxy_settings (st # sts) port dest =
     (case st_tokens st of
        [k, v] \<Rightarrow>
          (if k = ''proxy_port'' then
             (case stoi v of Inl e \<Rightarrow> None | Inr n \<Rightarrow> proxy_settings sts n dest)
           else if k = ''proxy_dest'' then proxy_settings sts port v
           else proxy_settings sts port dest)
      | _ \<Rightarrow> proxy_settings sts port dest)"

definition proxy_init :: "nginx_config \<Rightarrow> string \<Rightarrow> proxy option" where
  "proxy_init config location =
     map_option (\<lambda>(port, dest). \<lparr>location_path = location, proxy_dest = dest, proxy_port = port\<rparr>)
       (proxy_settings config 0 [])"

section \<open>The request that is sent on\<close>

text \<open>The last IPv4 endpoint; without one, the default-constructed endpoint 0.0.0.0:0.\<close>

definition pick_endpoint :: "(endpoint \<times> bool) list \<Rightarrow> endpoint" where
  "pick_endpoint eps = foldl (\<lambda>ep (e, is_v4). if is_v4 then e else ep) (''0.0.0.0'', 0) eps"

fun request_type :: "method_type option \<Rightarrow> string" where
  "request_type (Some GET_REQ) = ''GET''"
| "request_type (Some HEAD_REQ) = ''HEAD''"
| "request_type (Some POST_REQ) = ''POST''"
| "request_type (Some PUT_REQ) = ''PUT''"
| "request_type (Some DELETE_REQ) = ''DELETE''"
| "request_type (Some CONNECT_REQ) = ''CONNECT''"
| "request_type (Some OPTIONS_REQ) = ''OPTIONS''"
| "request_type (Some TRACE_REQ) = ''TRACE''"
| "request_type (Some PATCH_REQ) = ''PATCH''"
| "request_type None = []"

definition proxy_uri :: "'w network \<Rightarrow> proxy \<Rightarrow> request \<Rightarrow> string" where
  "proxy_uri net cfg req =
     (let uri = erase_first net (req_uri req) (location_path cfg)
      in if uri = [] then ''/'' else uri)"

definition forwarded_header :: "(string \<Rightarrow> string \<Rightarrow> string \<Rightarrow> string) \<Rightarrow> string \<times> string \<Rightarrow> string" where
  "forwarded_header replace = (\<lambda>(k, v).
     if k \<noteq> ''Host'' \<and> k \<noteq> ''Connection'' then k @ '': '' @ replace v crlf [] @ crlf else [])"

definition proxy_request :: "'w environment \<Rightarrow> 'w network \<Rightarrow> proxy \<Rightarrow> request \<Rightarrow> string" where
  "proxy_request env net cfg req =
     request_type (req_method req) @ '' '' @ proxy_uri net cfg req @ '' HTTP/1.1'' @ crlf
     @ ''Host: '' @ proxy_dest cfg @ crlf @ ''Connection: close'' @ crlf
     @ concat (map (forwarded_header (replace_all env)) (req_headers req)) @ crlf"

section \<open>Reading the answer\<close>

text \<open>
  The status code: every time three digits in a row have been seen (not more) they are the code, so
  the last such group of the first line counts. \<open>seen\<close> is the part of the line that was read.
\<close>

fun scan_code :: "nat \<Rightarrow> string \<Rightarrow> string \<Rightarrow> status_code \<Rightarrow> status_code" where
  "scan_code n seen [] code = code"
| "scan_code n seen (c # cs) code =
     (let n = (if isdigit c then n + 1 else 0);
          seen = seen @ [c]
      in scan_code n seen cs
           (if n = 3
            then (case stoi (drop (length seen - 3) seen) of
                    Inr v \<Rightarrow> status_of_int (nat v) | Inl e \<Rightarrow> code)
            else code))"

text \<open>
  One round of the header loop, up to the next carriage return: the key, the value and what follows
  the carriage return. The scan does not look for the end of the string; running past it is
  undefined.
\<close>

fun scan_line :: "bool \<Rightarrow> bool \<Rightarrow> string \<Rightarrow> string \<Rightarrow> string \<Rightarrow> cpp_fault + (string \<times> string \<times> string)" where
  "scan_line ignore_ws is_key key buf [] = Inl OutOfBoundsRead"
| "scan_line ignore_ws is_key key buf (c # cs) =
     (if c = CR then Inr (key, buf, cs)
      else if ignore_ws then
        (if c \<noteq> CHR '' '' then scan_line False is_key key (buf @ [c]) cs
         else scan_line True is_key key buf cs)
      else if is_key \<and> c = CHR '':'' then scan_line True False buf [] cs
      else scan_line False is_key key (buf @ [c]) cs)"

lemma scan_line_shorter:
  "scan_line ig isk key buf s = Inr (k, v, rest) \<Longrightarrow> length rest < length s"
  by (induction s arbitrary: ig isk key buf) (auto split: if_splits intro: less_SucI)

function parse_headers :: "(string \<Rightarrow> string) \<Rightarrow> string \<Rightarrow> string smap \<Rightarrow> cpp_fault + string smap" where
  "parse_headers trm headers m =
     (if headers = [] then Inr m
      else case scan_line True True [] [] headers of
             Inl e \<Rightarrow> Inl e
           | Inr (k, v, rest) \<Rightarrow>
               (if rest = [] then Inl OutOfRange
                else parse_headers trm (tl rest) (smap_set (trm k) (trm v) m)))"
  by pat_completeness auto
termination
  by (relation "measure (\<lambda>(trm, headers, m). length headers)") (auto dest: scan_line_shorter)

declare parse_headers.simps [simp del]

definition parse_response :: "(string \<Rightarrow> string) \<Rightarrow> string \<Rightarrow> cpp_fault + reply" where
  "parse_response trm response =
     (let header_end = (case find_str response (crlf @ crlf) of None \<Rightarrow> npos | Some i \<Rightarrow> i);
          request_line = (case find_str response crlf of None \<Rightarrow> response | Some i \<Rightarrow> take i response);
          code = scan_code 0 [] request_line (rep_code new_reply)
      in rbind (substr response (length request_line + 2) (size_sub header_end (length request_line))) (\<lambda>headers.
         rbind (substr response (size_add header_end 4) npos) (\<lambda>body.
         rbind (parse_headers trm headers []) (\<lambda>m.
           Inr \<lparr>rep_code = code, rep_headers = m, rep_body = body\<rparr>))))"

section \<open>HandleRequest\<close>

definition uri_replace :: "'w network \<Rightarrow> string \<Rightarrow> string \<Rightarrow> string \<Rightarrow> cpp_fault + string" where
  "uri_replace net uri proxy_host local_path =
     boost_regex net uri (''.*'' @ proxy_host @ ''/{0,1}'') local_path"

text \<open>\<open>append[append.size() - 1]\<close> of an empty string is a read before its first character.\<close>

definition append_relative_uri :: "'w network \<Rightarrow> string \<Rightarrow> string \<Rightarrow> cpp_fault + string" where
  "append_relative_uri net body app =
     (if app = [] then Inl OutOfBoundsRead
      else let trimmed_append = (if last app = CHR ''/'' then butlast app else app)
           in rbind (boost_regex net body (''href='' @ [DQUOTE] @ ''/'')
                       (''href='' @ [DQUOTE] @ trimmed_append @ ''/'')) (\<lambda>body.
                boost_regex net body (''src='' @ [DQUOTE] @ ''/'')
                  (''src='' @ [DQUOTE] @ trimmed_append @ ''/'')))"

text \<open>
  One exchange with the site. It ends in a reply that is returned as it is (\<open>Final\<close>), one whose body
  is still to be rewritten (\<open>Relay\<close>), or a redirect that the handler follows itself (\<open>Follow\<close>).
\<close>

datatype proxy_step = Final reply | Relay reply | Follow string

definition after_response :: "'w network \<Rightarrow> proxy \<Rightarrow> request \<Rightarrow> reply \<Rightarrow> cpp_fault + proxy_step" where
  "after_response net cfg req rep =
     (if rep_code rep = Moved_temporarily \<or> rep_code rep = Moved_permanently
      then let (redirect_uri, m) = smap_at [] ''Location'' (rep_headers rep);
               rep = rep\<lparr>rep_headers := m\<rparr>
           in rbind (uri_replace net redirect_uri (proxy_dest cfg) (location_path cfg @ ''/'')) (\<lambda>modified.
                if modified = redirect_uri then Inr (Relay rep)
                else if modified \<noteq> req_uri req then Inr (Follow modified)
                else Inr (Relay rep))
      else Inr (Relay rep))"

definition proxy_exchange ::
  "'w environment \<Rightarrow> 'w network \<Rightarrow> proxy \<Rightarrow> request \<Rightarrow> 'w \<Rightarrow> (cpp_fault + proxy_step) \<times> 'w" where
  "proxy_exchange env net cfg req w =
     (let failed = Final (stock_reply (replace_all env) Internal_server_error)
      in case net_resolve net (proxy_dest cfg) (int_to_string (proxy_port cfg)) w of
           (Inl msg, w) \<Rightarrow> (Inr failed, w)
         | (Inr eps, w) \<Rightarrow>
             (case net_connect net (pick_endpoint eps) w of
                (Inl msg, w) \<Rightarrow> (Inl (RuntimeError msg), w)
              | (Inr sock, w) \<Rightarrow>
                  (case net_write net sock (proxy_request env net cfg req) w of
                     (Some msg, w) \<Rightarrow> (Inr failed, w)
                   | (None, w) \<Rightarrow>
                       (case net_read net sock w of
                          ((data, Read_failed msg), w) \<Rightarrow> (Inr failed, w)
                        | ((data, _), w) \<Rightarrow>
                            (rbind (parse_response (trim net) data) (after_response net cfg req), w)))))"

text \<open>The body on its way to the client: unpacked, rewritten, packed again, its length announced.\<close>

definition proxy_relay :: "'z zlib \<Rightarrow> 'w network \<Rightarrow> proxy \<Rightarrow> reply \<Rightarrow> (cpp_fault + reply) option" where
  "proxy_relay lib net cfg rep =
     (let gzipped = (smap_find (rep_headers rep) ''Content-Encoding'' = Some ''gzip'')
      in case (if gzipped then gzip_decompress lib (rep_body rep) else Some (Inr (rep_body rep))) of
           None \<Rightarrow> None
         | Some (Inl e) \<Rightarrow> Some (Inl e)
         | Some (Inr plain) \<Rightarrow>
             (case append_relative_uri net plain (location_path cfg) of
                Inl e \<Rightarrow> Some (Inl e)
              | Inr modified \<Rightarrow>
                  (case (if gzipped then gzip_compress lib modified else Some (Inr modified)) of
                     None \<Rightarrow> None
                   | Some (Inl e) \<Rightarrow> Some (Inl e)
                   | Some (Inr body) \<Rightarrow>
                       Some (Inr (set_header ''Content-Length'' (to_string (length body))
                         (rep\<lparr>rep_body := body\<rparr>))))))"

text \<open>\<open>HandleRequest\<close> calls itself on a redirect; nothing bounds how often.\<close>

partial_function (option) proxy_handle ::
  "'z zlib \<Rightarrow> 'w environment \<Rightarrow> 'w network \<Rightarrow> proxy \<Rightarrow> request \<Rightarrow> 'w \<Rightarrow> ((cpp_fault + reply) \<times> 'w) option" where
  "proxy_handle lib env net cfg req w =
     (case proxy_exchange env net cfg req w of
        (Inl e, w') \<Rightarrow> Some (Inl e, w')
      | (Inr (Final rep), w') \<Rightarrow> Some (Inr rep, w')
      | (Inr (Relay rep), w') \<Rightarrow> map_option (\<lambda>res. (res, w')) (proxy_relay lib net cfg rep)
      | (Inr (Follow uri), w') \<Rightarrow> proxy_handle lib env net cfg (req\<lparr>req_uri := uri\<rparr>) w')"

section \<open>Reading what this server writes\<close>

lemma scan_code_status:
  assumes "\<forall>n. c \<noteq> Unlisted n"
  shows "scan_code 0 [] (status_text c) (Unlisted 0) = c"
proof (cases c)
  case (Unlisted n)
  with assms show ?thesis by blast
qed (simp only:, code_simp)+

lemma scan_key:
  "CR \<notin> set k \<Longrightarrow> CHR '':'' \<notin> set k \<Longrightarrow>
     scan_line False True key buf (k @ CHR '':'' # t) = scan_line True False (buf @ k) [] t"
  by (induction k arbitrary: buf) auto

lemma scan_value:
  "CR \<notin> set v \<Longrightarrow> scan_line False False key buf (v @ CR # t) = Inr (key, buf @ v, t)"
  by (induction v arbitrary: buf) auto

text \<open>A header that survives the reader: no blank at either end of the key or the value.\<close>

definition trimmed :: "string \<Rightarrow> bool" where
  "trimmed s \<longleftrightarrow> s = [] \<or> \<not> isspace (hd s) \<and> \<not> isspace (last s)"

definition plain_header :: "string \<times> string \<Rightarrow> bool" where
  "plain_header = (\<lambda>(k, v). k \<noteq> [] \<and> trimmed k \<and> trimmed v \<and> CR \<notin> set k \<and> CHR '':'' \<notin> set k \<and> CR \<notin> set v)"

lemma isspace_blank [simp]: "isspace (CHR '' '')"
  by (simp add: isspace_def)

lemma not_space_not_blank: "\<not> isspace c \<Longrightarrow> c \<noteq> CHR '' ''"
  by auto

lemma scan_header:
  assumes "plain_header (k, v)"
  shows "scan_line True True [] [] (header_line (k, v) @ CR # t) = Inr (k, v, t)"
proof -
  obtain a k' where k: "k = a # k'" "a \<noteq> CHR '' ''" "a \<noteq> CR" "CR \<notin> set k'" "CHR '':'' \<notin> set k'"
    using assms by (cases k) (auto simp: plain_header_def trimmed_def dest: not_space_not_blank)
  have "scan_line True True [] [] (header_line (k, v) @ CR # t) = scan_line True False k [] (CHR '' '' # v @ CR # t)"
    using k scan_key [OF k(4,5), of "[]" "[a]"] by (simp add: header_line_def)
  also have "\<dots> = Inr (k, v, t)"
  proof (cases v)
    case (Cons b v')
    then have "b \<noteq> CHR '' ''" "b \<noteq> CR" "CR \<notin> set v'"
      using assms by (auto simp: plain_header_def trimmed_def dest: not_space_not_blank)
    then show ?thesis using scan_value [of v' k "[b]" t] by (simp add: Cons)
  qed simp
  finally show ?thesis .
qed

lemma parse_headers_lines:
  assumes "\<forall>h \<in> set hs. plain_header h" "\<And>s. trimmed s \<Longrightarrow> trm s = s"
  shows "parse_headers trm (end_lines (map header_line hs)) m = Inr (std_map.set_all hs m)"
  using assms(1)
proof (induction hs arbitrary: m)
  case Nil
  then show ?case by (simp add: parse_headers.simps end_lines_def std_map.set_all_def)
next
  case (Cons kv hs)
  obtain k v where kv: "kv = (k, v)" by (cases kv)
  have *: "plain_header (k, v)" "trm k = k" "trm v = v"
    using Cons.prems assms(2) by (auto simp: kv plain_header_def)
  have "end_lines (map header_line (kv # hs)) = header_line (k, v) @ CR # LF # end_lines (map header_line hs)"
    by (simp add: end_lines_def kv)
  then show ?case
    using scan_header [OF *(1)] Cons
    by (subst parse_headers.simps) (simp add: kv * std_map.set_all_def)
qed

lemma set_all_id:
  assumes "smap_ok hs"
  shows "std_map.set_all hs [] = hs"
proof (rule std_map.entries_unique [OF std_map.invar_set_all assms])
  have "map_of (rev hs) = map_of hs"
    using std_map.keys_distinct [OF assms] by (subst map_of_inject_set) (simp_all add: rev_map [symmetric])
  then show "smap_find (std_map.set_all hs []) = smap_find hs"
    by (auto simp: std_map.lookup_set_all map_add_def smap_find_map_of split: option.splits)
qed simp

lemma parse_response_wire:
  assumes "\<And>s. trimmed s \<Longrightarrow> trm s = s"
    and "\<forall>n. rep_code r \<noteq> Unlisted n" "smap_ok (rep_headers r)" "\<forall>h \<in> set (rep_headers r). plain_header h"
    and "length (wire r) < 2 ^ 64"
  shows "parse_response trm (wire r) = Inr r"
proof -
  let ?st = "status_text (rep_code r)" and ?hs = "end_lines (map header_line (rep_headers r))"
  have w: "wire r = ?st @ crlf @ ?hs @ crlf @ rep_body r"
    by (simp add: wire_lines end_lines_def)
  have clean: "clean_headers r"
    using assms(4) by (auto simp: clean_headers_def plain_header_def)
  have h: "find_str (wire r) [CR, LF, CR, LF] = Some (length ?st + length ?hs)"
    using wire_split(1) [OF clean] by (simp add: end_lines_def)
  have line: "find_str (wire r) crlf = Some (length ?st)"
    using find_skip [OF status_text_clean [of "rep_code r"], of "crlf @ ?hs @ crlf @ rep_body r" "[LF]"]
    by (simp add: w)
  have lens: "length ?st + length ?hs + 4 \<le> length (wire r)" "length (rep_body r) \<le> npos"
    using assms(5) by (simp_all add: w npos_def)
  then have sizes: "size_sub (length ?st + length ?hs) (length ?st) = length ?hs"
      "size_add (length ?st + length ?hs) 4 = length ?st + length ?hs + 4"
    using assms(5) by (simp_all add: size_sub_ge size_add_small)
  have "substr (wire r) (length ?st + 2) (length ?hs) = Inr ?hs"
    by (simp add: substr_def w)
  moreover have "substr (wire r) (length ?st + length ?hs + 4) npos = Inr (rep_body r)"
    using lens(2) append_eq_conv_conj [of "?st @ crlf @ ?hs @ crlf" "rep_body r" "wire r"]
    by (simp add: substr_def) (simp add: w add.commute)
  moreover have "take (length ?st) (wire r) = ?st" by (simp add: w)
  ultimately show ?thesis
    using parse_headers_lines [OF assms(4,1), of "[]"] scan_code_status [OF assms(2)]
    by (simp add: parse_response_def h line sizes set_all_id [OF assms(3)] new_reply_def Let_def)
qed

section \<open>The request as this server's parser reads it\<close>

lemma replace_absent_head:
  assumes "boost_replace replace" "c \<notin> set s"
  shows "replace s (c # p) fmt = s"
  using assms(2) by (induction s) (simp_all add: boost_replace.replace_nil [OF assms(1)] boost_replace.replace_miss [OF assms(1)])

lemma field_text_no_CR: "field_text v \<Longrightarrow> CR \<notin> set v"
  by (auto simp: field_text_def parser_simps)

definition forwarded :: "(string \<times> string) list \<Rightarrow> (string \<times> string) list" where
  "forwarded hs = filter (\<lambda>(k, v). k \<noteq> ''Host'' \<and> k \<noteq> ''Connection'') hs"

lemma forwarded_text:
  assumes "boost_replace replace" "\<forall>(k, v) \<in> set hs. field_text v"
  shows "concat (map (forwarded_header replace) hs) = hlines_text (map (\<lambda>(k, v). Field k v) (forwarded hs))"
  using assms(2)
  by (induction hs)
     (auto simp: hlines_text_def forwarded_def forwarded_header_def replace_absent_head [OF assms(1)] field_text_no_CR)

lemma fields_ok: "\<forall>(k, v) \<in> set kvs. token k \<and> field_text v \<Longrightarrow> hlines_ok m (map (\<lambda>(k, v). Field k v) kvs)"
  by (induction kvs arbitrary: m) auto

lemma token_of_request_type: "token (request_type (Some m))"
  by (cases m) (simp_all add: token_def bad_name_char_def is_char_def is_ctl_def is_tspecial_def schar_def)

lemma fixed_tokens:
  "token ''Host''" "token ''Connection''" "field_text ''close''" "digits ''1''"
  by (simp_all add: token_def bad_name_char_def is_char_def is_ctl_def is_tspecial_def schar_def
      field_text_def digits_def isdigit_def)

definition proxied_fields :: "proxy \<Rightarrow> request \<Rightarrow> (string \<times> string) list" where
  "proxied_fields cfg req =
     [(''Host'', proxy_dest cfg), (''Connection'', ''close'')] @ forwarded (req_headers req)"

lemma proxy_request_text:
  assumes "boost_replace (replace_all env)" "\<forall>(k, v) \<in> set (req_headers req). field_text v"
    and "req_method req = Some m"
  shows "proxy_request env net cfg req = request_text (request_type (Some m)) (proxy_uri net cfg req) ''1'' ''1''
    (map (\<lambda>(k, v). Field k v) (proxied_fields cfg req))"
  by (simp add: proxy_request_def request_text_def request_line_def proxied_fields_def hlines_text_def assms(3)
      forwarded_text [OF assms(1,2), unfolded hlines_text_def])

lemma proxied_request_ok:
  assumes "\<forall>(k, v) \<in> set (req_headers req). token k \<and> field_text v"
    and "uri_text (proxy_uri net cfg req)" "field_text (proxy_dest cfg)"
  shows "request_ok (request_type (Some m)) (proxy_uri net cfg req) ''1'' ''1''
    (map (\<lambda>(k, v). Field k v) (proxied_fields cfg req))"
  unfolding request_ok_def
  by (intro conjI fields_ok)
     (use assms in \<open>auto simp: proxied_fields_def forwarded_def token_of_request_type fixed_tokens\<close>)

lemma map_of_filter_keys: "map_of (filter (\<lambda>(k, v). P k) kvs) = (\<lambda>k. if P k then map_of kvs k else None)"
  by (rule ext) (induction kvs, auto)

lemma proxied_lookup:
  assumes "smap_ok (req_headers req)"
  shows "map_of (rev (proxied_fields cfg req)) k =
    (if k = ''Host'' then Some (proxy_dest cfg) else if k = ''Connection'' then Some ''close''
     else smap_find (req_headers req) k)"
proof -
  have d: "distinct (map fst (proxied_fields cfg req))"
    using std_map.keys_distinct [OF assms]
    by (auto simp: proxied_fields_def forwarded_def distinct_map intro: inj_on_subset)
  then have "map_of (rev (proxied_fields cfg req)) = map_of (proxied_fields cfg req)"
    by (subst map_of_inject_set) (simp_all add: rev_map [symmetric])
  then show ?thesis
    by (simp add: proxied_fields_def forwarded_def map_of_filter_keys flip: smap_find_map_of)
qed

section \<open>Chains of redirects\<close>

















text \<open>Whatever the site answers, a reply that comes back announces the length of its body.\<close>

lemma after_response_not_Final: "after_response net cfg req rep \<noteq> Inr (Final r)"
  by (auto simp: after_response_def Let_def fault_simps split: prod.splits)

lemma proxy_exchange_Final:
  "proxy_exchange env net cfg req w = (Inr (Final r), w') \<Longrightarrow> r = stock_reply (replace_all env) Internal_server_error"
  by (auto simp: proxy_exchange_def Let_def fault_simps after_response_not_Final
      split: prod.splits sum.splits option.splits read_end.splits)

lemma proxy_relay_length: "proxy_relay lib net cfg rep = Some (Inr r) \<Longrightarrow> content_length_ok r"
  by (auto simp: proxy_relay_def Let_def content_length_ok_def split: option.splits sum.splits if_splits)

lemma proxy_handle_length:
  assumes "proxy_handle lib env net cfg req w = Some (Inr r, w')"
  shows "content_length_ok r"
proof -
  let ?P = "\<lambda>l e n c q v y. \<forall>r. fst y = Inr r \<longrightarrow> content_length_ok r"
  have "\<forall>r'. fst (Inr r :: cpp_fault + reply, w') = Inr r' \<longrightarrow> content_length_ok r'"
  proof (rule proxy_handle.raw_induct [where P = ?P, OF _ assms], goal_cases)
    case (1 handle lib env net cfg req w y)
    obtain res w' where ex: "proxy_exchange env net cfg req w = (res, w')"
      by (cases "proxy_exchange env net cfg req w")
    show ?case
      using 1 ex by (auto dest!: proxy_exchange_Final proxy_relay_length
          simp: stock_reply_headers split: sum.splits proxy_step.splits)
  qed
  then show ?thesis by simp
qed

section \<open>Properties\<close>

text \<open>
  C6. The proxy reads back what this server writes: a reply with a listed status and headers without
  blanks at their ends, serialised by \<open>to_buffers\<close>, is recovered by the proxy's response reader as the
  same reply, status, header map and body, whatever bytes the body holds.
\<close>

theorem proxy_reads_reply:
  assumes "\<And>s. trimmed s \<Longrightarrow> trm s = s"
    and "\<forall>n. rep_code r \<noteq> Unlisted n" "smap_ok (rep_headers r)" "\<forall>h \<in> set (rep_headers r). plain_header h"
    and "length (concat (to_buffers r)) < 2 ^ 64"
  shows "parse_response trm (concat (to_buffers r)) = Inr r"
  using parse_response_wire [OF assms(1-4)] assms(5) by (simp add: wire_def)

theorem proxy_reads_reply_witness:
  "parse_response (\<lambda>s. s) (concat (to_buffers
      (set_header ''Content-Length'' ''4'' (new_reply\<lparr>rep_code := Not_found, rep_body := crlf @ crlf\<rparr>))))
    = Inr (set_header ''Content-Length'' ''4'' (new_reply\<lparr>rep_code := Not_found, rep_body := crlf @ crlf\<rparr>))"
  by (rule proxy_reads_reply)
     (simp_all add: set_header_def new_reply_def smap_ok_def plain_header_def trimmed_def isspace_def schar_def
       to_buffers_def header_buffers_def)

text \<open>
  C15. The request the proxy sends is one this server accepts: for a request with a known method, a
  printable target and printable headers, the parser reads the sent text as a good request for the
  rewritten target, with \<open>Host\<close> set to the site, \<open>Connection\<close> to \<open>close\<close> and every other header kept.
\<close>

theorem proxied_request_accepted:
  assumes "boost_replace (replace_all env)" "smap_ok (req_headers req)"
    and "\<forall>(k, v) \<in> set (req_headers req). token k \<and> field_text v" "req_method req = Some m"
    and "uri_text (proxy_uri net cfg req)" "field_text (proxy_dest cfg)"
  shows "\<exists>p r. parse_chars new_request_parser (new_request None 0 0) (proxy_request env net cfg req) = (Good, [], p, r)
    \<and> req_uri r = proxy_uri net cfg req
    \<and> (\<forall>k. smap_find (req_headers r) k =
         (if k = ''Host'' then Some (proxy_dest cfg) else if k = ''Connection'' then Some ''close''
          else smap_find (req_headers req) k))"
proof -
  let ?ls = "map (\<lambda>(k, v). Field k v) (proxied_fields cfg req)"
  note ok = proxied_request_ok [OF assms(3,5,6), of m]
  have sent: "proxy_request env net cfg req = request_text (request_type (Some m)) (proxy_uri net cfg req) ''1'' ''1'' ?ls"
    using assms(3) by (intro proxy_request_text [OF assms(1) _ assms(4)]) auto
  have find: "smap_find (fold_hlines ?ls []) k = map_of (rev (proxied_fields cfg req)) k" for k
    by (simp add: fold_fields std_map.lookup_set_all map_add_def split: option.splits)
  show ?thesis
    using parse_request_text [OF ok, of "new_request None 0 0" "[]"] proxied_lookup [OF assms(2), of cfg]
    by (auto simp: sent parsed_request_def new_request_def find)
qed

text \<open>A network on which every site can be reached and answers as it is told to.\<close>

definition sample_network :: "(string \<Rightarrow> string) \<Rightarrow> string network" where
  "sample_network site = \<lparr>net_resolve = (\<lambda>h p w. (Inr [((h, 80), True)], w)), net_connect = (\<lambda>e w. (Inr 1, w)),
     net_write = (\<lambda>n s w. (None, s)), net_read = (\<lambda>n w. ((site w, Read_eof), w)),
     erase_first = (\<lambda>s p. if take (length p) s = p then drop (length p) s else s), trim = (\<lambda>s. s),
     boost_regex = (\<lambda>s p f. Inr s)\<rparr>"

definition sample_env :: "'w environment" where
  "sample_env = \<lparr>replace_all = replace_ref, fs_exists = (\<lambda>w f. Inr False), fs_regular = (\<lambda>w f. Inr False),
     fs_read = (\<lambda>w f. None), db_open = (\<lambda>u w. (None, w)), db_acquire = (\<lambda>w. (None, w)),
     doc_json = (\<lambda>s. None), db_insert = (\<lambda>d c s w. (Stored, w)), db_find = (\<lambda>d c w. (([], None), w))\<rparr>"

definition sample_proxy :: proxy where
  "sample_proxy = \<lparr>location_path = ''/ucla'', proxy_dest = ''ucla.edu'', proxy_port = 80\<rparr>"

definition sample_request :: request where
  "sample_request = \<lparr>req_method = Some GET_REQ, req_uri = ''/ucla/x'', req_headers = [(''Host'', ''a''), (''X'', ''b'')],
     req_body = [], version_major = 1, version_minor = 1\<rparr>"

lemmas sample_defs = sample_network_def sample_env_def sample_proxy_def sample_request_def

theorem proxied_request_accepted_witness:
  "\<exists>p r. parse_chars new_request_parser (new_request None 0 0)
       (proxy_request sample_env (sample_network id) sample_proxy sample_request) = (Good, [], p, r)
    \<and> req_uri r = ''/x'' \<and> smap_find (req_headers r) ''Host'' = Some ''ucla.edu''
    \<and> smap_find (req_headers r) ''X'' = Some ''b''"
proof -
  have u: "proxy_uri (sample_network id) sample_proxy sample_request = ''/x''"
    by (simp add: proxy_uri_def sample_defs)
  have "\<exists>p r. parse_chars new_request_parser (new_request None 0 0)
       (proxy_request sample_env (sample_network id) sample_proxy sample_request) = (Good, [], p, r)
    \<and> req_uri r = proxy_uri (sample_network id) sample_proxy sample_request
    \<and> (\<forall>k. smap_find (req_headers r) k =
         (if k = ''Host'' then Some (proxy_dest sample_proxy) else if k = ''Connection'' then Some ''close''
          else smap_find (req_headers sample_request) k))"
  proof (rule proxied_request_accepted)
    show "uri_text (proxy_uri (sample_network id) sample_proxy sample_request)"
      by (simp add: u uri_text_def is_ctl_def schar_def)
  qed (simp_all add: sample_defs ref_replace.boost_replace_axioms smap_ok_def less_char_def token_def
      bad_name_char_def is_char_def is_ctl_def is_tspecial_def field_text_def schar_def)
  moreover have "proxy_dest sample_proxy = ''ucla.edu''" "smap_find (req_headers sample_request) ''X'' = Some ''b''"
    by (simp_all add: sample_defs)
  ultimately show ?thesis by (auto simp: u)
qed







end
