(* ===== verification/Dispatcher.thy ===== *)
theory Dispatcher
  imports Simple_Handlers Static_Handler Status_Handler Markdown_Handler Reverse_Proxy
begin

text \<open>
  \<open>RequestHandlerDispatcher\<close> (\<open>src/request_handler/dispatcher.cc\<close>): the handlers that a configuration
  asks for, the prefix table they are filed in, the choice of a handler for a request, and the
  virtual call of its \<open>HandleRequest\<close>. The static members it changes are the \<open>statistics\<close>.
\<close>

section \<open>Handlers\<close>

datatype handler =
    BadRequestHandler
  | EchoHandler
  | HealthHandler
  | MarkdownHandler
  | NotFoundHandler
  | RedirectHandler string
  | ReverseProxyHandler proxy
  | StaticHandler string string
  | StatusHandler

text \<open>The \<open>name\<close> that \<open>Init\<close> gives a handler.\<close>

fun handler_name :: "handler \<Rightarrow> string" where
  "handler_name BadRequestHandler = ''BadReqHandler''"
| "handler_name EchoHandler = ''EchoHandler''"
| "handler_name HealthHandler = ''HealthHandler''"
| "handler_name MarkdownHandler = ''MarkdownHandler''"
| "handler_name NotFoundHandler = ''NotFoundHandler''"
| "handler_name (RedirectHandler host) = ''RedirectHandler''"
| "handler_name (ReverseProxyHandler cfg) = ''ReverseProxyHandler''"
| "handler_name (StaticHandler location root) = ''StaticHandler''"
| "handler_name StatusHandler = ''StatusHandler''"

text \<open>The table \<open>handlers_\<close>; \<open>None\<close> is the null pointer that \<open>ReverseProxyHandler::Init\<close> can return.\<close>

type_synonym handlers = "handler option smap"

section \<open>createHandler\<close>

function strip_slashes :: "string \<Rightarrow> string" where
  "strip_slashes path = (if 1 < length path \<and> last path = CHR ''/'' then strip_slashes (butlast path) else path)"
  by pat_completeness auto
termination by (relation "measure length") auto

declare strip_slashes.simps [simp del]

text \<open>
  The path of a location: the token without its quotes and trailing slashes, \<open>None\<close> when it has no
  quotes. \<open>front()\<close> and \<open>pop_back()\<close> of an empty string are undefined.
\<close>

definition quoted_path :: "string \<Rightarrow> cpp_fault + string option" where
  "quoted_path tok =
     (if tok = [] then Inl OutOfBoundsRead
      else if hd tok = DQUOTE \<and> last tok = DQUOTE then
        (if tl tok = [] then Inl OutOfBoundsRead else Inr (Some (strip_slashes (butlast (tl tok)))))
      else Inr None)"

text \<open>
  For each type of handler: the key it is filed under, the key of its entry in \<open>request_handler_uri\<close>
  and the text of that entry.
\<close>

definition handler_slot :: "string \<Rightarrow> string \<Rightarrow> (string \<times> string \<times> string) option" where
  "handler_slot ty path =
     (if ty = ''echo'' then Some (path, path, ''echo handler'')
      else if ty = ''health'' then Some (path, path, ''health handler'')
      else if ty = ''markdown'' then Some (path, path, ''markdown handler'')
      else if ty = ''missing'' then Some (''/'', ''/'', ''not found handler'')
      else if ty = ''redirect'' then Some (path, path, ''redirect handler'')
      else if ty = ''reverse'' then Some (path, path, ''reverse proxy request handler'')
      else if ty = ''static'' then Some (path, path, ''static handler'')
      else if ty = ''status'' then Some (path, path, ''status handler'')
      else if ty = ''bad'' then Some (''/badrequest'', path, ''bad request handler'')
      else None)"

text \<open>The \<open>Init\<close> functions that look at neither the block nor the path.\<close>

definition bad_request_init :: "nginx_config \<Rightarrow> string \<Rightarrow> handler" where
  "bad_request_init block path = BadRequestHandler"

definition echo_init :: "nginx_config \<Rightarrow> string \<Rightarrow> handler" where
  "echo_init block path = EchoHandler"

definition health_init :: "nginx_config \<Rightarrow> string \<Rightarrow> handler" where
  "health_init block path = HealthHandler"

definition markdown_init :: "nginx_config \<Rightarrow> string \<Rightarrow> handler" where
  "markdown_init block path = MarkdownHandler"

definition not_found_init :: "nginx_config \<Rightarrow> string \<Rightarrow> handler" where
  "not_found_init block path = NotFoundHandler"

definition status_init :: "nginx_config \<Rightarrow> string \<Rightarrow> handler" where
  "status_init block path = StatusHandler"

lemmas plain_inits [simp] =
  bad_request_init_def echo_init_def health_init_def markdown_init_def not_found_init_def status_init_def

definition init_handler :: "'w environment \<Rightarrow> string \<Rightarrow> nginx_config \<Rightarrow> string \<Rightarrow> cpp_fault + handler option" where
  "init_handler env ty block path =
     (if ty = ''echo'' then Inr (Some (echo_init block path))
      else if ty = ''health'' then Inr (Some (health_init block path))
      else if ty = ''markdown'' then Inr (Some (markdown_init block path))
      else if ty = ''missing'' then Inr (Some (not_found_init block path))
      else if ty = ''redirect'' then Inr (Some (RedirectHandler (redirect_init (replace_all env) block)))
      else if ty = ''reverse'' then Inr (map_option ReverseProxyHandler (proxy_init block path))
      else if ty = ''static'' then rbind (static_init block) (\<lambda>root. Inr (Some (StaticHandler path root)))
      else if ty = ''status'' then Inr (Some (status_init block path))
      else Inr (Some (bad_request_init block path)))"

definition create_handler ::
  "'w environment \<Rightarrow> nginx_statement \<Rightarrow> string \<Rightarrow> handlers \<times> statistics \<Rightarrow> cpp_fault + (handlers \<times> statistics)" where
  "create_handler env st ty acc =
     (case (acc, st_tokens st) of
        ((hs, s), t0 # ts) \<Rightarrow>
          (if t0 \<noteq> ''location'' then Inr (hs, s)
           else case ts of
                  [] \<Rightarrow> Inl OutOfBoundsRead
                | t1 # _ \<Rightarrow>
                    rbind (quoted_path t1) (\<lambda>p.
                      case p of
                        None \<Rightarrow> Inr (hs, s)
                      | Some path \<Rightarrow>
                          (if smap_find hs path \<noteq> None then Inr (hs, s)
                           else case handler_slot ty path of
                                  None \<Rightarrow> Inr (hs, s)
                                | Some (key, uri_key, label) \<Rightarrow>
                                    (case st_child st of
                                       None \<Rightarrow> Inl NullDeref
                                     | Some block \<Rightarrow>
                                         rbind (init_handler env ty block path) (\<lambda>h.
                                           Inr (smap_set key h hs,
                                             s\<lparr>request_handler_uri := smap_set uri_key label (request_handler_uri s),
                                               num_handlers := size_add (num_handlers s) 1\<rparr>))))))
      | (_, []) \<Rightarrow> Inl OutOfBoundsRead)"

section \<open>The constructor\<close>

definition handler_type :: "string \<Rightarrow> string option" where
  "handler_type tok =
     (if tok = ''BadRequestHandler'' then Some ''bad''
      else if tok = ''EchoHandler'' then Some ''echo''
      else if tok = ''HealthHandler'' then Some ''health''
      else if tok = ''MarkdownHandler'' then Some ''markdown''
      else if tok = ''NotFoundHandler'' then Some ''missing''
      else if tok = ''RedirectHandler'' then Some ''redirect''
      else if tok = ''ReverseProxyHandler'' then Some ''reverse''
      else if tok = ''StaticHandler'' then Some ''static''
      else if tok = ''StatusHandler'' then Some ''status''
      else None)"

definition add_location ::
  "'w environment \<Rightarrow> nginx_statement \<Rightarrow> handlers \<times> statistics \<Rightarrow> cpp_fault + (handlers \<times> statistics)" where
  "add_location env st acc =
     (if 2 < length (st_tokens st)
      then case handler_type (st_tokens st ! 2) of
             Some ty \<Rightarrow> create_handler env st ty acc
           | None \<Rightarrow> Inr acc
      else Inr acc)"

fun add_locations ::
  "'w environment \<Rightarrow> nginx_config \<Rightarrow> handlers \<times> statistics \<Rightarrow> cpp_fault + (handlers \<times> statistics)" where
  "add_locations env [] acc = Inr acc"
| "add_locations env (st # sts) acc = rbind (add_location env st acc) (add_locations env sts)"

fun add_servers ::
  "'w environment \<Rightarrow> nginx_config \<Rightarrow> handlers \<times> statistics \<Rightarrow> cpp_fault + (handlers \<times> statistics)" where
  "add_servers env [] acc = Inr acc"
| "add_servers env (st # sts) acc =
     rbind (case st_tokens st of
              [] \<Rightarrow> Inl OutOfBoundsRead
            | t0 # ts \<Rightarrow>
                (if t0 = ''server'' \<and> ts = []
                 then (case st_child st of None \<Rightarrow> Inl NullDeref | Some block \<Rightarrow> add_locations env block acc)
                 else Inr acc))
       (add_servers env sts)"

definition new_dispatcher :: "'w environment \<Rightarrow> nginx_config \<Rightarrow> statistics \<Rightarrow> cpp_fault + (handlers \<times> statistics)" where
  "new_dispatcher env config s = add_servers env config ([], s)"

section \<open>dispatch\<close>

text \<open>
  The loop over the table, with the handler found so far and the length of its key (an \<open>int\<close>; keys
  are far shorter than \<open>2^31\<close>).
\<close>

fun match_loop :: "string \<Rightarrow> handlers \<Rightarrow> handler option \<Rightarrow> nat \<Rightarrow> handler option" where
  "match_loop path [] h longest = h"
| "match_loop path ((key, h') # hs) h longest =
     (if key = take (length key) path \<and> longest < length key
      then match_loop path hs h' (length key)
      else match_loop path hs h longest)"

definition dispatch :: "handlers \<Rightarrow> request \<Rightarrow> handler option" where
  "dispatch hs req = match_loop (strip_slashes (req_uri req)) hs None 0"

section \<open>HandleRequest\<close>

text \<open>The virtual call; \<open>uri\<close> is the connection string of the database.\<close>

fun handle_request ::
  "'z zlib \<Rightarrow> 'w environment \<Rightarrow> 'w network \<Rightarrow> string \<Rightarrow> handler \<Rightarrow> request \<Rightarrow> 'w process
     \<Rightarrow> ((cpp_fault + reply) \<times> 'w process) option" where
  "handle_request lib env net uri BadRequestHandler req p = Some (Inr (bad_request_handle req), p)"
| "handle_request lib env net uri EchoHandler req p = Some (echo_handle req, p)"
| "handle_request lib env net uri HealthHandler req p = Some (Inr (health_handle req), p)"
| "handle_request lib env net uri MarkdownHandler req p = Some (markdown_handle env uri p req)"
| "handle_request lib env net uri NotFoundHandler req p = Some (Inr (not_found_handle req), p)"
| "handle_request lib env net uri (RedirectHandler host) req p = Some (Inr (redirect_handle host req), p)"
| "handle_request lib env net uri (ReverseProxyHandler cfg) req p =
     map_option (\<lambda>(res, w). (res, p\<lparr>world := w\<rparr>)) (proxy_handle lib env net cfg req (world p))"
| "handle_request lib env net uri (StaticHandler location root) req p =
     Some (static_handle env (world p) location root req, p)"
| "handle_request lib env net uri StatusHandler req p =
     (case status_handle (stats p) req of
        Inl e \<Rightarrow> Some (Inl e, p)
      | Inr (rep, s) \<Rightarrow> Some (Inr rep, p\<lparr>stats := s\<rparr>))"

section \<open>Dispatching as a search for the longest prefix\<close>

text \<open>The reference: try the prefixes of the path from the longest to the one-character one.\<close>

fun route :: "(string \<Rightarrow> 'a option) \<Rightarrow> string \<Rightarrow> nat \<Rightarrow> 'a option" where
  "route table path 0 = None"
| "route table path (Suc n) =
     (case table (take (Suc n) path) of Some v \<Rightarrow> Some v | None \<Rightarrow> route table path n)"

lemma route_Some:
  "route table path n = Some v \<longleftrightarrow>
     (\<exists>m. 0 < m \<and> m \<le> n \<and> table (take m path) = Some v \<and> (\<forall>k. m < k \<and> k \<le> n \<longrightarrow> table (take k path) = None))"
  by (induction n) (auto simp: le_Suc_eq split: option.splits)

lemma route_None: "route table path n = None \<longleftrightarrow> (\<forall>m. 0 < m \<and> m \<le> n \<longrightarrow> table (take m path) = None)"
  by (induction n) (auto simp: le_Suc_eq split: option.splits)

definition candidate :: "string \<Rightarrow> handlers \<Rightarrow> nat \<Rightarrow> nat \<Rightarrow> bool" where
  "candidate path hs n m \<longleftrightarrow> n < m \<and> m \<le> length path \<and> smap_find hs (take m path) \<noteq> None"

lemma candidate_Cons:
  "candidate path ((key, h) # hs) n m \<longleftrightarrow>
     candidate path hs n m \<or> (n < m \<and> m \<le> length path \<and> key = take m path)"
  by (auto simp: candidate_def)

lemma match_loop_spec:
  "(\<forall>m. \<not> candidate path hs n m) \<and> match_loop path hs h n = h
   \<or> (\<exists>m. candidate path hs n m \<and> smap_find hs (take m path) = Some (match_loop path hs h n)
        \<and> (\<forall>k. m < k \<longrightarrow> \<not> candidate path hs n k))"
proof (induction path hs h n rule: match_loop.induct)
  case (1 path h longest)
  then show ?case by (simp add: candidate_def)
next
  case (2 path key h' hs h longest)
  show ?case
  proof (cases "key = take (length key) path \<and> longest < length key")
    case True
    then have key: "length key \<le> length path" "longest < length key" "take (length key) path = key"
      by (metis length_take min.cobounded1, auto)
    have find: "smap_find ((key, h') # hs) (take m path) = smap_find hs (take m path)"
      if "length key < m" "m \<le> length path" for m
      using that by (auto dest: arg_cong [of _ _ length])
    from True "2.IH"(1) consider
        (keep) "\<forall>m. \<not> candidate path hs (length key) m" "match_loop path hs h' (length key) = h'"
      | (longer) m where "candidate path hs (length key) m"
          "smap_find hs (take m path) = Some (match_loop path hs h' (length key))"
          "\<forall>k. m < k \<longrightarrow> \<not> candidate path hs (length key) k"
      by blast
    then show ?thesis
    proof cases
      case keep
      then have "\<forall>k. length key < k \<longrightarrow> \<not> candidate path ((key, h') # hs) longest k"
        using find by (auto simp: candidate_def)
      then show ?thesis using keep True key by (intro disjI2 exI [of _ "length key"]) (simp add: candidate_def)
    next
      case longer
      then have m: "length key < m" "m \<le> length path" by (auto simp: candidate_def)
      have "\<forall>k. m < k \<longrightarrow> \<not> candidate path ((key, h') # hs) longest k"
        using longer(3) find m by (auto simp: candidate_def)
      then show ?thesis using longer True key m find [OF m]
        by (intro disjI2 exI [of _ m]) (simp add: candidate_def)
    qed
  next
    case False
    then have "key \<noteq> take m path" if "longest < m" "m \<le> length path" for m
      using that by (metis length_take min.absorb2)
    then have same: "candidate path ((key, h') # hs) longest m = candidate path hs longest m"
        "candidate path hs longest m \<Longrightarrow> smap_find ((key, h') # hs) (take m path) = smap_find hs (take m path)" for m
      by (auto simp: candidate_def)
    from False "2.IH"(2) show ?thesis
      by (simp only: match_loop.simps if_False) (metis same)
  qed
qed

lemma match_loop_route:
  "match_loop path hs None 0 = (case route (smap_find hs) path (length path) of Some h \<Rightarrow> h | None \<Rightarrow> None)"
proof (cases "route (smap_find hs) path (length path)")
  case None
  then have "\<forall>m. \<not> candidate path hs 0 m" by (auto simp: candidate_def route_None)
  then show ?thesis using match_loop_spec [of path hs 0 None] None by auto
next
  case (Some v)
  then obtain m where m: "0 < m" "m \<le> length path" "smap_find hs (take m path) = Some v"
      "\<forall>k. m < k \<and> k \<le> length path \<longrightarrow> smap_find hs (take k path) = None"
    by (auto simp: route_Some)
  then have "candidate path hs 0 m" by (simp add: candidate_def)
  then obtain j where j: "candidate path hs 0 j" "smap_find hs (take j path) = Some (match_loop path hs None 0)"
      "\<forall>k. j < k \<longrightarrow> \<not> candidate path hs 0 k"
    using match_loop_spec [of path hs 0 None] by blast
  with m have "j = m" by (metis candidate_def linorder_neqE_nat option.distinct(1))
  with j m Some show ?thesis by simp
qed

section \<open>What the constructor files\<close>

text \<open>
  A location that stands for one row of the table, its path, handler and label, filed under its own
  path (\<open>createHandler\<close> files a \<open>BadRequestHandler\<close> under \<open>/badrequest\<close> and a \<open>NotFoundHandler\<close> under \<open>/\<close>
  whatever their path), and whose \<open>Init\<close> does not fault; and a statement of a server block that is no
  location.
\<close>

definition plain_location :: "'w environment \<Rightarrow> nginx_statement \<Rightarrow> string \<times> handler option \<times> string \<Rightarrow> bool" where
  "plain_location env st = (\<lambda>(path, h, label).
     (case st_tokens st of
        t0 # t1 # t2 # _ \<Rightarrow>
          t0 = ''location'' \<and> quoted_path t1 = Inr (Some path)
          \<and> (case (handler_type t2, st_child st) of
               (Some ty, Some block) \<Rightarrow>
                 handler_slot ty path = Some (path, path, label) \<and> init_handler env ty block path = Inr h
             | _ \<Rightarrow> False)
      | _ \<Rightarrow> False))"

definition not_location :: "nginx_statement \<Rightarrow> bool" where
  "not_location st \<longleftrightarrow>
     (case st_tokens st of
        t0 # t1 # t2 # _ \<Rightarrow> handler_type t2 = None \<or> t0 \<noteq> ''location'' \<or> quoted_path t1 = Inr None
      | _ \<Rightarrow> True)"

fun locations_match :: "'w environment \<Rightarrow> nginx_config \<Rightarrow> (string \<times> handler option \<times> string) list \<Rightarrow> bool" where
  "locations_match env [] rows \<longleftrightarrow> rows = []"
| "locations_match env (st # sts) rows \<longleftrightarrow>
     (if not_location st then locations_match env sts rows
      else case rows of
             [] \<Rightarrow> False
           | row # rows' \<Rightarrow> plain_location env st row \<and> locations_match env sts rows')"

definition server_ok :: "nginx_statement \<Rightarrow> bool" where
  "server_ok st \<longleftrightarrow> st_tokens st \<noteq> [] \<and> (st_tokens st = [''server''] \<longrightarrow> st_child st \<noteq> None)"

definition server_locations :: "nginx_config \<Rightarrow> nginx_config" where
  "server_locations config =
     concat (map (\<lambda>st. if st_tokens st = [''server''] then the (st_child st) else []) config)"

fun file_row :: "string \<times> handler option \<times> string \<Rightarrow> handlers \<times> statistics \<Rightarrow> handlers \<times> statistics" where
  "file_row (path, h, label) (hs, s) =
     (if smap_find hs path \<noteq> None then (hs, s)
      else (smap_set path h hs,
            s\<lparr>request_handler_uri := smap_set path label (request_handler_uri s),
              num_handlers := size_add (num_handlers s) 1\<rparr>))"

lemma add_location_plain: "plain_location env st row \<Longrightarrow> add_location env st acc = Inr (file_row row acc)"
  by (cases row; cases acc)
     (auto simp: plain_location_def add_location_def create_handler_def split: list.splits option.splits)

lemma add_location_none: "not_location st \<Longrightarrow> add_location env st acc = Inr acc"
  by (cases acc) (auto simp: not_location_def add_location_def create_handler_def split: list.splits option.splits)

lemma add_locations_match:
  "locations_match env sts rows \<Longrightarrow> add_locations env sts acc = Inr (fold file_row rows acc)"
  by (induction env sts rows arbitrary: acc rule: locations_match.induct)
     (auto simp: add_location_none add_location_plain split: if_splits list.splits)

lemma add_locations_append:
  "add_locations env (sts @ sts') acc = rbind (add_locations env sts acc) (add_locations env sts')"
proof (induction sts arbitrary: acc)
  case (Cons st sts)
  then show ?case by (cases "add_location env st acc") auto
qed simp

lemma add_servers_blocks:
  "list_all server_ok config \<Longrightarrow> add_servers env config acc = add_locations env (server_locations config) acc"
proof (induction config arbitrary: acc)
  case (Cons st config)
  then have "add_servers env config = add_locations env (server_locations config)" by auto
  then show ?case
    using Cons.prems
    by (cases "st_tokens st") (auto simp: server_locations_def server_ok_def add_locations_append)
qed (simp add: server_locations_def)

lemma length_smap_set: "smap_ok m \<Longrightarrow> smap_find m k = None \<Longrightarrow> length (smap_set k v m) = Suc (length m)"
  by (induction k v m rule: smap_set.induct) (auto simp: smap_ok_def split: if_splits)

lemma length_smap_set_le: "length (smap_set k v m) \<le> Suc (length m)"
  by (induction k v m rule: smap_set.induct) auto

text \<open>What stays true of the table and the statistics while locations are filed.\<close>

definition table_ok :: "handlers \<times> statistics \<Rightarrow> bool" where
  "table_ok = (\<lambda>(hs, s). smap_ok hs \<and> num_handlers s = length hs
     \<and> (\<forall>k. smap_find hs k = None \<longleftrightarrow> smap_find (request_handler_uri s) k = None))"

lemma file_row_ok:
  "table_ok (hs, s) \<Longrightarrow> length hs + 1 < 2 ^ 64 \<Longrightarrow> table_ok (file_row row (hs, s))"
  by (cases row) (auto simp: table_ok_def smap_ok_set smap_find_set length_smap_set size_add_small)

lemma file_rows:
  assumes "table_ok (hs, s)" "length hs + length rows < 2 ^ 64"
  shows "\<exists>hs' s'. fold file_row rows (hs, s) = (hs', s') \<and> table_ok (hs', s')
    \<and> smap_find hs' = map_of (map (\<lambda>(p, h, l). (p, h)) rows) ++ smap_find hs
    \<and> smap_find (request_handler_uri s') = map_of (map (\<lambda>(p, h, l). (p, l)) rows) ++ smap_find (request_handler_uri s)
    \<and> request_code_received s' = request_code_received s \<and> num_requests s' = num_requests s"
  using assms
proof (induction rows arbitrary: hs s)
  case (Cons row rows)
  obtain p h l where row: "row = (p, h, l)" by (cases row)
  obtain hs1 s1 where step: "file_row row (hs, s) = (hs1, s1)" by (cases "file_row row (hs, s)")
  have ok: "table_ok (hs1, s1)"
    using file_row_ok [OF Cons.prems(1), of row] Cons.prems(2) step by simp
  have len: "length hs1 \<le> length hs + 1"
    using step by (auto simp: row length_smap_set_le split: if_splits)
  have "smap_find hs p = None \<longleftrightarrow> smap_find (request_handler_uri s) p = None"
    using Cons.prems(1) by (simp add: table_ok_def)
  then have find: "smap_find hs1 = [p \<mapsto> h] ++ smap_find hs"
      "smap_find (request_handler_uri s1) = [p \<mapsto> l] ++ smap_find (request_handler_uri s)"
    using step by (auto simp: row smap_find_set map_add_def fun_eq_iff split: if_splits option.splits)
  have keep: "request_code_received s1 = request_code_received s" "num_requests s1 = num_requests s"
    using step by (auto simp: row split: if_splits)
  show ?case
    using Cons.IH [OF ok] Cons.prems(2) len step find keep
    by (fastforce simp: row map_add_def fun_eq_iff split: option.splits)
qed (simp add: map_add_def fun_eq_iff)

section \<open>Replies and statistics of all handlers\<close>

lemma markdown_handle_length: "markdown_handle env uri p req = (Inr r, p') \<Longrightarrow> content_length_ok r"
  by (auto simp: markdown_handle_def create_form_def view_markdown_def Let_def fault_simps content_length_ok_def
      stock_reply_headers(2) [unfolded content_length_ok_def] split: if_splits option.splits prod.splits sum.splits)

text \<open>The calls of the driver leave the statistics alone.\<close>

lemma driver_stats: "driver_call outcome x p = (res, q) \<Longrightarrow> stats q = stats p"
  by (auto simp: driver_call_def split: prod.splits option.splits)

lemma new_db_handler_stats: "new_db_handler env uri db coll p = (res, q) \<Longrightarrow> stats q = stats p"
  by (auto simp: new_db_handler_def create_pool_def dest!: driver_stats split: option.splits prod.splits sum.splits)

lemma get_client_stats: "get_client_from_pool env p = (res, q) \<Longrightarrow> stats q = stats p"
  by (auto simp: get_client_from_pool_def dest: driver_stats split: option.splits)

lemma insert_markdown_stats: "insert_markdown env h md p = (res, q) \<Longrightarrow> stats q = stats p"
  by (auto simp: insert_markdown_def insert_document_def dest!: get_client_stats split: option.splits prod.splits sum.splits)

lemma get_ten_stats: "get_ten_markdowns env h p = (res, q) \<Longrightarrow> stats q = stats p"
  by (auto simp: get_ten_markdowns_def db_helper_def dest!: get_client_stats split: option.splits prod.splits sum.splits)

lemmas db_stats = new_db_handler_stats insert_markdown_stats get_ten_stats

lemma create_form_stats: "stats (snd (create_form env uri p req)) = stats p"
  by (auto simp: create_form_def dest!: db_stats split: option.splits prod.splits sum.splits)

lemma view_markdown_stats: "stats (snd (view_markdown env uri p req)) = stats p"
  by (auto simp: view_markdown_def Let_def dest!: db_stats split: prod.splits sum.splits)

lemma markdown_handle_stats: "stats (snd (markdown_handle env uri p req)) = stats p"
  by (simp add: markdown_handle_def create_form_stats view_markdown_stats)

lemma status_handle_length: "status_handle s req = Inr (r, s') \<Longrightarrow> content_length_ok r"
  by (auto simp: status_handle_def Let_def fault_simps content_length_ok_def)

text \<open>The statistics as far as requests can see them.\<close>

definition same_statistics :: "statistics \<Rightarrow> statistics \<Rightarrow> bool" where
  "same_statistics s s' \<longleftrightarrow> codes_of s' = codes_of s \<and> request_handler_uri s' = request_handler_uri s
     \<and> num_handlers s' = num_handlers s \<and> num_requests s' = num_requests s"

lemma status_handle_stats: "status_handle s req = Inr (r, s') \<Longrightarrow> same_statistics s s'"
  using pop_push_code [of "req_uri req" "status_value Ok" s]
  by (auto simp: status_handle_def Let_def fault_simps same_statistics_def)

lemma handle_request_length:
  assumes "handle_request lib env net uri h req p = Some (Inr r, p')"
    and "\<forall>host. h \<noteq> RedirectHandler host"
    and "h = EchoHandler \<Longrightarrow> 2 \<le> length (req_body req) \<and> length (req_body req) < 2 ^ 64"
  shows "content_length_ok r"
proof (cases h)
  case EchoHandler
  with assms(1,3) echo.announces [of req] show ?thesis by (auto simp: echo_reply_def)
next
  case (ReverseProxyHandler cfg)
  with assms(1) show ?thesis by (auto dest: proxy_handle_length)
next
  case (StaticHandler location root)
  with assms(1) show ?thesis by (auto dest: static_handle_framed simp: framed_def)
qed (use assms fixed_handlers_framed_replies [of req] in
     \<open>auto simp: framed_def dest: markdown_handle_length status_handle_length split: sum.splits prod.splits\<close>)

lemma handle_request_stats:
  assumes "handle_request lib env net uri h req p = Some (res, p')"
  shows "same_statistics (stats p) (stats p')"
proof (cases h)
  case MarkdownHandler
  with assms markdown_handle_stats [of env uri p req] show ?thesis by (simp add: same_statistics_def)
next
  case StatusHandler
  with assms show ?thesis
    by (auto simp: same_statistics_def [of s s for s] dest: status_handle_stats split: sum.splits prod.splits)
qed (use assms in \<open>auto simp: same_statistics_def\<close>)

text \<open>
  The contract of a handler that the session relies on: whatever a request makes it do, the statistics
  are for the reader what they were. A handler that also returns for every request is a prompt one.
\<close>

locale request_handler =
  fixes handle :: "request \<Rightarrow> 'w process \<Rightarrow> ((cpp_fault + reply) \<times> 'w process) option"
  assumes quiet: "handle req p = Some (res, p') \<Longrightarrow> same_statistics (stats p) (stats p')"
begin

lemma keeps_codes: "handle req p = Some (res, p') \<Longrightarrow> codes_of (stats p') = codes_of (stats p)"
  by (auto dest: quiet simp: same_statistics_def)

lemma keeps_count: "handle req p = Some (res, p') \<Longrightarrow> num_requests (stats p') = num_requests (stats p)"
  by (auto dest: quiet simp: same_statistics_def)

end

locale prompt_handler = request_handler +
  assumes returns: "handle req p \<noteq> None"
begin

lemma outcome: "\<exists>res p'. handle req p = Some (res, p') \<and> codes_of (stats p') = codes_of (stats p)"
  using returns [of req p] keeps_codes [of req p] by (cases "handle req p") auto

end

interpretation handlers: request_handler "handle_request lib env net uri h" for lib env net uri h
  by unfold_locales (rule handle_request_stats)

text \<open>Only a proxy can fail to return.\<close>

lemma handle_request_returns:
  "\<forall>cfg. h \<noteq> ReverseProxyHandler cfg \<Longrightarrow> handle_request lib env net uri h req p \<noteq> None"
  by (cases h) (auto split: sum.splits)

interpretation bad_request_handler: prompt_handler "handle_request lib env net uri BadRequestHandler" for lib env net uri
  by unfold_locales (rule handle_request_returns, simp)

interpretation markdown_handler: prompt_handler "handle_request lib env net uri MarkdownHandler" for lib env net uri
  by unfold_locales (rule handle_request_returns, simp)

interpretation static_handler: prompt_handler "handle_request lib env net uri (StaticHandler location root)"
  for lib env net uri location root
  by unfold_locales (rule handle_request_returns, simp)

interpretation status_handler: prompt_handler "handle_request lib env net uri StatusHandler" for lib env net uri
  by unfold_locales (rule handle_request_returns, simp)

lemma dispatcher_built:
  assumes "list_all server_ok config" "locations_match env (server_locations config) rows"
    and "length rows < 2 ^ 64"
  shows "\<exists>hs s. new_dispatcher env config new_statistics = Inr (hs, s)
    \<and> smap_find hs = map_of (map (\<lambda>(path, h, label). (path, h)) rows)
    \<and> smap_find (request_handler_uri s) = map_of (map (\<lambda>(path, h, label). (path, label)) rows)
    \<and> num_handlers s = length hs"
proof -
  have start: "table_ok ([], new_statistics)"
    by (simp add: table_ok_def new_statistics_def)
  show ?thesis
    using file_rows [OF start, of rows] assms
    by (auto simp: new_dispatcher_def add_servers_blocks add_locations_match table_ok_def new_statistics_def
        map_add_def fun_eq_iff)
qed

text \<open>Building the table leaves the received codes alone.\<close>

lemma create_handler_codes:
  assumes "create_handler env st ty (hs, s) = Inr (hs', s')"
  shows "request_code_received s' = request_code_received s"
proof -
  obtain t0 ts where tokens: "st_tokens st = t0 # ts"
    using assms by (cases "st_tokens st") (auto simp: create_handler_def)
  show ?thesis
  proof (cases "t0 = ''location''")
    case True
    then obtain t1 ts' where ts: "ts = t1 # ts'"
      using assms tokens by (cases ts) (auto simp: create_handler_def)
    obtain p where p: "quoted_path t1 = Inr p"
      using assms tokens True ts by (cases "quoted_path t1") (auto simp: create_handler_def)
    show ?thesis
    proof (cases p)
      case None
      with assms tokens True ts p show ?thesis by (simp add: create_handler_def)
    next
      case (Some path)
      with assms tokens True ts p show ?thesis
        by (cases "handler_slot ty path"; cases "st_child st"; cases "init_handler env ty (the (st_child st)) path")
          (auto simp: create_handler_def split: if_splits)
    qed
  qed (use assms tokens in \<open>simp add: create_handler_def\<close>)
qed

lemma add_location_codes:
  "add_location env st (hs, s) = Inr (hs', s') \<Longrightarrow> request_code_received s' = request_code_received s"
  by (auto simp: add_location_def dest: create_handler_codes split: if_splits option.splits)

lemma add_locations_codes:
  "add_locations env sts (hs, s) = Inr (hs', s') \<Longrightarrow> request_code_received s' = request_code_received s"
  by (induction sts arbitrary: hs s) (fastforce simp: fault_simps dest: add_location_codes)+

lemma add_servers_codes:
  "add_servers env sts (hs, s) = Inr (hs', s') \<Longrightarrow> request_code_received s' = request_code_received s"
proof (induction sts arbitrary: hs s)
  case (Cons st sts)
  then show ?case
    by (cases st) (fastforce simp: fault_simps dest: add_locations_codes split: list.splits option.splits if_splits)
qed simp

lemma new_dispatcher_codes:
  "new_dispatcher env config s = Inr (hs, s') \<Longrightarrow> request_code_received s' = request_code_received s"
  by (auto simp: new_dispatcher_def dest: add_servers_codes)

section \<open>Properties\<close>

text \<open>
  C5. Dispatching is longest-prefix search: the handler chosen is the table entry for the longest
  non-empty prefix of the request's path, without its trailing slashes, that has an entry; a prefix
  may end in the middle of a path segment.
\<close>

theorem dispatch_longest_prefix:
  "dispatch hs req =
     (case route (smap_find hs) (strip_slashes (req_uri req)) (length (strip_slashes (req_uri req))) of
        Some h \<Rightarrow> h
      | None \<Rightarrow> None)"
  by (simp add: dispatch_def match_loop_route)

text \<open>
  C16. What a configuration builds. It is one whose statements have tokens, whose server blocks have
  children, and whose locations are plain (\<open>plain_location\<close>): whatever names a known handler for a path in
  quotes has a block, \<open>Init\<close> does not fault on it (it does on a static root that is empty), and it is filed
  under its own path, which excludes a \<open>BadRequestHandler\<close> anywhere but at \<open>/badrequest\<close> and a
  \<open>NotFoundHandler\<close> anywhere but at \<open>/\<close>. Then the dispatcher is constructed without a fault, each path is
  served by the first location that names it, the listing shown on the status page has the same
  paths, and the counter is the size of the table.
\<close>

theorem dispatcher_first_wins:
  assumes "list_all server_ok config" "locations_match env (server_locations config) rows"
    and "length rows < 2 ^ 64"
  shows "\<exists>hs s. new_dispatcher env config new_statistics = Inr (hs, s)
    \<and> smap_find hs = map_of (map (\<lambda>(path, h, label). (path, h)) rows)
    \<and> smap_find (request_handler_uri s) = map_of (map (\<lambda>(path, h, label). (path, label)) rows)
    \<and> num_handlers s = length hs"
  using assms by (rule dispatcher_built)

definition sample_config :: nginx_config where
  "sample_config =
     [Statement [''server''] (Some
        [Statement [''port'', ''80''] None,
         Statement [''location'', [DQUOTE] @ ''/echo/'' @ [DQUOTE], ''EchoHandler''] (Some []),
         Statement [''location'', [DQUOTE] @ ''/echo'' @ [DQUOTE], ''HealthHandler''] (Some []),
         Statement [''location'', [DQUOTE] @ ''/'' @ [DQUOTE], ''NotFoundHandler''] (Some [])])]"

definition sample_rows :: "(string \<times> handler option \<times> string) list" where
  "sample_rows =
     [(''/echo'', Some EchoHandler, ''echo handler''), (''/echo'', Some HealthHandler, ''health handler''),
      (''/'', Some NotFoundHandler, ''not found handler'')]"

lemma sample_config_match:
  "list_all server_ok sample_config" "locations_match env (server_locations sample_config) sample_rows"
  "length sample_rows < 2 ^ 64"
  by (simp_all add: sample_config_def sample_rows_def server_ok_def server_locations_def not_location_def
      plain_location_def quoted_path_def strip_slashes.simps handler_type_def handler_slot_def init_handler_def)

theorem dispatcher_first_wins_witness:
  "\<exists>hs s. new_dispatcher (sample_env :: unit environment) sample_config new_statistics = Inr (hs, s)
    \<and> smap_find hs ''/echo'' = Some (Some EchoHandler) \<and> smap_find hs ''/'' = Some (Some NotFoundHandler)"
  using dispatcher_first_wins [OF sample_config_match, of "sample_env :: unit environment"]
  by (auto simp: sample_rows_def)

text \<open>
  C30. A handler that is not filed where it is listed: a location with a \<open>BadRequestHandler\<close> at any path but
  \<open>/badrequest\<close> leaves its path without a handler, although the status page lists it there, and replaces
  what is filed under \<open>/badrequest\<close>; requests that \<open>/badrequest\<close> is no prefix of go where they went
  before, and a later location can take the path, with a second entry in the count.
\<close>

theorem bad_request_handler_misfiled:
  assumes "smap_ok hs" "smap_find hs path = None" "path \<noteq> ''/badrequest''"
    and "st_tokens st = ''location'' # tok # ''BadRequestHandler'' # ts" "quoted_path tok = Inr (Some path)"
    and "st_child st = Some block"
  shows "\<exists>hs' s'. add_location env st (hs, s) = Inr (hs', s')
    \<and> smap_find hs' path = None \<and> smap_find (request_handler_uri s') path = Some ''bad request handler''
    \<and> smap_find hs' ''/badrequest'' = Some (Some BadRequestHandler)
    \<and> (\<forall>req. take 11 (strip_slashes (req_uri req)) \<noteq> ''/badrequest'' \<longrightarrow> dispatch hs' req = dispatch hs req)
    \<and> (\<forall>st' block'. st_tokens st' = ''location'' # tok # ''EchoHandler'' # ts \<and> st_child st' = Some block' \<longrightarrow>
         (\<exists>hs2 s2. add_location env st' (hs', s') = Inr (hs2, s2) \<and> smap_find hs2 path = Some (Some EchoHandler)
            \<and> num_handlers s2 = size_add (size_add (num_handlers s) 1) 1))"
proof -
  let ?hs = "smap_set ''/badrequest'' (Some BadRequestHandler) hs"
  let ?s = "s\<lparr>request_handler_uri := smap_set path ''bad request handler'' (request_handler_uri s),
    num_handlers := size_add (num_handlers s) 1\<rparr>"
  have made: "add_location env st (hs, s) = Inr (?hs, ?s)"
    using assms by (simp add: add_location_def handler_type_def create_handler_def handler_slot_def init_handler_def)
  have ok: "smap_ok ?hs" using assms(1) by (rule smap_ok_set)
  have same: "smap_find ?hs k = smap_find hs k" if "k \<noteq> ''/badrequest''" for k
    using that by (simp add: smap_find_set)
  have "dispatch ?hs req = dispatch hs req" if "take 11 (strip_slashes (req_uri req)) \<noteq> ''/badrequest''" for req
  proof -
    let ?p = "strip_slashes (req_uri req)"
    have other: "take m ?p \<noteq> ''/badrequest''" for m
    proof
      assume m: "take m ?p = ''/badrequest''"
      then have "min (length ?p) m = 11" by (auto dest: arg_cong [of _ _ length])
      then have "take 11 ?p = take m ?p" by (metis min.cobounded2 min_def nle_le take_all)
      with m that show False by simp
    qed
    have "route (smap_find ?hs) ?p n = route (smap_find hs) ?p n" for n
      by (induction n) (simp_all add: same other split: option.split)
    then show ?thesis by (simp add: dispatch_def match_loop_route)
  qed
  moreover have "\<exists>hs2 s2. add_location env st' (?hs, ?s) = Inr (hs2, s2) \<and> smap_find hs2 path = Some (Some EchoHandler)
      \<and> num_handlers s2 = size_add (size_add (num_handlers s) 1) 1"
    if "st_tokens st' = ''location'' # tok # ''EchoHandler'' # ts \<and> st_child st' = Some block'" for st' block'
    using that assms(2,3,5)
    by (simp add: add_location_def handler_type_def create_handler_def handler_slot_def init_handler_def same smap_find_set)
  ultimately show ?thesis
    using made assms(2,3) by (auto simp: same smap_find_set)
qed

theorem bad_request_handler_misfiled_witness:
  "\<exists>hs s. add_location (sample_env :: unit environment)
      (Statement [''location'', [DQUOTE] @ ''/oops'' @ [DQUOTE], ''BadRequestHandler''] (Some [])) ([], new_statistics) = Inr (hs, s)
    \<and> smap_find hs ''/oops'' = None \<and> smap_find (request_handler_uri s) ''/oops'' = Some ''bad request handler''"
proof -
  let ?tok = "[DQUOTE] @ ''/oops'' @ [DQUOTE]"
  have "quoted_path ?tok = Inr (Some ''/oops'')"
    by (simp add: quoted_path_def strip_slashes.simps)
  moreover have "smap_ok ([] :: handlers)" by (simp add: smap_ok_def)
  ultimately show ?thesis
    using bad_request_handler_misfiled [of "[]" "''/oops''" "Statement [''location'', ?tok, ''BadRequestHandler''] (Some [])"
        ?tok "[]" "[]" "sample_env :: unit environment" new_statistics]
    by simp blast
qed

text \<open>
  C18. Every handler but the redirect handler announces the length of the body it returns, whatever
  the request, the files, the database and the proxied site do; the echo handler does so for the
  requests that a parser can have accepted.
\<close>

theorem handlers_announce_length:
  assumes "handle_request lib env net uri h req p = Some (Inr r, p')"
    and "\<forall>host. h \<noteq> RedirectHandler host"
    and "h = EchoHandler \<Longrightarrow> 2 \<le> length (req_body req) \<and> length (req_body req) < 2 ^ 64"
  shows "get_header r ''Content-Length'' = Some (to_string (length (rep_body r)))"
  using handle_request_length [OF assms] by (simp add: content_length_ok_def)

theorem handlers_announce_length_witness:
  "get_header (bad_request_handle sample_request) ''Content-Length''
     = Some (to_string (length (rep_body (bad_request_handle sample_request))))"
  by (rule handlers_announce_length
      [of stored "sample_env :: string environment" "sample_network id" "[]" BadRequestHandler sample_request
        "\<lparr>world = [], client_pool = None, stats = new_statistics\<rparr>"]) simp_all

end
