(* ===== verification/Logger.thy ===== *)
theory Logger
  imports Http
begin

text \<open>
  \<open>src/logger/logger.cc\<close>: the records that the logger hands to Boost.Log, a severity and a text, and
  the sinks it registers with it. What Boost.Log does with them, and the mutex, are not modelled. \<open>ip\<close> is the address of the peer, \<open>None\<close> when
  \<open>remote_endpoint()\<close> throws; the callers catch that exception, and no record is written.
\<close>

datatype severity_level = NORMAL | NOTIFICATION | WARNING | ERROR | CRITICAL

fun log_message :: "string \<Rightarrow> severity_level \<Rightarrow> severity_level \<times> string" where
  "log_message message NORMAL = (NORMAL, ''<Normal>: '' @ message)"
| "log_message message NOTIFICATION = (NOTIFICATION, ''<Notification>: '' @ message)"
| "log_message message WARNING = (WARNING, ''<Warning>: '' @ message)"
| "log_message message ERROR = (ERROR, ''<Error>: '' @ message)"
| "log_message message CRITICAL = (CRITICAL, ''<Critical>: '' @ message)"

definition log_request :: "request \<Rightarrow> string option \<Rightarrow> severity_level \<Rightarrow> (severity_level \<times> string) option" where
  "log_request req ip severity =
     map_option (\<lambda>ip.
       let msg = ''Request received. Sender IP: '' @ ip @ '' via HTTP: ''
                 @ int_to_string (sint (version_major req)) @ ''.'' @ int_to_string (sint (version_minor req))
       in case severity of
            NOTIFICATION \<Rightarrow> (NOTIFICATION, ''<Notification>: '' @ msg)
          | ERROR \<Rightarrow> (ERROR, ''<Error>: '' @ msg)
          | _ \<Rightarrow> (NORMAL, ''<Normal>: '' @ ''Odd request received...'' @ msg)) ip"

definition log_metrics :: "request \<Rightarrow> reply \<Rightarrow> string option \<Rightarrow> string \<Rightarrow> (severity_level \<times> string) option" where
  "log_metrics req rep ip name =
     map_option (\<lambda>ip. (NOTIFICATION, ''<Notification>: '' @
       ''{ResponseMetrics} response_code:'' @ to_string (status_value (rep_code rep)) @ '', request_path:''
       @ req_uri req @ '', request_ip:'' @ ip @ '', handler_name:'' @ name)) ip"

text \<open>
  The sinks that the constructor registers: the log file of \<open>init\<close> (its name, the size and the time of
  day at which a new one is begun, the pattern of a line, and whether every record is flushed), and
  the pattern of the lines on the console.
\<close>

record file_sink =
  file_name :: string
  rotation_size :: nat
  rotation_time :: "nat \<times> nat \<times> nat"
  line_pattern :: string
  auto_flush :: bool

definition logger_init :: file_sink where
  "logger_init =
     \<lparr>file_name = ''../logs/server_logs_%N.log'', rotation_size = 10 * 1024 * 1024, rotation_time = (0, 0, 0),
      line_pattern = ''[%TimeStamp%]: (%ThreadID%): %Message%'', auto_flush = True\<rparr>"

definition new_logger :: "file_sink \<times> string" where
  "new_logger = (logger_init, ''>> %Message%'')"

end
