(* ===== verification/Session.thy ===== *)
theory Session
  imports Dispatcher Logger
begin

text \<open>
  \<open>session\<close> (\<open>src/session.cc\<close>): one connection, its 1024-byte buffer, the parser it feeds and the
  reply it writes. A completion handler is a function of the session and the process; \<open>None\<close> is a
  handler that never returns, \<open>Inl\<close> an exception that leaves it (which ends the process, since
  \<open>io_service::run\<close> does not catch it) or undefined behaviour.
\<close>

section \<open>State\<close>

text \<open>
  \<open>sent\<close> holds the texts handed to \<open>async_write\<close>, \<open>journal\<close> the records that the session logs, \<open>remote\<close> the
  address of the peer. The buffer, the method and the version numbers start uninitialised.
\<close>

record session =
  data_buf :: string
  req_obj :: request
  parser_obj :: request_parser
  rep :: "reply option"
  handler :: "handler option"
  remote :: "string option"
  sent :: "string list"
  journal :: "(severity_level \<times> string) list"
  is_shut :: bool

definition max_length :: nat where
  "max_length = 1024"

definition new_session :: "string \<Rightarrow> request \<Rightarrow> string option \<Rightarrow> session" where
  "new_session mem req ip =
     \<lparr>data_buf = mem, req_obj = req, parser_obj = new_request_parser, rep = None, handler = None,
      remote = ip, sent = [], journal = [], is_shut = False\<rparr>"

text \<open>\<open>async_read_some\<close> puts what it receives at the start of the buffer.\<close>

definition receive :: "string \<Rightarrow> session \<Rightarrow> session" where
  "receive bytes s = s\<lparr>data_buf := write_at 0 bytes (data_buf s)\<rparr>"

text \<open>The code outside the repository that a session calls, and the connection string.\<close>

record ('z, 'w) services =
  lib :: "'z zlib"
  env :: "'w environment"
  net :: "'w network"
  db_uri :: string

section \<open>Reading a request\<close>

function pop_to_newline :: "string \<Rightarrow> string" where
  "pop_to_newline buf = (if 1 < length buf \<and> last buf \<noteq> LF then pop_to_newline (butlast buf) else buf)"
  by pat_completeness auto
termination by (relation "measure length") auto

declare pop_to_newline.simps [simp del]

definition format_data :: "(string \<Rightarrow> string \<Rightarrow> string \<Rightarrow> string) \<Rightarrow> string \<Rightarrow> string" where
  "format_data replace str = replace (pop_to_newline str) [LF] crlf @ crlf"

text \<open>\<open>strcpy(data_, data.c_str())\<close>: up to the first NUL, with a terminating NUL.\<close>

definition copy_c_string :: "string \<Rightarrow> string \<Rightarrow> cpp_fault + string" where
  "copy_c_string str buf =
     (let c = takeWhile (\<lambda>c. c \<noteq> NUL) str
      in if length buf < length c + 1 then Inl BufferOverflow else Inr (write_at 0 (c @ [NUL]) buf))"

definition parse_buffer :: "session \<Rightarrow> nat \<Rightarrow> cpp_fault + (result_type \<times> session)" where
  "parse_buffer s n =
     rbind (parse (parser_obj s) (req_obj s) (data_buf s) n) (\<lambda>(res, rest, p, r).
       Inr (res, s\<lparr>parser_obj := p, req_obj := r\<rparr>))"

text \<open>
  The two branches of \<open>handle_read\<close> before the result is looked at. \<open>data_str.size() - 2\<close> wraps for
  fewer than two bytes, and \<open>substr\<close> throws.
\<close>

definition read_request ::
  "(string \<Rightarrow> string \<Rightarrow> string \<Rightarrow> string) \<Rightarrow> session \<Rightarrow> nat \<Rightarrow> cpp_fault + (result_type \<times> session)" where
  "read_request replace s n =
     (if length (data_buf s) < n then Inl OutOfBoundsRead
      else let data_str = take n (data_buf s)
           in rbind (substr data_str (size_sub (length data_str) 2) npos) (\<lambda>tail.
                if tail = crlf then parse_buffer s n
                else let str = format_data replace data_str
                     in rbind (copy_c_string str (data_buf s)) (\<lambda>mem.
                          parse_buffer (s\<lparr>data_buf := mem\<rparr>) (length str))))"

section \<open>What is logged\<close>

text \<open>Nothing is written when \<open>remote_endpoint()\<close> throws.\<close>

definition logged :: "'r option \<Rightarrow> 'r list" where
  "logged record = (case record of None \<Rightarrow> [] | Some rec \<Rightarrow> [rec])"

text \<open>
  \<open>find\<close> yields \<open>npos\<close> in a buffer without a carriage return, which as an \<open>unsigned\<close> still is more than
  the length. The parser has read the buffer up to its NUL before.
\<close>

definition first_line :: "session \<Rightarrow> string" where
  "first_line s = takeWhile (\<lambda>c. c \<noteq> CR) (takeWhile (\<lambda>c. c \<noteq> NUL) (data_buf s))"

definition read_records :: "result_type \<Rightarrow> session \<Rightarrow> (severity_level \<times> string) list" where
  "read_records res s =
     logged (log_request (req_obj s) (remote s) NOTIFICATION)
     @ [log_message (''First line of request: '' @ first_line s) NORMAL]
     @ (case res of
          Good \<Rightarrow> [log_message ''OK request received.'' NORMAL]
        | Bad \<Rightarrow> [log_message ''Bad request received.'' NORMAL]
        | Indeterminate \<Rightarrow> [])"

definition log_read :: "result_type \<Rightarrow> session \<Rightarrow> session" where
  "log_read res s = s\<lparr>journal := journal s @ read_records res s\<rparr>"

definition log_error :: "string \<Rightarrow> session \<Rightarrow> session" where
  "log_error msg s = s\<lparr>journal := journal s @ [log_message msg ERROR]\<rparr>"

lemma log_read_frame [simp]:
  "data_buf (log_read res s) = data_buf s" "req_obj (log_read res s) = req_obj s"
  "parser_obj (log_read res s) = parser_obj s" "sent (log_read res s) = sent s"
  "rep (log_read res s) = rep s" "remote (log_read res s) = remote s"
  by (simp_all add: log_read_def)

lemma log_error_frame [simp]: "sent (log_error msg s) = sent s" "req_obj (log_error msg s) = req_obj s"
  by (simp_all add: log_error_def)

section \<open>Answering it\<close>

text \<open>The handler for the request, or a stock reply if the dispatcher has none.\<close>

definition make_reply ::
  "('z, 'w) services \<Rightarrow> handlers \<Rightarrow> status_code \<Rightarrow> session \<Rightarrow> 'w process
     \<Rightarrow> (cpp_fault + (reply \<times> session \<times> 'w process)) option" where
  "make_reply svc hs fallback s p =
     (let h = dispatch hs (req_obj s)
      in case (case h of
                 None \<Rightarrow> Some (Inr (stock_reply (replace_all (env svc)) fallback), p)
               | Some h \<Rightarrow> handle_request (lib svc) (env svc) (net svc) (db_uri svc) h (req_obj s) p) of
           None \<Rightarrow> None
         | Some (Inl e, p) \<Rightarrow> Some (Inl e)
         | Some (Inr r, p) \<Rightarrow> Some (Inr (r, s\<lparr>handler := h, rep := Some r\<rparr>, p)))"

text \<open>
  \<open>logMetrics(request_, rep, socket_, handler->name)\<close> and the start of the write. The arguments are
  evaluated first, and a null \<open>handler\<close> is dereferenced; \<open>catch (...)\<close> does not help against that.
\<close>

definition send_reply :: "reply \<Rightarrow> session \<Rightarrow> cpp_fault + session" where
  "send_reply r s =
     (case handler s of
        None \<Rightarrow> Inl NullDeref
      | Some h \<Rightarrow>
          Inr (s\<lparr>journal := journal s @ logged (log_metrics (req_obj s) r (remote s) (handler_name h)),
                 sent := sent s @ [wire r]\<rparr>))"

definition count_request :: "'w process \<Rightarrow> 'w process" where
  "count_request p = p\<lparr>stats := (stats p)\<lparr>num_requests := size_add (num_requests (stats p)) 1\<rparr>\<rparr>"

definition record_code :: "string \<Rightarrow> reply \<Rightarrow> 'w process \<Rightarrow> 'w process" where
  "record_code uri r p = p\<lparr>stats := push_code uri (status_value (rep_code r)) (stats p)\<rparr>"

definition answer_good ::
  "('z, 'w) services \<Rightarrow> handlers \<Rightarrow> session \<Rightarrow> 'w process \<Rightarrow> (cpp_fault + (int \<times> session \<times> 'w process)) option" where
  "answer_good svc hs s p =
     map_option (\<lambda>res. rbind res (\<lambda>(r, s, p).
         let p = record_code (req_uri (req_obj s)) r p
         in rbind (send_reply r s) (\<lambda>s. Inr (0, s, p))))
       (make_reply svc hs Not_found s p)"

definition answer_bad ::
  "('z, 'w) services \<Rightarrow> handlers \<Rightarrow> session \<Rightarrow> 'w process \<Rightarrow> (cpp_fault + (int \<times> session \<times> 'w process)) option" where
  "answer_bad svc hs s p =
     map_option (\<lambda>res. rbind res (\<lambda>(r, s, p). rbind (send_reply r s) (\<lambda>s. Inr (1, s, p))))
       (make_reply svc hs Bad_request (s\<lparr>req_obj := (req_obj s)\<lparr>req_uri := ''/badrequest''\<rparr>\<rparr>) p)"

section \<open>The completion handlers\<close>

text \<open>
  \<open>handle_read\<close>: the value returned, the session and the process. An unfinished request makes it call
  itself on the same bytes with the parser as it stands, and then return -1.
\<close>

partial_function (option) handle_read ::
  "('z, 'w) services \<Rightarrow> handlers \<Rightarrow> string option \<Rightarrow> nat \<Rightarrow> session \<Rightarrow> 'w process
     \<Rightarrow> (cpp_fault + (int \<times> session \<times> 'w process)) option" where
  "handle_read svc hs error n s p =
     (let p = count_request p
      in case error of
           Some msg \<Rightarrow> Some (Inr (- 1, log_error (''Session read error: '' @ msg) s, p))
         | None \<Rightarrow>
             (case read_request (replace_all (env svc)) s n of
                Inl e \<Rightarrow> Some (Inl e)
              | Inr (res, s) \<Rightarrow>
                  (case res of
                     Good \<Rightarrow> answer_good svc hs (log_read res s) p
                   | Bad \<Rightarrow> answer_bad svc hs (log_read res s) p
                   | Indeterminate \<Rightarrow>
                       Option.bind (handle_read svc hs error n (log_read res s) p) (\<lambda>res.
                         Some (rbind res (\<lambda>(status, s, p). Inr (- 1, s, p)))))))"

definition handle_write :: "string option \<Rightarrow> session \<Rightarrow> int \<times> session" where
  "handle_write error s =
     (case error of
        None \<Rightarrow>
          (0, s\<lparr>is_shut := True, journal := journal s
                 @ [log_message ''Response sent to connected session. Session now closed.'' NORMAL]\<rparr>)
      | Some msg \<Rightarrow> (- 1, log_error (''Session write error: '' @ msg) s))"

section \<open>Runs of the parser that end in a line feed\<close>

lemma not_digits: "\<not> is_digit (schar LF)" "\<not> is_digit (schar NUL)"
  by (simp_all add: is_digit_def schar_def)

lemma consume_LF:
  "consume p r LF = (Indeterminate, p', r') \<Longrightarrow>
     (rp_state p = S_expecting_newline_1 \<or> rp_state p = S_expecting_newline_2)
     \<and> rp_state p' = S_header_line_start \<and> temp_key p' = []"
  by (cases "rp_state p") (auto simp: consume_cases clear_temps_def parser_simps not_digits split: if_splits)

lemma consume_CR_newline:
  "rp_state p = S_expecting_newline_1 \<or> rp_state p = S_expecting_newline_2 \<Longrightarrow> consume p r CR = (Bad, p, r)"
  by (auto simp: consume_cases)

lemma consume_NUL: "fst (consume p r NUL) = Bad"
  by (cases "rp_state p") (simp_all add: consume_cases parser_simps not_digits)

lemma parse_chars_NUL: "NUL \<in> set s \<Longrightarrow> fst (parse_chars p r s) \<noteq> Indeterminate"
proof (induction p r s rule: parse_chars.induct)
  case (2 p r c cs)
  then show ?case using consume_NUL [of p r] by (cases "consume p r c") auto
qed simp

lemma parse_chars_snoc:
  assumes "parse_chars p r (s @ [c]) = (Indeterminate, rest, p', r')"
  shows "\<exists>p1 r1. parse_chars p r s = (Indeterminate, [], p1, r1) \<and> consume p1 r1 c = (Indeterminate, p', r')"
proof -
  obtain res rest1 p1 r1 where run: "parse_chars p r s = (res, rest1, p1, r1)"
    by (cases "parse_chars p r s") auto
  have "res = Indeterminate" "rest1 = []"
    using parse_chars_append_stop [OF run, of "[c]"] parse_chars_Indeterminate_rest [of p r s] run assms
    by (cases res; simp)+
  then show ?thesis
    using parse_chars_append [of p r s rest1 p1 r1 "[c]"] run assms
    by (cases "consume p1 r1 c") (auto split: if_splits intro: result_type.exhaust)
qed

lemma parse_blank_line:
  assumes "parse_chars p r (s @ crlf) = (res, rest, p', r')"
  shows "fst (parse_chars p r (s @ crlf @ crlf)) \<noteq> Indeterminate"
proof (cases "res = Indeterminate")
  case True
  with assms obtain p1 r1 where "consume p1 r1 LF = (Indeterminate, p', r')"
    using parse_chars_snoc [of p r "s @ [CR]" LF rest p' r'] by auto
  then have st: "rp_state p' = S_header_line_start" by (simp add: consume_LF)
  have "parse_chars p r (s @ crlf @ crlf) = parse_chars p' r' crlf"
    using parse_chars_append [of p r "s @ crlf"] assms True by simp
  then show ?thesis using st by (simp add: consume_cases clear_temps_def)
next
  case False
  then show ?thesis using parse_chars_append_stop [OF assms, of crlf] by simp
qed

text \<open>A second run over the same bytes stops at the blank after the method, which is no field name.\<close>

lemma run_name_chars:
  assumes "\<forall>c \<in> set m. \<not> bad_name_char c" "rp_state p = S_header_name"
  shows "fst (parse_chars p r (m @ CHR '' '' # t)) = Bad"
  using assms
proof (induction m arbitrary: p)
  case Nil
  then show ?case by (simp add: consume_cases parser_simps)
next
  case (Cons c m)
  then have "c \<noteq> CHR '':''" using special_chars(5) by auto
  with Cons show ?case by (simp add: consume_cases)
qed

lemma reparse_bad:
  assumes "token m" "rp_state p = S_header_line_start"
  shows "fst (parse_chars p r (m @ CHR '' '' # t)) = Bad"
proof -
  obtain c m' where m: "m = c # m'" "\<not> bad_name_char c" "\<forall>c \<in> set m'. \<not> bad_name_char c"
    using assms(1) by (cases m) (auto simp: token_def)
  then have "c \<noteq> CR" "c \<noteq> CHR '' ''" "c \<noteq> TAB" using special_chars(1-3) by auto
  then show ?thesis
    using m assms(2) run_name_chars [OF m(3), of "p\<lparr>temp_key := temp_key p @ [c], rp_state := S_header_name\<rparr>" r t]
    by (simp add: consume_cases)
qed

lemma fresh_run_unfinished:
  assumes "req_headers r = []" "parse_chars new_request_parser r (s @ [LF]) = (Indeterminate, rest, p', r')"
  shows "rp_state p' = S_header_line_start \<and> (\<exists>m t. token m \<and> s @ [LF] = m @ CHR '' '' # t)"
proof -
  from assms(2) obtain p1 r1 where "consume p1 r1 LF = (Indeterminate, p', r')"
    using parse_chars_snoc by blast
  then have st: "rp_state p' = S_header_line_start" by (simp add: consume_LF)
  have "head_read r (s @ [LF]) r'"
    using run_shape [OF assms(1) shape_start assms(2)] st by simp
  then show ?thesis using st by (auto simp: head_read_def request_ok_def request_line_def)
qed

section \<open>The text that is parsed\<close>

lemma pop_after: "LF \<notin> set b \<Longrightarrow> pop_to_newline (s @ LF # b) = s @ [LF]"
proof (induction b rule: rev_induct)
  case Nil
  then show ?case by (simp add: pop_to_newline.simps)
next
  case (snoc x b)
  then show ?case
    by (subst pop_to_newline.simps) (auto simp: butlast_append)
qed

lemma pop_none: "LF \<notin> set b \<Longrightarrow> pop_to_newline (c # b) = [c]"
proof (induction b rule: rev_induct)
  case Nil
  then show ?case by (simp add: pop_to_newline.simps)
next
  case (snoc x b)
  then show ?case
    by (subst pop_to_newline.simps) (auto simp: butlast_append)
qed

lemma last_newline: "LF \<in> set s \<Longrightarrow> \<exists>a b. s = a @ LF # b \<and> LF \<notin> set b"
  by (meson split_list_last)

definition to_dos :: "string \<Rightarrow> string" where
  "to_dos s = concat (map (\<lambda>c. if c = LF then crlf else [c]) s)"

lemma to_dos_append [simp]: "to_dos (s @ t) = to_dos s @ to_dos t"
  and to_dos_LF [simp]: "to_dos (LF # s) = crlf @ to_dos s"
  and to_dos_Cons [simp]: "c \<noteq> LF \<Longrightarrow> to_dos (c # s) = c # to_dos s"
  and to_dos_Nil [simp]: "to_dos [] = []"
  by (simp_all add: to_dos_def)

lemma to_dos_plain [simp]: "LF \<notin> set s \<Longrightarrow> to_dos s = s"
  by (induction s) (auto simp: to_dos_def)

lemma length_to_dos: "length (to_dos s) = length s + count_list s LF"
  by (induction s) (auto simp: to_dos_def)

lemma NUL_to_dos [simp]: "NUL \<in> set (to_dos s) \<longleftrightarrow> NUL \<in> set s"
  by (auto simp: to_dos_def)

lemma format_data_dos: "boost_replace f \<Longrightarrow> format_data f s = to_dos (pop_to_newline s) @ crlf"
  by (simp add: format_data_def boost_replace.replace_char to_dos_def)

lemma format_data_cases:
  assumes "boost_replace f" "s \<noteq> []"
  obtains (lines) d where "format_data f s = d @ crlf @ crlf"
  | (one) c where "format_data f s = c # crlf"
proof (cases "LF \<in> set s")
  case True
  then obtain a b where "s = a @ LF # b" "LF \<notin> set b" using last_newline by blast
  then have "format_data f s = to_dos a @ crlf @ crlf"
    by (simp add: format_data_dos [OF assms(1)] pop_after)
  then show thesis by (rule lines)
next
  case False
  with assms(2) obtain c b where "s = c # b" "LF \<notin> set (c # b)" by (cases s) auto
  then have "format_data f s = c # crlf"
    using format_data_dos [OF assms(1), of s] pop_none [of b c] by (auto simp: to_dos_def)
  then show thesis by (rule one)
qed

text \<open>Formatted input is never unfinished: it ends in a blank line or stops in its first line.\<close>

lemma formatted_finishes:
  assumes "boost_replace f" "s \<noteq> []"
  shows "fst (parse_chars new_request_parser r (format_data f s)) \<noteq> Indeterminate"
  using assms
proof (cases rule: format_data_cases)
  case (lines d)
  obtain res rest p' r' where "parse_chars new_request_parser r (d @ crlf) = (res, rest, p', r')"
    by (cases "parse_chars new_request_parser r (d @ crlf)") auto
  then show ?thesis unfolding lines by (rule parse_blank_line)
next
  case (one c)
  then show ?thesis by (simp add: new_request_parser_def consume_cases parser_simps)
qed

lemma c_prefix: "NUL \<notin> set s \<Longrightarrow> takeWhile (\<lambda>c. c \<noteq> NUL) s = s"
  and c_prefix_shorter: "NUL \<in> set s \<Longrightarrow> length (takeWhile (\<lambda>c. c \<noteq> NUL) s) < length s"
  by (induction s) auto

lemma c_prefix_mid: "NUL \<notin> set s \<Longrightarrow> takeWhile (\<lambda>c. c \<noteq> NUL) (s @ NUL # t) = s"
  by (induction s) auto

text \<open>What \<open>parse\<close> sees after \<open>strcpy\<close>: the formatted text, or a text with a NUL in it.\<close>

lemma copied_text:
  assumes "copy_c_string str buf = Inr mem" "length str \<le> length mem"
  shows "take (length str) mem = str \<and> NUL \<notin> set str \<or> NUL \<in> set (take (length str) mem)"
proof (cases "NUL \<in> set str")
  case True
  let ?c = "takeWhile (\<lambda>c. c \<noteq> NUL) str"
  have "length ?c < length str"
    using True by (rule c_prefix_shorter)
  moreover have "mem = ?c @ NUL # drop (length ?c + 1) buf"
    using assms(1) by (auto simp: copy_c_string_def write_at_def Let_def split: if_splits)
  ultimately have "take (length str) mem ! length ?c = NUL" "length ?c < length (take (length str) mem)"
    using assms(2) by (auto simp: nth_append)
  then show ?thesis by (metis nth_mem)
next
  case False
  have "mem = takeWhile (\<lambda>c. c \<noteq> NUL) str @ NUL # drop (length (takeWhile (\<lambda>c. c \<noteq> NUL) str) + 1) buf"
    using assms(1) by (auto simp: copy_c_string_def write_at_def Let_def split: if_splits)
  then have "take (length str) mem = str" by (simp only: c_prefix [OF False]) simp
  with False show ?thesis by blast
qed

section \<open>A fresh session\<close>

definition fresh :: "session \<Rightarrow> bool" where
  "fresh s \<longleftrightarrow> parser_obj s = new_request_parser \<and> req_headers (req_obj s) = [] \<and> req_uri (req_obj s) = []
     \<and> length (data_buf s) = max_length"

lemma parse_method_frame [simp]:
  "req_headers (parse_method r mem) = req_headers r" "req_uri (parse_method r mem) = req_uri r"
  "req_body (parse_method r mem) = req_body r"
  by (simp_all add: parse_method_def split: option.splits)

lemma parse_buffer_Inr:
  "parse_buffer s n = Inr (res, s') \<longleftrightarrow>
     (\<exists>b rest p r. c_string (data_buf s) = Some b \<and> 3 \<le> length (data_buf s) \<and> n \<le> length (data_buf s)
        \<and> parse_chars (parser_obj s) (parse_method ((req_obj s)\<lparr>req_body := b\<rparr>) (data_buf s)) (take n (data_buf s))
            = (res, rest, p, r)
        \<and> s' = s\<lparr>parser_obj := p, req_obj := r\<rparr>)"
  unfolding parse_buffer_def parse_def
  by (auto simp: fault_simps not_less simp del: c_string_None split: option.splits if_splits)

lemma read_short:
  assumes "length (data_buf s) = max_length" "n < 2"
  shows "read_request f s n = Inl OutOfRange"
proof -
  have "n = 0 \<or> n = 1" using assms(2) by auto
  then show ?thesis
    using assms(1) by (auto simp: read_request_def substr_def size_sub_def max_length_def Let_def)
qed

lemma read_long:
  assumes "length (data_buf s) = max_length" "2 \<le> n" "n \<le> max_length"
  shows "read_request f s n =
    (if drop (n - 2) (take n (data_buf s)) = crlf then parse_buffer s n
     else rbind (copy_c_string (format_data f (take n (data_buf s))) (data_buf s)) (\<lambda>mem.
            parse_buffer (s\<lparr>data_buf := mem\<rparr>) (length (format_data f (take n (data_buf s))))))"
proof -
  let ?d = "take n (data_buf s)"
  have len: "length ?d = n" "n < 2 ^ 64" using assms by (simp_all add: max_length_def)
  have "substr ?d (size_sub (length ?d) 2) npos = Inr (drop (n - 2) ?d)"
    using assms by (simp only: len size_sub_ge) (simp add: substr_def npos_def max_length_def)
  then show ?thesis using assms by (simp add: read_request_def Let_def)
qed

lemma last_two: "2 \<le> length d \<Longrightarrow> drop (length d - 2) d = [a, b] \<Longrightarrow> d = (take (length d - 2) d @ [a]) @ [b]"
  by (metis append.assoc append_Cons append_Nil append_take_drop_id)

lemma ends_crlf_last: "2 \<le> length d \<Longrightarrow> drop (length d - 2) d = crlf \<Longrightarrow> last d = LF"
  by (metis last_two last_snoc)

lemma read_unfinished:
  assumes "boost_replace f" "fresh s" "n \<le> max_length" "read_request f s n = Inr (Indeterminate, s1)"
  shows "2 \<le> n \<and> drop (n - 2) (take n (data_buf s)) = crlf \<and> parse_buffer s n = Inr (Indeterminate, s1)"
proof -
  have len: "length (data_buf s) = max_length" and prs: "parser_obj s = new_request_parser"
    using assms(2) by (simp_all add: fresh_def)
  have n: "2 \<le> n" using read_short [OF len] assms(4) by (cases "n < 2") auto
  have ne: "take n (data_buf s) \<noteq> []" using n len by (auto simp: max_length_def)
  have tail: "drop (n - 2) (take n (data_buf s)) = crlf"
  proof (rule ccontr)
    let ?str = "format_data f (take n (data_buf s))"
    assume "drop (n - 2) (take n (data_buf s)) \<noteq> crlf"
    with assms(4) read_long [OF len n assms(3), of f] obtain mem where
      mem: "copy_c_string ?str (data_buf s) = Inr mem"
        "parse_buffer (s\<lparr>data_buf := mem\<rparr>) (length ?str) = Inr (Indeterminate, s1)"
      by (auto simp: fault_simps)
    then obtain r rest q r' where run: "parse_chars new_request_parser r (take (length ?str) mem) = (Indeterminate, rest, q, r')"
        "length ?str \<le> length mem"
      by (auto simp: parse_buffer_Inr prs)
    from copied_text [OF mem(1) run(2)] show False
    proof
      assume "take (length ?str) mem = ?str \<and> NUL \<notin> set ?str"
      then show False using run formatted_finishes [OF assms(1) ne, of r] by simp
    next
      assume "NUL \<in> set (take (length ?str) mem)"
      from parse_chars_NUL [OF this, of new_request_parser r] run show False by simp
    qed
  qed
  then show ?thesis using read_long [OF len n assms(3), of f] assms(4) n by simp
qed

text \<open>After an unfinished first pass the second one is bad, so \<open>handle_read\<close> calls itself at most once.\<close>

lemma second_pass:
  assumes "boost_replace f" "fresh s" "n \<le> max_length" "read_request f s n = Inr (Indeterminate, s1)"
  shows "\<exists>p r. read_request f s1 n = Inr (Bad, s1\<lparr>parser_obj := p, req_obj := r\<rparr>)"
proof -
  let ?d = "take n (data_buf s)"
  have len: "length (data_buf s) = max_length" and hd: "req_headers (req_obj s) = []"
    and prs: "parser_obj s = new_request_parser"
    using assms(2) by (simp_all add: fresh_def)
  note u = read_unfinished [OF assms]
  then obtain b rest p r where b: "c_string (data_buf s) = Some b"
    and run: "parse_chars new_request_parser (parse_method ((req_obj s)\<lparr>req_body := b\<rparr>) (data_buf s)) ?d
        = (Indeterminate, rest, p, r)"
    and s1: "s1 = s\<lparr>parser_obj := p, req_obj := r\<rparr>"
    by (auto simp: parse_buffer_Inr prs)
  have n: "length ?d = n" using len assms(3) by simp
  have d: "?d = (take (n - 2) ?d @ [CR]) @ [LF]"
    using last_two [of ?d CR LF] u n len by (simp add: max_length_def)
  have "rp_state p = S_header_line_start \<and> (\<exists>m t. token m \<and> ?d = m @ CHR '' '' # t)"
    using fresh_run_unfinished [of "parse_method ((req_obj s)\<lparr>req_body := b\<rparr>) (data_buf s)" "take (n - 2) ?d @ [CR]" rest p r]
      run hd d by auto
  then obtain m t where m: "rp_state p = S_header_line_start" "token m" "?d = m @ CHR '' '' # t" by blast
  let ?r = "parse_method (r\<lparr>req_body := b\<rparr>) (data_buf s)"
  obtain rest' p' r' where "parse_chars p ?r ?d = (Bad, rest', p', r')"
    using reparse_bad [OF m(2,1), of ?r t] m(3) by (cases "parse_chars p ?r ?d") auto
  then have "parse_buffer s1 n = Inr (Bad, s1\<lparr>parser_obj := p', req_obj := r'\<rparr>)"
    using b len assms(3) by (auto simp: parse_buffer_Inr s1 max_length_def)
  moreover have "read_request f s1 n = parse_buffer s1 n"
    using read_long [of s1 n f] u len assms(3) s1 by simp
  ultimately show ?thesis by auto
qed

section \<open>Answers\<close>

lemma route_whole: "path \<noteq> [] \<Longrightarrow> table path = Some v \<Longrightarrow> route table path (length path) = Some v"
  by (cases "length path") auto

lemma dispatch_whole:
  assumes "smap_find hs path = Some h" "path \<noteq> []" "last path \<noteq> CHR ''/''" "req_uri r = path"
  shows "dispatch hs r = h"
proof -
  have "strip_slashes path = path" using assms(3) by (simp add: strip_slashes.simps)
  then show ?thesis
    using route_whole [of path "smap_find hs" h] assms by (simp add: dispatch_def match_loop_route)
qed

lemma match_loop_in: "match_loop path hs h n = Some v \<Longrightarrow> h = Some v \<or> Some v \<in> snd ` set hs"
  by (induction path hs h n rule: match_loop.induct) (auto split: if_splits)

lemma dispatch_in: "dispatch hs r = Some v \<Longrightarrow> Some v \<in> snd ` set hs"
  using match_loop_in [of _ hs None 0 v] by (auto simp: dispatch_def)

definition bad_registered :: "handlers \<Rightarrow> bool" where
  "bad_registered hs \<longleftrightarrow> smap_find hs ''/badrequest'' = Some (Some BadRequestHandler)"

lemma answer_bad_registered:
  assumes "bad_registered hs"
  shows "\<exists>s' r. answer_bad svc hs s p = Some (Inr (1, s', p)) \<and> sent s' = sent s @ [wire (bad_request_handle r)]
    \<and> data_buf s' = data_buf s"
proof -
  let ?s = "s\<lparr>req_obj := (req_obj s)\<lparr>req_uri := ''/badrequest''\<rparr>\<rparr>"
  have "dispatch hs (req_obj ?s) = Some BadRequestHandler"
    using assms by (intro dispatch_whole [of _ "''/badrequest''"]) (simp_all add: bad_registered_def)
  then show ?thesis
    by (simp add: answer_bad_def make_reply_def send_reply_def Let_def) blast
qed

lemma make_reply_returns:
  assumes "\<And>h r q. Some h \<in> snd ` set hs \<Longrightarrow> handle_request (lib svc) (env svc) (net svc) (db_uri svc) h r q \<noteq> None"
  shows "make_reply svc hs c s p \<noteq> None"
proof (cases "dispatch hs (req_obj s)")
  case None
  then show ?thesis by (simp add: make_reply_def Let_def)
next
  case (Some h)
  from assms [OF dispatch_in [OF this], of "req_obj s" p] show ?thesis
    by (auto simp: make_reply_def Let_def Some split: sum.splits)
qed

lemma parse_buffer_journal:
  "parse_buffer (s\<lparr>journal := j\<rparr>) n = rbind (parse_buffer s n) (\<lambda>(res, s'). Inr (res, s'\<lparr>journal := j\<rparr>))"
  by (cases "parse (parser_obj s) (req_obj s) (data_buf s) n") (auto simp: parse_buffer_def)

lemma read_request_journal:
  "read_request f (s\<lparr>journal := j\<rparr>) n = rbind (read_request f s n) (\<lambda>(res, s'). Inr (res, s'\<lparr>journal := j\<rparr>))"
proof -
  have swap: "s\<lparr>journal := j, data_buf := mem\<rparr> = s\<lparr>data_buf := mem\<rparr>\<lparr>journal := j\<rparr>" for mem
    by simp
  have "parse_buffer (s\<lparr>journal := j, data_buf := mem\<rparr>) k =
      rbind (parse_buffer (s\<lparr>data_buf := mem\<rparr>) k) (\<lambda>(res, s'). Inr (res, s'\<lparr>journal := j\<rparr>))" for mem k
    unfolding swap by (rule parse_buffer_journal)
  then show ?thesis
    by (cases "substr (take n (data_buf s)) (size_sub n 2) npos";
        cases "copy_c_string (format_data f (take n (data_buf s))) (data_buf s)")
      (auto simp: read_request_def Let_def parse_buffer_journal)
qed

lemma handle_read_unfinished:
  assumes "boost_replace (replace_all (env svc))" "fresh s" "n \<le> max_length"
    and "read_request (replace_all (env svc)) s n = Inr (Indeterminate, s1)"
  shows "\<exists>t. handle_read svc hs None n s p =
    map_option (\<lambda>res. rbind res (\<lambda>(status, s, p). Inr (- 1, s, p)))
      (answer_bad svc hs t (count_request (count_request p))) \<and> sent t = sent s1"
proof -
  obtain q r where "read_request (replace_all (env svc)) s1 n = Inr (Bad, s1\<lparr>parser_obj := q, req_obj := r\<rparr>)"
    using second_pass [OF assms] by blast
  then obtain t where "read_request (replace_all (env svc)) (log_read Indeterminate s1) n = Inr (Bad, t)" "sent t = sent s1"
    by (auto simp: log_read_def read_request_journal)
  then have "handle_read svc hs None n (log_read Indeterminate s1) (count_request p) =
      answer_bad svc hs (log_read Bad t) (count_request (count_request p))"
    by (subst handle_read.simps) (simp add: Let_def)
  then have "handle_read svc hs None n s p =
      Option.bind (answer_bad svc hs (log_read Bad t) (count_request (count_request p)))
        (\<lambda>res. Some (rbind res (\<lambda>(status, s, p). Inr (- 1, s, p))))"
    using assms(4) by (subst handle_read.simps) (simp add: Let_def)
  then show ?thesis using \<open>sent t = sent s1\<close>
    by (intro exI [of _ "log_read Bad t"]) (simp add: map_conv_bind_option comp_def)
qed

text \<open>The request that a well-formed text in the buffer leaves in the session.\<close>

definition received_request :: "session \<Rightarrow> string \<Rightarrow> string \<Rightarrow> string \<Rightarrow> hline list \<Rightarrow> request" where
  "received_request s u ma mi ls = parsed_request u ma mi ls
     (parse_method ((req_obj s)\<lparr>req_body := takeWhile (\<lambda>c. c \<noteq> NUL) (data_buf s)\<rparr>) (data_buf s))"

lemma parse_buffer_good:
  assumes "parser_obj s = new_request_parser" "req_headers (req_obj s) = []" "NUL \<in> set (data_buf s)"
    and "3 \<le> length (data_buf s)" "n \<le> length (data_buf s)"
    and "request_ok m u ma mi ls" "take n (data_buf s) = request_text m u ma mi ls @ body"
  shows "parse_buffer s n = Inr (Good, s\<lparr>parser_obj := parser_at S_expecting_newline_3,
    req_obj := received_request s u ma mi ls\<rparr>)"
  unfolding parse_buffer_Inr
  using assms parse_request_text [OF assms(6), of _ body]
  by (simp add: received_request_def c_string_takeWhile)

lemma read_good:
  assumes "fresh s" "NUL \<in> set (data_buf s)" "n \<le> max_length" "request_ok m u ma mi ls"
    and "take n (data_buf s) = request_text m u ma mi ls @ body" "body = [] \<or> (\<exists>b. body = b @ crlf)"
  shows "read_request f s n = Inr (Good, s\<lparr>parser_obj := parser_at S_expecting_newline_3,
    req_obj := received_request s u ma mi ls\<rparr>)"
proof -
  have len: "length (data_buf s) = max_length" using assms(1) by (simp add: fresh_def)
  obtain b where b: "take n (data_buf s) = b @ crlf"
    using assms(5,6) by (auto simp: request_text_def)
  have "length (take n (data_buf s)) = n" using len assms(3) by simp
  then have n: "n = length b + 2" by (simp only: b) simp
  then have "drop (n - 2) (take n (data_buf s)) = crlf" using b by simp
  then have "read_request f s n = parse_buffer s n"
    using read_long [OF len _ assms(3), of f] n by simp
  also have "\<dots> = Inr (Good, s\<lparr>parser_obj := parser_at S_expecting_newline_3,
    req_obj := received_request s u ma mi ls\<rparr>)"
    using assms(1-5) len by (intro parse_buffer_good) (auto simp: fresh_def max_length_def)
  finally show ?thesis .
qed

section \<open>Line ends\<close>

text \<open>The parts of a request hold no carriage return, line feed or NUL of their own.\<close>

definition unbroken :: "string \<Rightarrow> bool" where
  "unbroken s \<longleftrightarrow> CR \<notin> set s \<and> LF \<notin> set s \<and> NUL \<notin> set s"

lemma unbroken_parts:
  "token s \<Longrightarrow> unbroken s" "uri_text s \<Longrightarrow> unbroken s" "field_text s \<Longrightarrow> unbroken s" "digits s \<Longrightarrow> unbroken s"
  using special_chars not_digits
  by (auto simp: unbroken_def token_def uri_text_def field_text_def digits_def is_digit_iff)

lemma unbroken_append [simp]: "unbroken (s @ t) \<longleftrightarrow> unbroken s \<and> unbroken t"
  and unbroken_Cons [simp]: "unbroken (c # s) \<longleftrightarrow> c \<noteq> CR \<and> c \<noteq> LF \<and> c \<noteq> NUL \<and> unbroken s"
  and unbroken_Nil [simp]: "unbroken []"
  by (auto simp: unbroken_def)

definition hline_content :: "hline \<Rightarrow> string" where
  "hline_content l = (case l of Field k v \<Rightarrow> k @ '': '' @ v | Folded ws v \<Rightarrow> ws @ v)"

lemma hline_text_content: "hline_text l = hline_content l @ crlf"
  by (cases l) (simp_all add: hline_content_def)

lemma unbroken_blanks: "set ws \<subseteq> {CHR '' '', TAB} \<Longrightarrow> unbroken ws"
  by (auto simp: unbroken_def)

lemma unbroken_hline: "hline_ok l \<Longrightarrow> unbroken (hline_content l)"
  by (cases l) (auto simp: hline_content_def intro: unbroken_parts unbroken_blanks)

lemma hlines_ok_each: "hlines_ok m ls \<Longrightarrow> l \<in> set ls \<Longrightarrow> hline_ok l"
  by (induction m ls rule: hlines_ok.induct) auto

definition line_content :: "string \<Rightarrow> string \<Rightarrow> string \<Rightarrow> string \<Rightarrow> string" where
  "line_content m u ma mi = m @ '' '' @ u @ '' HTTP/'' @ ma @ ''.'' @ mi"

lemma request_line_content: "request_line m u ma mi = line_content m u ma mi @ crlf"
  by (simp add: request_line_def line_content_def)

text \<open>The lines of a request, so that its text is these lines, each with its line end, and a blank one.\<close>

definition request_lines :: "string \<Rightarrow> string \<Rightarrow> string \<Rightarrow> string \<Rightarrow> hline list \<Rightarrow> string list" where
  "request_lines m u ma mi ls = line_content m u ma mi # map hline_content ls"

lemma hlines_text_end: "hlines_text ls = end_lines (map hline_content ls)"
  by (induction ls) (simp_all add: hlines_text_def end_lines_def hline_text_content)

lemma request_text_lines: "request_text m u ma mi ls = end_lines (request_lines m u ma mi ls) @ crlf"
  by (simp add: request_text_def request_lines_def end_lines_def request_line_content
      hlines_text_end [unfolded end_lines_def])

lemma request_lines_unbroken:
  assumes "request_ok m u ma mi ls"
  shows "\<forall>l \<in> set (request_lines m u ma mi ls). unbroken l"
  using assms hlines_ok_each [of "[]" ls]
  by (auto simp: request_ok_def request_lines_def line_content_def unbroken_parts unbroken_hline)

text \<open>The same lines ended by line feeds alone.\<close>

definition unix_lines :: "string list \<Rightarrow> string" where
  "unix_lines ls = concat (map (\<lambda>l. l @ [LF]) ls)"

lemma to_dos_unix_lines: "\<forall>l \<in> set ls. unbroken l \<Longrightarrow> to_dos (unix_lines ls) = end_lines ls"
  by (induction ls) (auto simp: unix_lines_def end_lines_def unbroken_def)

lemma unix_lines_snoc: "ls \<noteq> [] \<Longrightarrow> unix_lines ls = unix_lines (butlast ls) @ last ls @ [LF]"
  by (induction ls rule: rev_induct) (simp_all add: unix_lines_def)

lemma NUL_unix_lines: "\<forall>l \<in> set ls. unbroken l \<Longrightarrow> NUL \<notin> set (unix_lines ls)"
  and NUL_end_lines: "\<forall>l \<in> set ls. unbroken l \<Longrightarrow> NUL \<notin> set (end_lines ls)"
  by (auto simp: unix_lines_def end_lines_def unbroken_def)

lemma count_end_lines: "\<forall>l \<in> set ls. unbroken l \<Longrightarrow> count_list (end_lines ls) LF = length ls"
  by (induction ls) (auto simp: end_lines_def unbroken_def count_notin)

text \<open>Reading text that is formatted first and fits the buffer.\<close>

lemma read_formatted:
  assumes "boost_replace f" "length (data_buf s) = max_length" "2 \<le> n" "n \<le> max_length"
    and "drop (n - 2) (take n (data_buf s)) \<noteq> crlf" "str = format_data f (take n (data_buf s))"
    and "NUL \<notin> set str" "length str < max_length"
  shows "read_request f s n =
    parse_buffer (s\<lparr>data_buf := str @ NUL # drop (length str + 1) (data_buf s)\<rparr>) (length str)"
proof -
  have "copy_c_string str (data_buf s) = Inr (str @ NUL # drop (length str + 1) (data_buf s))"
    unfolding copy_c_string_def c_prefix [OF assms(7)] Let_def write_at_def using assms(2,8) by simp
  then show ?thesis using read_long [OF assms(2-4), of f] assms(5) by (simp add: assms(6) [symmetric])
qed

lemma doubled_CR:
  assumes "token m" "uri_text u" "digits ma" "digits mi"
  shows "fst (parse_chars new_request_parser r (line_content m u ma mi @ CR # CR # t)) = Bad"
proof -
  let ?l = "line_content m u ma mi"
  have "\<exists>p' r'. parse_chars new_request_parser r ((?l @ [CR]) @ [LF]) = (Indeterminate, [], p', r')"
    using run_request_line [OF assms, of r "[]"] by (simp add: request_line_content)
  then obtain p' r' p1 r1 where run: "parse_chars new_request_parser r (?l @ [CR]) = (Indeterminate, [], p1, r1)"
      "consume p1 r1 LF = (Indeterminate, p', r')"
    using parse_chars_snoc by blast
  have "parse_chars new_request_parser r (?l @ CR # CR # t) = parse_chars p1 r1 (CR # t)"
    using parse_chars_append [OF run(1), of "CR # t"] by simp
  moreover have "consume p1 r1 CR = (Bad, p1, r1)"
    using consume_LF [OF run(2)] by (intro consume_CR_newline) blast
  ultimately show ?thesis by simp
qed

section \<open>A request that is answered\<close>

lemma first_line_request:
  assumes "request_ok m u ma mi ls" "take n (data_buf s) = request_text m u ma mi ls @ body"
  shows "first_line s = m @ '' '' @ u @ '' HTTP/'' @ ma @ ''.'' @ mi"
proof -
  let ?l = "line_content m u ma mi"
  have l: "NUL \<notin> set ?l" "CR \<notin> set ?l"
    using request_lines_unbroken [OF assms(1)] by (auto simp: request_lines_def unbroken_def)
  have "data_buf s = request_text m u ma mi ls @ body @ drop n (data_buf s)"
    using assms(2) append_take_drop_id [of n "data_buf s"] by simp
  then obtain t where "data_buf s = ?l @ CR # t"
    by (simp add: request_text_def request_line_content)
  then have "first_line s = ?l"
    using l c_prefix [of ?l] by (auto simp: first_line_def takeWhile_append)
  then show ?thesis by (simp add: line_content_def)
qed

lemma good_answered:
  assumes "fresh s" "NUL \<in> set (data_buf s)" "n \<le> max_length" "request_ok m u ma mi ls"
    and "take n (data_buf s) = request_text m u ma mi ls @ body" "body = [] \<or> (\<exists>b. body = b @ crlf)"
    and "dispatch hs (received_request s u ma mi ls) = Some h"
    and "handle_request (lib svc) (env svc) (net svc) (db_uri svc) h (received_request s u ma mi ls)
           (count_request p) = Some (Inr r, q)"
  shows "\<exists>s'. handle_read svc hs None n s p = Some (Inr (0, s', record_code u r q))
    \<and> sent s' = sent s @ [wire r] \<and> rep s' = Some r
    \<and> journal s' = journal s @ read_records Good (s\<lparr>req_obj := received_request s u ma mi ls\<rparr>)
        @ logged (log_metrics (received_request s u ma mi ls) r (remote s) (handler_name h))"
proof -
  have "req_uri (received_request s u ma mi ls) = u"
    using assms(1) by (simp add: received_request_def parsed_request_def fresh_def)
  with read_good [OF assms(1-6)] assms(7,8) show ?thesis
    by (subst handle_read.simps)
      (simp add: Let_def answer_good_def make_reply_def send_reply_def log_read_def read_records_def first_line_def)
qed

section \<open>Properties\<close>

text \<open>Sample objects to apply the properties to.\<close>

definition sample_services :: "(string, string) services" where
  "sample_services = \<lparr>lib = stored, env = sample_env, net = sample_network id, db_uri = []\<rparr>"

definition sample_table :: handlers where
  "sample_table = [(''/badrequest'', Some BadRequestHandler), (''/health'', Some HealthHandler)]"

definition sample_process :: "string process" where
  "sample_process = \<lparr>world = [], client_pool = None, stats = new_statistics\<rparr>"

definition sample_session :: "string \<Rightarrow> session" where
  "sample_session bytes = new_session (bytes @ replicate (max_length - length bytes) NUL) (new_request None 0 0) None"

lemma sample_fresh: "length bytes \<le> max_length \<Longrightarrow> fresh (sample_session bytes)"
  by (simp add: sample_session_def new_session_def fresh_def new_request_def)

lemma sample_text:
  "length bytes < max_length \<Longrightarrow> take (length bytes) (data_buf (sample_session bytes)) = bytes"
  "length bytes < max_length \<Longrightarrow> NUL \<in> set (data_buf (sample_session bytes))"
  by (auto simp: sample_session_def new_session_def)

lemma sample_replace: "boost_replace (replace_all sample_env)" "boost_replace (replace_all (env sample_services))"
  by (simp_all add: sample_services_def sample_env_def ref_replace.boost_replace_axioms)

text \<open>
  C32. One byte ends the server: when the first read of a session delivers fewer than two bytes, the
  test for a line end asks \<open>substr\<close> for a position near \<open>2^64\<close>, and its exception leaves \<open>handle_read\<close>.
\<close>

theorem short_read_throws:
  assumes "length (data_buf s) = max_length" "n < 2"
  shows "handle_read svc hs None n s p = Some (Inl OutOfRange)"
  by (subst handle_read.simps) (simp add: Let_def read_short [OF assms])

theorem short_read_throws_witness:
  "handle_read sample_services sample_table None 1 (sample_session ''G'') sample_process = Some (Inl OutOfRange)"
  by (rule short_read_throws) (simp_all add: sample_session_def new_session_def max_length_def)

lemma read_always_returns_on:
  assumes "boost_replace (replace_all (env svc))" "fresh s" "n \<le> max_length"
    and "\<And>h r q. Some h \<in> snd ` set hs \<Longrightarrow> handle_request (lib svc) (env svc) (net svc) (db_uri svc) h r q \<noteq> None"
  shows "handle_read svc hs error n s p \<noteq> None"
proof -
  have answers: "answer_good svc hs t q \<noteq> None" "answer_bad svc hs t q \<noteq> None" for t q
    using make_reply_returns [of hs svc, OF assms(4)] by (simp_all add: answer_good_def answer_bad_def)
  show ?thesis
  proof (cases error)
    case None
    show ?thesis
    proof (cases "read_request (replace_all (env svc)) s n")
      case (Inr res)
      obtain t q where res: "res = (t, q)" by (cases res)
      show ?thesis
      proof (cases t)
        case Indeterminate
        with handle_read_unfinished [OF assms(1-3), of q hs p] Inr res answers None show ?thesis by auto
      qed (subst handle_read.simps, simp add: Let_def None Inr res answers)+
    qed (subst handle_read.simps, simp add: Let_def None)
  qed (subst handle_read.simps, simp add: Let_def)
qed

text \<open>
  C10. Reading ends: although \<open>handle_read\<close> calls itself for as long as the request is unfinished, on a
  session whose parser is new it returns for every input and every error, as soon as no handler in
  the table hangs: the second pass over the same bytes always finds them bad.
\<close>

theorem read_always_returns:
  assumes "boost_replace (replace_all (env svc))" "fresh s" "n \<le> max_length"
    and "\<And>h r q. Some h \<in> snd ` set hs \<Longrightarrow> handle_request (lib svc) (env svc) (net svc) (db_uri svc) h r q \<noteq> None"
  shows "handle_read svc hs error n s p \<noteq> None"
  using assms by (rule read_always_returns_on)

theorem read_always_returns_witness:
  "handle_read sample_services sample_table None 16 (sample_session (''GET / HTTP/1.1'' @ crlf)) sample_process \<noteq> None"
  by (rule read_always_returns)
     (auto simp: sample_replace sample_fresh max_length_def sample_table_def sample_services_def)

text \<open>
  C1. A request is answered: well-formed text in the buffer, alone or with a body that ends in a line
  end, is parsed, dispatched on its target and handled; \<open>handle_read\<close> returns 0, hands exactly the
  serialised reply to the socket, and records the reply's code under the target.
\<close>

theorem request_answered:
  assumes "fresh s" "NUL \<in> set (data_buf s)" "n \<le> max_length" "request_ok m u ma mi ls"
    and "take n (data_buf s) = request_text m u ma mi ls @ body" "body = [] \<or> (\<exists>b. body = b @ crlf)"
    and "dispatch hs (received_request s u ma mi ls) = Some h"
    and "handle_request (lib svc) (env svc) (net svc) (db_uri svc) h (received_request s u ma mi ls)
           (count_request p) = Some (Inr r, q)"
  shows "\<exists>s'. handle_read svc hs None n s p = Some (Inr (0, s', record_code u r q))
    \<and> sent s' = sent s @ [concat (to_buffers r)] \<and> rep s' = Some r"
  using good_answered [OF assms] by (auto simp: wire_def)

lemma sample_request_ok: "request_ok ''GET'' ''/health'' ''1'' ''1'' [Field ''Host'' ''a'']"
  by (simp add: request_ok_def token_def bad_name_char_def is_char_def is_ctl_def is_tspecial_def
       schar_def uri_text_def digits_def isdigit_def field_text_def)

lemma sample_dispatch:
  "req_uri r = ''/health'' \<Longrightarrow> dispatch sample_table r = Some HealthHandler"
  "req_uri r = ''/other'' \<Longrightarrow> dispatch sample_table r = None"
  by (simp_all add: dispatch_def sample_table_def strip_slashes.simps)

theorem request_answered_witness:
  "\<exists>s' q. handle_read sample_services sample_table None
        (length (request_text ''GET'' ''/health'' ''1'' ''1'' [Field ''Host'' ''a'']))
        (sample_session (request_text ''GET'' ''/health'' ''1'' ''1'' [Field ''Host'' ''a''])) sample_process
      = Some (Inr (0, s', q)) \<and> codes_of (stats q) ''/health'' = [200]"
proof -
  let ?t = "request_text ''GET'' ''/health'' ''1'' ''1'' [Field ''Host'' ''a'']"
  let ?r = "received_request (sample_session ?t) ''/health'' ''1'' ''1'' [Field ''Host'' ''a'']"
  have len: "length ?t < max_length"
    by (simp add: request_text_def request_line_def hlines_text_def max_length_def)
  have uri: "req_uri ?r = ''/health''"
    by (simp add: received_request_def parsed_request_def sample_session_def new_session_def new_request_def)
  have "\<exists>s'. handle_read sample_services sample_table None (length ?t) (sample_session ?t) sample_process
      = Some (Inr (0, s', record_code ''/health'' (health_handle ?r) (count_request sample_process)))
    \<and> sent s' = sent (sample_session ?t) @ [concat (to_buffers (health_handle ?r))] \<and> rep s' = Some (health_handle ?r)"
    by (rule request_answered [OF _ _ _ sample_request_ok, where body = "[]" and h = HealthHandler])
       (use len uri in \<open>simp_all add: sample_fresh sample_text sample_dispatch\<close>)
  then show ?thesis
    by (auto simp: record_code_def count_request_def sample_process_def new_statistics_def codes_of_def [of "\<lparr>request_handler_uri = x, request_code_received = [], num_handlers = y, num_requests = z\<rparr>" for x y z] health_handle_def Let_def)
qed

text \<open>
  C20. What an answered request leaves in the log: four records in this order, the version and the
  peer's address, the request line as it was sent, that the request is fine, and the metrics line with
  the reply's code, the target, the address and the name of the handler that was chosen.
\<close>

theorem request_logged:
  assumes "fresh s" "NUL \<in> set (data_buf s)" "n \<le> max_length" "request_ok m u ma mi ls"
    and "take n (data_buf s) = request_text m u ma mi ls @ body" "body = [] \<or> (\<exists>b. body = b @ crlf)"
    and "dispatch hs (received_request s u ma mi ls) = Some h"
    and "handle_request (lib svc) (env svc) (net svc) (db_uri svc) h (received_request s u ma mi ls)
           (count_request p) = Some (Inr r, q)"
    and "remote s = Some ip"
  shows "\<exists>s'. handle_read svc hs None n s p = Some (Inr (0, s', record_code u r q))
    \<and> journal s' = journal s @
        [(NOTIFICATION, ''<Notification>: Request received. Sender IP: '' @ ip @ '' via HTTP: ''
            @ int_to_string (sint (version_number ma)) @ ''.'' @ int_to_string (sint (version_number mi))),
         (NORMAL, ''<Normal>: First line of request: '' @ m @ '' '' @ u @ '' HTTP/'' @ ma @ ''.'' @ mi),
         (NORMAL, ''<Normal>: OK request received.''),
         (NOTIFICATION, ''<Notification>: {ResponseMetrics} response_code:'' @ to_string (status_value (rep_code r))
            @ '', request_path:'' @ u @ '', request_ip:'' @ ip @ '', handler_name:'' @ handler_name h)]"
proof -
  let ?req = "received_request s u ma mi ls"
  have req: "req_uri ?req = u" "version_major ?req = version_number ma" "version_minor ?req = version_number mi"
    using assms(1) by (simp_all add: received_request_def parsed_request_def fresh_def)
  have "first_line (s\<lparr>req_obj := ?req\<rparr>) = m @ '' '' @ u @ '' HTTP/'' @ ma @ ''.'' @ mi"
    using first_line_request [OF assms(4,5)] by (simp add: first_line_def)
  then have "read_records Good (s\<lparr>req_obj := ?req\<rparr>) @ logged (log_metrics ?req r (remote s) (handler_name h)) =
        [(NOTIFICATION, ''<Notification>: Request received. Sender IP: '' @ ip @ '' via HTTP: ''
            @ int_to_string (sint (version_number ma)) @ ''.'' @ int_to_string (sint (version_number mi))),
         (NORMAL, ''<Normal>: First line of request: '' @ m @ '' '' @ u @ '' HTTP/'' @ ma @ ''.'' @ mi),
         (NORMAL, ''<Normal>: OK request received.''),
         (NOTIFICATION, ''<Notification>: {ResponseMetrics} response_code:'' @ to_string (status_value (rep_code r))
            @ '', request_path:'' @ u @ '', request_ip:'' @ ip @ '', handler_name:'' @ handler_name h)]"
    using req assms(9) by (simp add: read_records_def logged_def log_request_def log_metrics_def)
  then show ?thesis using good_answered [OF assms(1-8)] by auto
qed

theorem request_logged_witness:
  "\<exists>s' q. handle_read sample_services sample_table None
        (length (request_text ''GET'' ''/health'' ''1'' ''1'' [Field ''Host'' ''a'']))
        ((sample_session (request_text ''GET'' ''/health'' ''1'' ''1'' [Field ''Host'' ''a'']))\<lparr>remote := Some ''10.0.0.1''\<rparr>)
        sample_process = Some (Inr (0, s', q))
    \<and> (NORMAL, ''<Normal>: First line of request: GET /health HTTP/1.1'') \<in> set (journal s')
    \<and> (NOTIFICATION, ''<Notification>: {ResponseMetrics} response_code:200, request_path:/health, request_ip:10.0.0.1, handler_name:HealthHandler'')
        \<in> set (journal s')"
proof -
  let ?t = "request_text ''GET'' ''/health'' ''1'' ''1'' [Field ''Host'' ''a'']"
  let ?s = "(sample_session ?t)\<lparr>remote := Some ''10.0.0.1''\<rparr>"
  let ?r = "received_request ?s ''/health'' ''1'' ''1'' [Field ''Host'' ''a'']"
  have len: "length ?t < max_length"
    by (simp add: request_text_def request_line_def hlines_text_def max_length_def)
  have uri: "req_uri ?r = ''/health''"
    by (simp add: received_request_def parsed_request_def sample_session_def new_session_def new_request_def)
  have fresh: "fresh ?s"
    using sample_fresh [of ?t] len by (simp add: fresh_def)
  have code: "to_string (status_value (rep_code (health_handle ?r))) = ''200''"
    by (simp add: health_handle_def Let_def) code_simp
  show ?thesis
    using request_logged [OF fresh _ _ sample_request_ok, where body = "[]" and h = HealthHandler
        and hs = sample_table and svc = sample_services and p = sample_process and ip = "''10.0.0.1''" and n = "length ?t"
        and r = "health_handle ?r" and q = "count_request sample_process"] len uri
    by (auto simp: sample_text sample_dispatch code)
qed

text \<open>
  C28. A request for which no handler is registered ends the server: the stock reply is made, but the
  metrics line reads the name of the null handler before anything is written.
\<close>

theorem unrouted_request_crashes:
  assumes "fresh s" "NUL \<in> set (data_buf s)" "n \<le> max_length" "request_ok m u ma mi ls"
    and "take n (data_buf s) = request_text m u ma mi ls @ body" "body = [] \<or> (\<exists>b. body = b @ crlf)"
    and "dispatch hs (received_request s u ma mi ls) = None"
  shows "handle_read svc hs None n s p = Some (Inl NullDeref)"
  using read_good [OF assms(1-6)] assms(7)
  by (subst handle_read.simps) (simp add: Let_def answer_good_def make_reply_def send_reply_def)

lemma sample_other_ok: "request_ok ''GET'' ''/other'' ''1'' ''1'' []"
  by (simp add: request_ok_def token_def bad_name_char_def is_char_def is_ctl_def is_tspecial_def
       schar_def uri_text_def digits_def isdigit_def)

theorem unrouted_request_crashes_witness:
  "handle_read sample_services sample_table None (length (request_text ''GET'' ''/other'' ''1'' ''1'' []))
     (sample_session (request_text ''GET'' ''/other'' ''1'' ''1'' [])) sample_process = Some (Inl NullDeref)"
proof -
  let ?t = "request_text ''GET'' ''/other'' ''1'' ''1'' []"
  have len: "length ?t < max_length"
    by (simp add: request_text_def request_line_def hlines_text_def max_length_def)
  have "req_uri (received_request (sample_session ?t) ''/other'' ''1'' ''1'' []) = ''/other''"
    by (simp add: received_request_def parsed_request_def sample_session_def new_session_def new_request_def)
  then show ?thesis
    by (intro unrouted_request_crashes [OF _ _ _ sample_other_ok, where body = "[]"])
       (use len in \<open>simp_all add: sample_fresh sample_text sample_dispatch\<close>)
qed

text \<open>
  C26. A well-formed request whose body does not end in a line end is refused: the text is taken for
  one typed with bare line feeds, every carriage return is doubled, and the answer is a 400.
\<close>

theorem body_without_newline_refused:
  assumes "boost_replace (replace_all (env svc))" "fresh s" "n \<le> max_length" "request_ok m u ma mi ls"
    and "take n (data_buf s) = request_text m u ma mi ls @ body" "body \<noteq> []" "LF \<notin> set body"
    and "length (request_text m u ma mi ls) + length ls + 4 < max_length" "bad_registered hs"
  shows "\<exists>s' r. handle_read svc hs None n s p = Some (Inr (1, s', count_request p))
    \<and> sent s' = sent s @ [wire (bad_request_handle r)]"
proof -
  let ?f = "replace_all (env svc)" and ?d = "take n (data_buf s)"
  let ?lines = "request_lines m u ma mi ls"
  let ?str = "to_dos (request_text m u ma mi ls) @ crlf"
  have len: "length (data_buf s) = max_length" "parser_obj s = new_request_parser"
    using assms(2) by (simp_all add: fresh_def)
  have unb: "\<forall>l \<in> set ?lines. unbroken l" by (rule request_lines_unbroken [OF assms(4)])
  obtain x where x: "request_text m u ma mi ls = x @ [LF]" by (simp add: request_text_def)
  have fmt: "format_data ?f ?d = ?str"
    using pop_after [OF assms(7), of x] by (simp add: format_data_dos [OF assms(1)] assms(5) x)
  have "length ?d = n" using len(1) assms(3) by simp
  moreover have "last body \<noteq> LF" using assms(6,7) by (metis last_in_set)
  then have "last ?d \<noteq> LF" "2 \<le> length ?d"
    using assms(6) by (auto simp: assms(5) x Suc_le_eq)
  ultimately have n: "2 \<le> n" "drop (n - 2) ?d \<noteq> crlf"
    using ends_crlf_last [of ?d] by auto
  have dos: "to_dos (end_lines ls) = concat (map (\<lambda>l. l @ CR # crlf) ls)" if "\<forall>l \<in> set ls. unbroken l" for ls
    using that by (induction ls) (auto simp: end_lines_def unbroken_def)
  have str: "?str = line_content m u ma mi @ CR # CR # LF # concat (map (\<lambda>l. l @ CR # crlf) (map hline_content ls)) @ CR # crlf @ crlf"
    using dos [OF unb] by (simp add: request_text_lines request_lines_def)
  have "length ?lines = length ls + 1" by (simp add: request_lines_def)
  then have size: "NUL \<notin> set ?str" "length ?str < max_length"
    using assms(8) NUL_end_lines [OF unb] by (simp_all add: length_to_dos request_text_lines NUL_to_dos count_end_lines [OF unb])
  let ?s = "s\<lparr>data_buf := ?str @ NUL # drop (length ?str + 1) (data_buf s)\<rparr>"
  let ?r = "parse_method ((req_obj s)\<lparr>req_body := ?str\<rparr>) (data_buf ?s)"
  obtain rest q r where run: "parse_chars new_request_parser ?r ?str = (Bad, rest, q, r)"
    using doubled_CR [of m u ma mi ?r] assms(4) unfolding request_ok_def str
    by (metis prod.collapse)
  have "read_request ?f s n = parse_buffer ?s (length ?str)"
    using read_formatted [OF assms(1) len(1) n(1) assms(3) n(2) fmt [symmetric]] size by simp
  also have "\<dots> = Inr (Bad, ?s\<lparr>parser_obj := q, req_obj := r\<rparr>)"
    using run c_string_mid [OF size(1), of "drop (length ?str + 1) (data_buf s)"] size(2) len
    by (simp add: parse_buffer_Inr max_length_def)
  finally have "handle_read svc hs None n s p =
      answer_bad svc hs (log_read Bad (?s\<lparr>parser_obj := q, req_obj := r\<rparr>)) (count_request p)"
    by (subst handle_read.simps) (simp add: Let_def)
  then show ?thesis
    using answer_bad_registered [OF assms(9), of svc "log_read Bad (?s\<lparr>parser_obj := q, req_obj := r\<rparr>)" "count_request p"]
    by auto
qed

theorem body_without_newline_refused_witness:
  "\<exists>s' r. handle_read sample_services sample_table None (length (request_text ''GET'' ''/health'' ''1'' ''1'' [Field ''Host'' ''a''] @ ''a=b''))
      (sample_session (request_text ''GET'' ''/health'' ''1'' ''1'' [Field ''Host'' ''a''] @ ''a=b'')) sample_process
        = Some (Inr (1, s', count_request sample_process))
    \<and> sent s' = [wire (bad_request_handle r)]"
proof -
  let ?t = "request_text ''GET'' ''/health'' ''1'' ''1'' [Field ''Host'' ''a''] @ ''a=b''"
  have len: "length ?t < max_length" "length (request_text ''GET'' ''/health'' ''1'' ''1'' [Field ''Host'' ''a'']) + 5 < max_length"
    by (simp_all add: request_text_def request_line_def hlines_text_def max_length_def)
  have "\<exists>s' r. handle_read sample_services sample_table None (length ?t) (sample_session ?t) sample_process
        = Some (Inr (1, s', count_request sample_process))
    \<and> sent s' = sent (sample_session ?t) @ [wire (bad_request_handle r)]"
    by (rule body_without_newline_refused [OF sample_replace(2) sample_fresh _ sample_request_ok sample_text(1)])
       (use len in \<open>simp_all add: bad_registered_def sample_table_def\<close>)
  then show ?thesis by (simp add: sample_session_def new_session_def)
qed

text \<open>
  C27. An unfinished request is answered as a bad one: the lines of a request without the blank line
  are read twice by the same call, so the request is counted twice, a 400 is sent although the rest
  may still arrive, and \<open>handle_read\<close> returns -1, its value for a connection error.
\<close>

theorem unfinished_request_refused:
  assumes "boost_replace (replace_all (env svc))" "fresh s" "NUL \<in> set (data_buf s)" "n \<le> max_length"
    and "request_ok m u ma mi ls" "take n (data_buf s) = request_line m u ma mi @ hlines_text ls" "bad_registered hs"
  shows "\<exists>s' r. handle_read svc hs None n s p = Some (Inr (- 1, s', count_request (count_request p)))
    \<and> sent s' = sent s @ [wire (bad_request_handle r)]"
proof -
  let ?f = "replace_all (env svc)" and ?d = "take n (data_buf s)"
  have fr: "length (data_buf s) = max_length" "parser_obj s = new_request_parser" "req_headers (req_obj s) = []"
    using assms(2) by (simp_all add: fresh_def)
  have n: "length ?d = n" using fr(1) assms(4) by simp
  have "?d = end_lines (request_lines m u ma mi ls)"
    using request_text_lines [of m u ma mi ls] by (simp add: assms(6) request_text_def)
  moreover have "\<exists>x. end_lines ys = x @ crlf" if "ys \<noteq> []" for ys
    using that by (induction ys rule: rev_induct) (simp_all add: end_lines_def)
  ultimately obtain x where x: "?d = x @ crlf" by (auto simp: request_lines_def)
  then have tail: "2 \<le> n" "drop (n - 2) ?d = crlf"
    using n by (auto dest: arg_cong [of _ _ length])
  obtain q r where "read_request ?f s n = Inr (Indeterminate, s\<lparr>parser_obj := q, req_obj := r\<rparr>)"
  proof -
    have "parse_buffer s n = Inr (Indeterminate, s\<lparr>parser_obj := parser_at S_header_line_start,
        req_obj := received_request s u ma mi ls\<rparr>)"
      unfolding parse_buffer_Inr
      using assms(3-5) fr run_hlines [of _ ls "[]"]
        run_request_line [of m u ma mi _ "hlines_text ls"]
      by (simp add: assms(6) c_string_takeWhile request_ok_def received_request_def parsed_request_def max_length_def)
    then show thesis using that read_long [OF fr(1) tail(1) assms(4), of ?f] tail(2) by simp
  qed
  from handle_read_unfinished [OF assms(1,2,4) this, of hs p] obtain t where
    t: "handle_read svc hs None n s p = map_option (\<lambda>res. rbind res (\<lambda>(status, s, p). Inr (- 1, s, p)))
        (answer_bad svc hs t (count_request (count_request p)))" "sent t = sent s"
    by auto
  show ?thesis
    using answer_bad_registered [OF assms(7), of svc t "count_request (count_request p)"] t by auto
qed

theorem unfinished_request_refused_witness:
  "\<exists>s' q. handle_read sample_services sample_table None (length (request_line ''GET'' ''/health'' ''1'' ''1'' @ hlines_text [Field ''Host'' ''a'']))
      (sample_session (request_line ''GET'' ''/health'' ''1'' ''1'' @ hlines_text [Field ''Host'' ''a''])) sample_process
        = Some (Inr (- 1, s', q)) \<and> num_requests (stats q) = 2"
proof -
  let ?t = "request_line ''GET'' ''/health'' ''1'' ''1'' @ hlines_text [Field ''Host'' ''a'']"
  have len: "length ?t < max_length"
    by (simp add: request_line_def hlines_text_def max_length_def)
  have "\<exists>s' r. handle_read sample_services sample_table None (length ?t) (sample_session ?t) sample_process
        = Some (Inr (- 1, s', count_request (count_request sample_process)))
    \<and> sent s' = sent (sample_session ?t) @ [wire (bad_request_handle r)]"
    by (rule unfinished_request_refused [OF sample_replace(2) sample_fresh _ _ sample_request_ok])
       (use len sample_text [OF len] in \<open>simp_all add: bad_registered_def sample_table_def\<close>)
  then show ?thesis
    by (auto simp: count_request_def sample_process_def new_statistics_def size_add_def)
qed

text \<open>
  C25. Requests typed with bare line feeds are understood: the lines of a well-formed request, each
  ended by a line feed and without a blank line, are formatted into the request's text and parsed as
  that request, if the formatted text fits the buffer.
\<close>

theorem unix_lines_accepted:
  assumes "boost_replace f" "fresh s" "n \<le> max_length" "request_ok m u ma mi ls"
    and "take n (data_buf s) = unix_lines (request_lines m u ma mi ls)"
    and "length (request_text m u ma mi ls) < max_length"
  shows "\<exists>s' r. read_request f s n = Inr (Good, s') \<and> req_obj s' = parsed_request u ma mi ls r
    \<and> req_uri r = [] \<and> req_headers r = [] \<and> req_body r = request_text m u ma mi ls"
proof -
  let ?d = "take n (data_buf s)" and ?str = "request_text m u ma mi ls"
  let ?lines = "request_lines m u ma mi ls"
  have fr: "length (data_buf s) = max_length" "parser_obj s = new_request_parser" "req_headers (req_obj s) = []"
      "req_uri (req_obj s) = []"
    using assms(2) by (simp_all add: fresh_def)
  have unb: "\<forall>l \<in> set ?lines. unbroken l" by (rule request_lines_unbroken [OF assms(4)])
  have "\<exists>x. unix_lines ys = x @ [LF]" if "ys \<noteq> []" for ys
    using that by (induction ys rule: rev_induct) (simp_all add: unix_lines_def)
  then obtain x where x: "?d = x @ [LF]" by (auto simp: assms(5) request_lines_def)
  have fmt: "format_data f ?d = ?str"
    using pop_after [of "[]" x] to_dos_unix_lines [OF unb]
    by (simp add: format_data_dos [OF assms(1)] x [symmetric] request_text_lines assms(5) [symmetric])
  have "CR \<notin> set ?d" using unb by (auto simp: assms(5) unix_lines_def unbroken_def)
  then have tail: "drop (n - 2) ?d \<noteq> crlf" by (metis in_set_dropD list.set_intros(1))
  have "length ?d = n" using fr(1) assms(3) by simp
  then have n: "2 \<le> n" using assms(5) by (auto simp: unix_lines_def request_lines_def line_content_def)
  have nul: "NUL \<notin> set ?str" using NUL_end_lines [OF unb] by (simp add: request_text_lines)
  let ?s = "s\<lparr>data_buf := ?str @ NUL # drop (length ?str + 1) (data_buf s)\<rparr>"
  have "read_request f s n = parse_buffer ?s (length ?str)"
    by (rule read_formatted [OF assms(1) fr(1) n assms(3) tail fmt [symmetric] nul assms(6)])
  also have "\<dots> = Inr (Good, ?s\<lparr>parser_obj := parser_at S_expecting_newline_3, req_obj := received_request ?s u ma mi ls\<rparr>)"
    using fr assms(6) by (intro parse_buffer_good [OF _ _ _ _ _ assms(4), where body = "[]"]) (auto simp: max_length_def)
  finally show ?thesis
    using fr nul
    by (intro exI [of _ "?s\<lparr>parser_obj := parser_at S_expecting_newline_3, req_obj := received_request ?s u ma mi ls\<rparr>"]
        exI [of _ "parse_method ((req_obj s)\<lparr>req_body := ?str\<rparr>) (data_buf ?s)"])
      (simp add: received_request_def c_prefix_mid)
qed

theorem unix_lines_accepted_witness:
  "\<exists>s' r. read_request replace_ref (sample_session (''GET /health HTTP/1.1'' @ [LF] @ ''Host: a'' @ [LF])) 29 = Inr (Good, s')
     \<and> req_uri (req_obj s') = ''/health''"
proof -
  let ?ls = "request_lines ''GET'' ''/health'' ''1'' ''1'' [Field ''Host'' ''a'']"
  have t: "unix_lines ?ls = ''GET /health HTTP/1.1'' @ [LF] @ ''Host: a'' @ [LF]"
    by (simp add: unix_lines_def request_lines_def line_content_def hline_content_def)
  have len: "length (unix_lines ?ls) < max_length" "29 = length (unix_lines ?ls)"
    by (simp_all add: t max_length_def)
  have "\<exists>s' r. read_request replace_ref (sample_session (unix_lines ?ls)) (length (unix_lines ?ls)) = Inr (Good, s')
      \<and> req_obj s' = parsed_request ''/health'' ''1'' ''1'' [Field ''Host'' ''a''] r
    \<and> req_uri r = [] \<and> req_headers r = [] \<and> req_body r = request_text ''GET'' ''/health'' ''1'' ''1'' [Field ''Host'' ''a'']"
    by (rule unix_lines_accepted [OF ref_replace.boost_replace_axioms sample_fresh _ sample_request_ok sample_text(1)])
       (use len in \<open>simp_all add: request_text_def request_line_def hlines_text_def max_length_def\<close>)
  then show ?thesis
    unfolding t [symmetric] len(2) by (auto simp: parsed_request_def)
qed

text \<open>
  C33. The buffer overflow: text that ends in a bare line feed is written back with one byte more for
  each line feed and two for a line end; \<open>strcpy\<close> writes past the 1024 bytes exactly when text, line
  feeds and the three bytes at the end do not fit, which a client brings about with 1021 bytes.
\<close>

theorem format_overflow:
  assumes "boost_replace f" "length (data_buf s) = max_length" "2 \<le> n" "n \<le> max_length"
    and "take n (data_buf s) = t @ [LF]" "t = [] \<or> last t \<noteq> CR" "NUL \<notin> set t"
  shows "read_request f s n = Inl BufferOverflow \<longleftrightarrow> max_length < n + count_list (take n (data_buf s)) LF + 3"
proof -
  let ?d = "take n (data_buf s)" and ?str = "format_data f (take n (data_buf s))"
  have n: "length ?d = n" using assms(2,4) by simp
  have tail: "drop (n - 2) ?d \<noteq> crlf"
  proof
    assume "drop (n - 2) ?d = crlf"
    then have "drop (n - 2) (t @ [LF]) = crlf" unfolding assms(5) .
    moreover have "n = length t + 1" using n by (simp add: assms(5))
    ultimately have "drop (n - 2) t = [CR]" "n - 2 < length t" using assms(3) by simp_all
    then show False using last_drop [of "n - 2" t] assms(6) by auto
  qed
  have "pop_to_newline ?d = ?d" using pop_after [of "[]" t] by (simp add: assms(5))
  then have str: "?str = to_dos ?d @ crlf" by (simp add: format_data_dos [OF assms(1)])
  then have len: "length ?str = n + count_list ?d LF + 2" using n by (simp add: length_to_dos)
  have nul: "NUL \<notin> set ?str" using assms(5,7) str by simp
  have no: "parse_buffer q k \<noteq> Inl BufferOverflow" for q k
    by (auto simp: parse_buffer_def parse_def fault_simps split: option.splits if_splits)
  show ?thesis
    unfolding read_long [OF assms(2-4), of f] copy_c_string_def c_prefix [OF nul]
    using tail no assms(2) len by (simp add: Let_def)
qed

theorem format_overflow_witness:
  "read_request replace_ref (sample_session (replicate 1020 (CHR ''a'') @ [LF])) 1021 = Inl BufferOverflow"
proof -
  let ?t = "replicate 1020 (CHR ''a'') :: string"
  have t: "take 1021 (data_buf (sample_session (?t @ [LF]))) = ?t @ [LF]"
    using sample_text(1) [of "?t @ [LF]"] by (simp add: max_length_def)
  have "read_request replace_ref (sample_session (?t @ [LF])) 1021 = Inl BufferOverflow
    \<longleftrightarrow> max_length < 1021 + count_list (take 1021 (data_buf (sample_session (?t @ [LF])))) LF + 3"
    by (rule format_overflow [OF ref_replace.boost_replace_axioms _ _ _ t])
       (simp_all add: sample_session_def new_session_def max_length_def)
  then show ?thesis unfolding t by (simp add: max_length_def)
qed

end
