(* ===== verification/Overlap.thy ===== *)
theory Overlap
  imports Session
begin

text \<open>
  Completion handlers that overlap. The threads of \<open>server::run\<close> (\<open>src/server.cc\<close>) call \<open>handle_read\<close> of
  several sessions at the same time; here a call is cut into the pieces between which another thread
  can come, wherever it reads or writes the static members of the dispatcher, and the calls take turns
  in any order. What is private to a session is done in one piece. As in \<open>Threads\<close> an increment is a
  load and a store, and so is a \<open>push_back\<close> to the received codes of a target: the vector is read, and
  later written back with one code more. For the C++ standard both races are undefined behaviour (the
  map and its vectors can be corrupted); losing what another thread has written in between is the
  mildest thing that can happen. \<open>HandleRequest\<close> is one piece.
\<close>

section \<open>A call in pieces\<close>

text \<open>
  Where a call of \<open>handle_read\<close> stands: it has been entered, has loaded the counter, has stored it,
  has parsed, has made the reply (for a good request its code is still to be recorded), has read the
  codes of its target, has recorded its code, has returned.
\<close>

datatype stage = Arrived | Loaded nat | Counted | Ready result_type | Made int reply
  | Fetched int reply "nat list" | Recorded int reply | Returned int

text \<open>\<open>again\<close>: it is the call that \<open>handle_read\<close> makes of itself, whose value is not used.\<close>

record call =
  read_error :: "string option"
  received :: nat
  owner :: session
  stage_of :: stage
  again :: bool

definition read_call :: "string option \<Rightarrow> nat \<Rightarrow> session \<Rightarrow> call" where
  "read_call error n s = \<lparr>read_error = error, received = n, owner = s, stage_of = Arrived, again = False\<rparr>"

definition call_turn ::
  "('z, 'w) services \<Rightarrow> handlers \<Rightarrow> call \<Rightarrow> 'w process \<Rightarrow> cpp_fault + (call \<times> 'w process)" where
  "call_turn svc hs c p =
     (case stage_of c of
        Arrived \<Rightarrow> Inr (c\<lparr>stage_of := Loaded (num_requests (stats p))\<rparr>, p)
      | Loaded v \<Rightarrow> Inr (c\<lparr>stage_of := Counted\<rparr>, p\<lparr>stats := (stats p)\<lparr>num_requests := size_add v 1\<rparr>\<rparr>)
      | Counted \<Rightarrow>
          (case read_error c of
             Some msg \<Rightarrow>
               Inr (c\<lparr>owner := log_error (''Session read error: '' @ msg) (owner c), stage_of := Returned (- 1)\<rparr>, p)
           | None \<Rightarrow>
               rbind (read_request (replace_all (env svc)) (owner c) (received c)) (\<lambda>(res, s).
                 Inr (c\<lparr>owner := log_read res s, stage_of := Ready res\<rparr>, p)))
      | Ready res \<Rightarrow>
          (case res of
             Good \<Rightarrow>
               (case make_reply svc hs Not_found (owner c) p of
                  None \<Rightarrow> Inr (c, p)
                | Some made \<Rightarrow> rbind made (\<lambda>(r, s, p). Inr (c\<lparr>owner := s, stage_of := Made 0 r\<rparr>, p)))
           | Bad \<Rightarrow>
               (case make_reply svc hs Bad_request
                       ((owner c)\<lparr>req_obj := (req_obj (owner c))\<lparr>req_uri := ''/badrequest''\<rparr>\<rparr>) p of
                  None \<Rightarrow> Inr (c, p)
                | Some made \<Rightarrow> rbind made (\<lambda>(r, s, p). Inr (c\<lparr>owner := s, stage_of := Recorded 1 r\<rparr>, p)))
           | Indeterminate \<Rightarrow> Inr (c\<lparr>stage_of := Arrived, again := True\<rparr>, p))
      | Made status r \<Rightarrow>
          (case fetch_codes (req_uri (req_obj (owner c))) (stats p) of
             (codes, s) \<Rightarrow> Inr (c\<lparr>stage_of := Fetched status r codes\<rparr>, p\<lparr>stats := s\<rparr>))
      | Fetched status r codes \<Rightarrow>
          Inr (c\<lparr>stage_of := Recorded status r\<rparr>,
            p\<lparr>stats := store_codes (req_uri (req_obj (owner c))) (codes @ [status_value (rep_code r)]) (stats p)\<rparr>)
      | Recorded status r \<Rightarrow>
          rbind (send_reply r (owner c)) (\<lambda>s.
            Inr (c\<lparr>owner := s, stage_of := Returned (if again c then - 1 else status)\<rparr>, p))
      | Returned status \<Rightarrow> Inr (c, p))"

text \<open>The calls take turns; a fault in one of them ends the process.\<close>

fun run_calls ::
  "('z, 'w) services \<Rightarrow> handlers \<Rightarrow> nat list \<Rightarrow> call list \<times> 'w process \<Rightarrow> cpp_fault + (call list \<times> 'w process)" where
  "run_calls svc hs [] sy = Inr sy"
| "run_calls svc hs (i # turns) (cs, p) =
     (if length cs \<le> i then run_calls svc hs turns (cs, p)
      else rbind (call_turn svc hs (cs ! i) p) (\<lambda>(c, p). run_calls svc hs turns (cs[i := c], p)))"

lemma run_calls_append: "run_calls svc hs (ts @ us) sy = rbind (run_calls svc hs ts sy) (run_calls svc hs us)"
proof (induction svc hs ts sy rule: run_calls.induct)
  case (2 svc hs i turns cs p)
  then show ?case by (cases "call_turn svc hs (cs ! i) p") (auto simp: split_def)
qed simp

section \<open>Handlers that keep to themselves\<close>

text \<open>
  They neither look at nor change what requests share: all but the status page, the Markdown page and
  the reverse proxy. Static files are read, never written.
\<close>

fun local_handler :: "handler \<Rightarrow> bool" where
  "local_handler MarkdownHandler = False"
| "local_handler StatusHandler = False"
| "local_handler (ReverseProxyHandler cfg) = False"
| "local_handler h = True"

definition local_table :: "handlers \<Rightarrow> bool" where
  "local_table hs \<longleftrightarrow> (\<forall>h. Some h \<in> snd ` set hs \<longrightarrow> local_handler h)"

lemma local_request:
  "local_handler h \<Longrightarrow> world q = world p \<Longrightarrow>
    \<exists>res. handle_request z e n uri h req p = Some (res, p) \<and> handle_request z e n uri h req q = Some (res, q)"
  by (cases h) auto

text \<open>The reply of such a table is a function of the session and of the world.\<close>

lemma local_reply:
  assumes "local_table hs" "world q = world p" "make_reply svc hs fallback s p = Some (Inr (r, s', p'))"
  shows "p' = p" "make_reply svc hs fallback s q = Some (Inr (r, s', q))"
proof -
  have "p' = p \<and> make_reply svc hs fallback s q = Some (Inr (r, s', q))"
  proof (cases "dispatch hs (req_obj s)")
    case None
    with assms(3) show ?thesis by (auto simp: make_reply_def Let_def)
  next
    case (Some h)
    then have "local_handler h" using dispatch_in assms(1) by (auto simp: local_table_def)
    from local_request [OF this assms(2), of "lib svc" "env svc" "net svc" "db_uri svc" "req_obj s"] obtain res where
      "handle_request (lib svc) (env svc) (net svc) (db_uri svc) h (req_obj s) p = Some (res, p)"
      "handle_request (lib svc) (env svc) (net svc) (db_uri svc) h (req_obj s) q = Some (res, q)" by blast
    with Some assms(3) show ?thesis by (cases res) (auto simp: make_reply_def Let_def)
  qed
  then show "p' = p" "make_reply svc hs fallback s q = Some (Inr (r, s', q))" by simp_all
qed

section \<open>What a call leads to\<close>

text \<open>What \<open>handle_read\<close> on its own does with a session, whatever the statistics are.\<close>

definition reads_to ::
  "('z, 'w) services \<Rightarrow> handlers \<Rightarrow> 'w \<Rightarrow> string option \<Rightarrow> nat \<Rightarrow> session \<Rightarrow> int \<Rightarrow> session \<Rightarrow> bool" where
  "reads_to svc hs w error n s status s' \<longleftrightarrow>
     (\<forall>p. world p = w \<longrightarrow> (\<exists>p'. handle_read svc hs error n s p = Some (Inr (status, s', p'))))"

definition replies :: "('z, 'w) services \<Rightarrow> handlers \<Rightarrow> 'w \<Rightarrow> status_code \<Rightarrow> session \<Rightarrow> reply \<Rightarrow> session \<Rightarrow> bool" where
  "replies svc hs w fallback s r s' \<longleftrightarrow> (\<forall>p. world p = w \<longrightarrow> make_reply svc hs fallback s p = Some (Inr (r, s', p)))"

lemma world_count [simp]: "world (count_request p) = world p"
  by (simp add: count_request_def)

lemma reads_to_error:
  "reads_to svc hs w (Some msg) n s (- 1) (log_error (''Session read error: '' @ msg) s)"
  unfolding reads_to_def by (subst handle_read.simps) (simp add: Let_def)

lemma reads_to_good:
  assumes "read_request (replace_all (env svc)) s n = Inr (Good, s1)"
    and "replies svc hs w Not_found (log_read Good s1) r s2" "send_reply r s2 = Inr s'"
  shows "reads_to svc hs w None n s 0 s'"
  unfolding reads_to_def using assms
  by (subst handle_read.simps) (auto simp: Let_def answer_good_def replies_def)

lemma reads_to_bad:
  assumes "read_request (replace_all (env svc)) s n = Inr (Bad, s1)"
    and "replies svc hs w Bad_request ((log_read Bad s1)\<lparr>req_obj := (req_obj s1)\<lparr>req_uri := ''/badrequest''\<rparr>\<rparr>) r s2"
    and "send_reply r s2 = Inr s'"
  shows "reads_to svc hs w None n s 1 s'"
  unfolding reads_to_def using assms
  by (subst handle_read.simps) (auto simp: Let_def answer_bad_def replies_def)

lemma reads_to_again:
  fixes w :: 'w
  assumes "read_request (replace_all (env svc)) s n = Inr (Indeterminate, s1)"
    and "reads_to svc hs w None n (log_read Indeterminate s1) status s'"
  shows "reads_to svc hs w None n s (- 1) s'"
  unfolding reads_to_def
proof (intro allI impI)
  fix p :: "'w process" assume "world p = w"
  then obtain p' where "handle_read svc hs None n (log_read Indeterminate s1) (count_request p) = Some (Inr (status, s', p'))"
    using assms(2) world_count [of p] by (metis reads_to_def)
  then show "\<exists>p'. handle_read svc hs None n s p = Some (Inr (- 1, s', p'))"
    using assms(1) by (subst handle_read.simps) (simp add: Let_def)
qed

text \<open>What is still to come for a call: the value and the session it will return with.\<close>

fun leads_to :: "('z, 'w) services \<Rightarrow> handlers \<Rightarrow> 'w \<Rightarrow> string option \<Rightarrow> nat \<Rightarrow> session \<Rightarrow> stage \<Rightarrow> int \<Rightarrow> session \<Rightarrow> bool" where
  "leads_to svc hs w error n s (Ready Good) status s' \<longleftrightarrow>
     status = 0 \<and> (\<exists>r s2. replies svc hs w Not_found s r s2 \<and> send_reply r s2 = Inr s')"
| "leads_to svc hs w error n s (Ready Bad) status s' \<longleftrightarrow>
     status = 1 \<and> (\<exists>r s2. replies svc hs w Bad_request (s\<lparr>req_obj := (req_obj s)\<lparr>req_uri := ''/badrequest''\<rparr>\<rparr>) r s2
       \<and> send_reply r s2 = Inr s')"
| "leads_to svc hs w error n s (Ready Indeterminate) status s' \<longleftrightarrow>
     status = - 1 \<and> (\<exists>st. reads_to svc hs w error n s st s')"
| "leads_to svc hs w error n s (Made st r) status s' \<longleftrightarrow> status = st \<and> send_reply r s = Inr s'"
| "leads_to svc hs w error n s (Fetched st r ks) status s' \<longleftrightarrow> status = st \<and> send_reply r s = Inr s'"
| "leads_to svc hs w error n s (Recorded st r) status s' \<longleftrightarrow> status = st \<and> send_reply r s = Inr s'"
| "leads_to svc hs w error n s (Returned st) status s' \<longleftrightarrow> False"
| "leads_to svc hs w error n s st status s' \<longleftrightarrow> reads_to svc hs w error n s status s'"

text \<open>A call is on its way to what \<open>handle_read\<close> returns for the session it was entered with.\<close>

definition on_the_way :: "('z, 'w) services \<Rightarrow> handlers \<Rightarrow> 'w \<Rightarrow> call \<Rightarrow> call \<Rightarrow> bool" where
  "on_the_way svc hs w c0 c \<longleftrightarrow> received c = received c0 \<and> read_error c = read_error c0
     \<and> (\<forall>status s'. leads_to svc hs w (read_error c) (received c) (owner c) (stage_of c) status s' \<longrightarrow>
          reads_to svc hs w (read_error c0) (received c0) (owner c0) (if again c then - 1 else status) s')
     \<and> (\<forall>status. stage_of c = Returned status \<longrightarrow>
          reads_to svc hs w (read_error c0) (received c0) (owner c0) status (owner c))"

lemma entered_on_the_way: "on_the_way svc hs w (read_call error n s) (read_call error n s)"
  by (simp add: on_the_way_def read_call_def)

lemma turn_on_the_way:
  fixes p :: "'w process"
  assumes "local_table hs" "on_the_way svc hs (world p) c0 c" "call_turn svc hs c p = Inr (c', p')"
  shows "on_the_way svc hs (world p) c0 c' \<and> world p' = world p"
proof (cases "stage_of c")
  case Counted
  show ?thesis
  proof (cases "read_error c")
    case None
    with Counted assms(3) obtain res s1 where r: "read_request (replace_all (env svc)) (owner c) (received c) = Inr (res, s1)"
      "c' = c\<lparr>owner := log_read res s1, stage_of := Ready res\<rparr>" "p' = p"
      by (auto simp: call_turn_def fault_simps)
    have "reads_to svc hs (world p) None (received c) (owner c) status s'"
      if "leads_to svc hs (world p) None (received c) (log_read res s1) (Ready res) status s'" for status s'
      using that r(1) by (cases res) (auto intro: reads_to_good reads_to_bad reads_to_again)
    with assms(2) r Counted None show ?thesis by (auto simp: on_the_way_def) (blast+)?
  next
    case (Some msg)
    with Counted assms(3) have "c' = c\<lparr>owner := log_error (''Session read error: '' @ msg) (owner c), stage_of := Returned (- 1)\<rparr>" "p' = p"
      by (auto simp: call_turn_def)
    moreover have "reads_to svc hs (world p) (read_error c) (received c) (owner c) (- 1) (log_error (''Session read error: '' @ msg) (owner c))"
      using Some reads_to_error by auto
    ultimately show ?thesis using assms(2) Counted by (auto simp: on_the_way_def split: if_splits)
  qed
next
  case (Ready res)
  have local: "replies svc hs (world p) fb s r s2 \<and> q = p" if "make_reply svc hs fb s p = Some (Inr (r, s2, q))" for fb s r s2 q
    using local_reply [OF assms(1) _ that] by (auto simp: replies_def)
  have made: "on_the_way svc hs (world p) c0 (c\<lparr>owner := s2, stage_of := st\<rparr>)"
    if "st \<in> {Made status r, Recorded status r}"
      "\<And>s'. send_reply r s2 = Inr s' \<Longrightarrow> leads_to svc hs (world p) (read_error c) (received c) (owner c) (Ready res) status s'" for st r s2 status
    using assms(2) Ready that by (auto simp: on_the_way_def)
  show ?thesis
  proof (cases res)
    case Good
    show ?thesis
    proof (cases "make_reply svc hs Not_found (owner c) p")
      case (Some m)
      with assms(3) Ready Good obtain r s2 where "m = Inr (r, s2, p')" "c' = c\<lparr>owner := s2, stage_of := Made 0 r\<rparr>"
        by (auto simp: call_turn_def fault_simps)
      with Some local [of Not_found "owner c"] Good made [of "Made 0 r" 0 r s2] show ?thesis by auto
    qed (use assms Ready Good in \<open>simp add: call_turn_def\<close>)
  next
    case Bad
    let ?s = "(owner c)\<lparr>req_obj := (req_obj (owner c))\<lparr>req_uri := ''/badrequest''\<rparr>\<rparr>"
    show ?thesis
    proof (cases "make_reply svc hs Bad_request ?s p")
      case (Some m)
      with assms(3) Ready Bad obtain r s2 where "m = Inr (r, s2, p')" "c' = c\<lparr>owner := s2, stage_of := Recorded 1 r\<rparr>"
        by (auto simp: call_turn_def fault_simps)
      with Some local [of Bad_request ?s] Bad made [of "Recorded 1 r" 1 r s2] show ?thesis by auto
    qed (use assms Ready Bad in \<open>simp add: call_turn_def\<close>)
  next
    case Indeterminate
    with Ready assms show ?thesis by (auto simp: call_turn_def on_the_way_def) (blast+)?
  qed
next
  case (Recorded status r)
  with assms show ?thesis by (auto simp: call_turn_def on_the_way_def fault_simps)
qed (use assms in \<open>auto simp: call_turn_def on_the_way_def split: prod.splits\<close>)

lemma run_on_the_way:
  assumes "local_table hs"
  shows "run_calls svc hs turns (cs, p) = Inr (cs', p') \<Longrightarrow> list_all2 (on_the_way svc hs (world p)) cs0 cs
    \<Longrightarrow> world p' = world p \<and> list_all2 (on_the_way svc hs (world p)) cs0 cs'"
proof (induction turns arbitrary: cs p)
  case (Cons i turns)
  show ?case
  proof (cases "length cs \<le> i")
    case False
    with Cons.prems(1) obtain c q where t: "call_turn svc hs (cs ! i) p = Inr (c, q)"
      "run_calls svc hs turns (cs[i := c], q) = Inr (cs', p')" by (auto simp: fault_simps)
    have "on_the_way svc hs (world p) (cs0 ! i) (cs ! i)" using False Cons.prems(2) by (simp add: list_all2_conv_all_nth)
    from turn_on_the_way [OF assms this t(1)]
    have c: "on_the_way svc hs (world p) (cs0 ! i) c" "world q = world p" by simp_all
    then have "list_all2 (on_the_way svc hs (world q)) cs0 (cs[i := c])"
      using Cons.prems(2) False by (auto simp: list_all2_conv_all_nth nth_list_update)
    with Cons.IH [OF t(2)] c(2) show ?thesis by simp
  qed (use Cons in auto)
qed simp

section \<open>That every call returns\<close>

text \<open>
  The turns that a call still needs at most, when a second pass over the bytes cannot be unfinished
  again (\<open>second_pass\<close>).
\<close>

fun turns_left :: "bool \<Rightarrow> stage \<Rightarrow> nat" where
  "turns_left ag Arrived = (if ag then 6 else 10)"
| "turns_left ag (Loaded v) = (if ag then 5 else 9)"
| "turns_left ag Counted = (if ag then 4 else 8)"
| "turns_left ag (Ready Indeterminate) = 7"
| "turns_left ag (Ready Good) = 4"
| "turns_left ag (Ready Bad) = 2"
| "turns_left ag (Made status r) = 3"
| "turns_left ag (Fetched status r ks) = 2"
| "turns_left ag (Recorded status r) = 1"
| "turns_left ag (Returned status) = 0"

definition well_read :: "('z, 'w) services \<Rightarrow> call \<Rightarrow> bool" where
  "well_read svc c \<longleftrightarrow>
     (stage_of c \<in> {Arrived, Counted} \<union> range Loaded \<longrightarrow>
        (if again c then \<exists>s1. read_request (replace_all (env svc)) (owner c) (received c) = Inr (Bad, s1)
         else fresh (owner c) \<and> received c \<le> max_length))
     \<and> (stage_of c = Ready Indeterminate \<longrightarrow>
          \<not> again c \<and> (\<exists>s1. read_request (replace_all (env svc)) (owner c) (received c) = Inr (Bad, s1)))"

lemma second_read_bad:
  assumes "boost_replace (replace_all (env svc))" "fresh s" "n \<le> max_length"
    and "read_request (replace_all (env svc)) s n = Inr (Indeterminate, s1)"
  shows "\<exists>s2. read_request (replace_all (env svc)) (log_read Indeterminate s1) n = Inr (Bad, s2)"
proof -
  obtain q r where "read_request (replace_all (env svc)) s1 n = Inr (Bad, s1\<lparr>parser_obj := q, req_obj := r\<rparr>)"
    using second_pass [OF assms] by blast
  then show ?thesis by (auto simp: log_read_def read_request_journal)
qed

lemma local_make_reply:
  assumes "local_table hs"
  shows "make_reply svc hs fallback s p \<noteq> None"
proof (cases "dispatch hs (req_obj s)")
  case (Some h)
  then have "local_handler h" using dispatch_in assms by (auto simp: local_table_def)
  from local_request [OF this refl, of "lib svc" "env svc" "net svc" "db_uri svc" "req_obj s" p] Some
  show ?thesis by (auto simp: make_reply_def Let_def split: sum.splits)
qed (simp add: make_reply_def)

lemma turn_well_read:
  assumes "boost_replace (replace_all (env svc))" "well_read svc c" "call_turn svc hs c p = Inr (c', p')"
  shows "well_read svc c'"
proof (cases "stage_of c")
  case Counted
  show ?thesis
  proof (cases "read_error c")
    case None
    with Counted assms(3) obtain res s1 where r: "read_request (replace_all (env svc)) (owner c) (received c) = Inr (res, s1)"
      "c' = c\<lparr>owner := log_read res s1, stage_of := Ready res\<rparr>"
      by (auto simp: call_turn_def fault_simps)
    with Counted assms(2) second_read_bad [OF assms(1), of "owner c" "received c" s1]
    show ?thesis by (cases res) (auto simp: well_read_def split: if_splits)
  qed (use Counted assms in \<open>auto simp: call_turn_def well_read_def\<close>)
next
  case (Ready res)
  with assms(2,3) show ?thesis
    by (cases res) (auto simp: call_turn_def well_read_def fault_simps split: option.splits)
next
  case (Recorded status r)
  with assms show ?thesis by (auto simp: call_turn_def well_read_def fault_simps)
qed (use assms in \<open>auto simp: call_turn_def well_read_def split: prod.splits\<close>)

lemma turn_advances:
  assumes "local_table hs" "well_read svc c" "call_turn svc hs c p = Inr (c', p')"
  shows "turns_left (again c') (stage_of c') \<le> turns_left (again c) (stage_of c) - 1"
proof (cases "stage_of c")
  case Counted
  show ?thesis
  proof (cases "read_error c")
    case None
    with Counted assms(3) obtain res s1 where r: "read_request (replace_all (env svc)) (owner c) (received c) = Inr (res, s1)"
      "c' = c\<lparr>owner := log_read res s1, stage_of := Ready res\<rparr>"
      by (auto simp: call_turn_def fault_simps)
    with Counted assms(2) show ?thesis by (cases res) (auto simp: well_read_def)
  qed (use Counted assms in \<open>auto simp: call_turn_def\<close>)
next
  case (Ready res)
  with assms(2,3) show ?thesis
    by (cases res) (auto simp: call_turn_def well_read_def fault_simps local_make_reply [OF assms(1)] split: option.splits)
next
  case (Recorded status r)
  with assms show ?thesis by (auto simp: call_turn_def fault_simps)
qed (use assms in \<open>auto simp: call_turn_def split: prod.splits\<close>)

lemma run_advances:
  assumes "local_table hs" "boost_replace (replace_all (env svc))"
  shows "run_calls svc hs turns (cs, p) = Inr (cs', p') \<Longrightarrow> list_all (well_read svc) cs \<Longrightarrow> i < length cs
    \<Longrightarrow> turns_left (again (cs' ! i)) (stage_of (cs' ! i)) \<le> turns_left (again (cs ! i)) (stage_of (cs ! i)) - count_list turns i"
proof (induction turns arbitrary: cs p)
  case (Cons j turns)
  show ?case
  proof (cases "length cs \<le> j")
    case False
    with Cons.prems(1) obtain c q where t: "call_turn svc hs (cs ! j) p = Inr (c, q)"
      "run_calls svc hs turns (cs[j := c], q) = Inr (cs', p')" by (auto simp: fault_simps)
    have "well_read svc (cs ! j)" using Cons.prems(2) False by (simp add: list_all_length)
    from turn_well_read [OF assms(2) this t(1)] turn_advances [OF assms(1) this t(1)]
    have c: "well_read svc c" "turns_left (again c) (stage_of c) \<le> turns_left (again (cs ! j)) (stage_of (cs ! j)) - 1" by simp_all
    have "list_all (well_read svc) (cs[j := c])"
      using Cons.prems(2) c(1) False by (auto simp: list_all_length nth_list_update)
    from Cons.IH [OF t(2) this] Cons.prems(3) c(2) show ?thesis by (cases "i = j") auto
  qed (use Cons in auto)
qed simp

text \<open>A process with all its calls just entered.\<close>

definition enter_calls :: "(string option \<times> nat \<times> session) list \<Rightarrow> call list" where
  "enter_calls reads = map (\<lambda>(error, n, s). read_call error n s) reads"

lemma entered:
  assumes "i < length reads" "reads ! i = (error, n, s)"
  shows "enter_calls reads ! i = read_call error n s"
  using assms by (simp add: enter_calls_def)

section \<open>Properties\<close>

text \<open>
  C22. Sessions served at the same time do not disturb one another: with handlers that keep to
  themselves (all but the status page, the Markdown page and the proxy), however the threads take
  turns inside \<open>handle_read\<close>, every session whose call returns has got the value, the reply and the
  journal that \<open>handle_read\<close> gives it when it runs alone; and unless a fault ends the process, every
  call to which the scheduler gives ten turns returns.
\<close>

theorem overlapping_reads_isolated:
  assumes "local_table hs" "boost_replace (replace_all (env svc))"
    and "list_all (\<lambda>(error, n, s). fresh s \<and> n \<le> max_length) reads"
    and "run_calls svc hs turns (enter_calls reads, p) = Inr (calls, p')"
    and "i < length reads" "reads ! i = (error, n, s)"
  shows "(10 \<le> count_list turns i \<longrightarrow> (\<exists>status. stage_of (calls ! i) = Returned status))
    \<and> (\<forall>status. stage_of (calls ! i) = Returned status \<longrightarrow>
         (\<forall>q. world q = world p \<longrightarrow> (\<exists>q'. handle_read svc hs error n s q = Some (Inr (status, owner (calls ! i), q')))))"
proof -
  note call = entered [OF assms(5,6)]
  have len: "length (enter_calls reads) = length reads" by (simp add: enter_calls_def)
  have "list_all (well_read svc) (enter_calls reads)"
    using assms(3) by (auto simp: enter_calls_def list_all_iff well_read_def read_call_def)
  from run_advances [OF assms(1,2,4) this, of i] have left: "turns_left (again (calls ! i)) (stage_of (calls ! i)) \<le> 10 - count_list turns i"
    using assms(5) len by (simp add: call, simp add: read_call_def)
  have finished: "\<exists>status. st = Returned status" if "turns_left ag st = 0" for ag st
    using that by (cases "(ag, st)" rule: turns_left.cases) (auto split: if_splits)
  have "list_all2 (on_the_way svc hs (world p)) (enter_calls reads) (enter_calls reads)"
    by (auto simp: enter_calls_def list_all2_conv_all_nth entered_on_the_way split: prod.splits)
  from run_on_the_way [OF assms(1,4) this] have "on_the_way svc hs (world p) (read_call error n s) (calls ! i)"
    using assms(5) len call by (metis list_all2_nthD)
  then have "reads_to svc hs (world p) error n s status (owner (calls ! i))" if "stage_of (calls ! i) = Returned status" for status
    using that by (simp add: on_the_way_def read_call_def)
  then show ?thesis using left finished by (auto simp: reads_to_def)
qed

text \<open>Two requests for a health page whose calls take turns piece by piece.\<close>

lemma health_turns:
  assumes "read_request (replace_all (env svc)) s n = Inr (Good, s1)" "dispatch hs (req_obj s1) = Some HealthHandler"
  shows "\<exists>c p'. run_calls svc hs (concat (replicate 10 [0, 1])) ([read_call None n s, read_call None n s], p) = Inr ([c, c], p')
    \<and> stage_of c = Returned 0"
proof -
  have turns: "concat (replicate 10 [0, 1]) = concat (replicate 7 [0, 1]) @ concat (replicate 3 [0, 1 :: nat])"
    by (simp add: numeral_eq_Suc)
  have "\<exists>c p'. run_calls svc hs (concat (replicate 7 [0, 1])) ([read_call None n s, read_call None n s], p) = Inr ([c, c], p')
      \<and> stage_of c = Returned 0"
    using assms by (simp add: numeral_eq_Suc call_turn_def read_call_def make_reply_def send_reply_def split_def)
  moreover have "run_calls svc hs (concat (replicate 3 [0, 1])) ([c, c], p') = Inr ([c, c], p')"
    if "stage_of c = Returned 0" for c p'
    using that by (simp add: numeral_eq_Suc call_turn_def)
  ultimately show ?thesis unfolding turns run_calls_append by auto
qed

theorem overlapping_reads_isolated_witness:
  "\<exists>s' q'. handle_read sample_services sample_table None
        (length (request_text ''GET'' ''/health'' ''1'' ''1'' [Field ''Host'' ''a'']))
        (sample_session (request_text ''GET'' ''/health'' ''1'' ''1'' [Field ''Host'' ''a''])) sample_process
      = Some (Inr (0, s', q'))"
proof -
  let ?t = "request_text ''GET'' ''/health'' ''1'' ''1'' [Field ''Host'' ''a'']"
  let ?s = "sample_session ?t"
  have len: "length ?t < max_length"
    by (simp add: request_text_def request_line_def hlines_text_def max_length_def)
  have "read_request (replace_all (env sample_services)) ?s (length ?t) =
      Inr (Good, ?s\<lparr>parser_obj := parser_at S_expecting_newline_3, req_obj := received_request ?s ''/health'' ''1'' ''1'' [Field ''Host'' ''a'']\<rparr>)"
    using len sample_fresh [of ?t] sample_text [OF len]
    by (intro read_good [OF _ _ _ sample_request_ok, where body = "[]"]) auto
  moreover have "dispatch sample_table (received_request ?s ''/health'' ''1'' ''1'' [Field ''Host'' ''a'']) = Some HealthHandler"
    by (rule sample_dispatch)
       (simp add: received_request_def parsed_request_def sample_session_def new_session_def new_request_def)
  ultimately obtain c p' where run: "run_calls sample_services sample_table (concat (replicate 10 [0, 1]))
      ([read_call None (length ?t) ?s, read_call None (length ?t) ?s], sample_process) = Inr ([c, c], p')" "stage_of c = Returned 0"
    using health_turns [of sample_services ?s "length ?t" _ sample_table sample_process] by auto
  have reads: "enter_calls (replicate 2 (None, length ?t, ?s)) = [read_call None (length ?t) ?s, read_call None (length ?t) ?s]"
    by (simp add: enter_calls_def numeral_2_eq_2)
  have "local_table sample_table" by (simp add: local_table_def sample_table_def)
  moreover have "list_all (\<lambda>(error, n, s). fresh s \<and> n \<le> max_length) (replicate 2 (None, length ?t, ?s))"
    using len sample_fresh [of ?t] by (simp add: numeral_2_eq_2)
  ultimately show ?thesis
    using overlapping_reads_isolated [OF _ sample_replace(2) _ run(1) [folded reads], of 0 None "length ?t" ?s] run(2)
    by auto
qed

end
