(* ===== verification/Server.thy ===== *)
theory Server
  imports Session
begin

text \<open>
  \<open>server\<close> and \<open>main\<close> (\<open>src/server.cc\<close>, \<open>src/server_main.cc\<close>): the start of the program and, as a step
  relation, the completion handlers in the order in which \<open>io_service\<close> runs them. A step is one
  handler; the code runs handlers on several threads without locking the statistics, so the relation
  covers the executions in which no two handlers overlap.
\<close>

section \<open>main\<close>

text \<open>
  What \<open>main\<close> does, and what it logs: it returns an exit code, or serves with a number of threads. \<open>bind port\<close> is whether
  the acceptor can be opened, \<open>cores\<close> what \<open>hardware_concurrency()\<close> returns. Since an accept is always
  pending a thread of \<open>run\<close> never finishes, but without any thread \<open>run\<close> returns at once. \<open>main\<close>
  catches every \<open>std::exception\<close>, blames the port for it and returns 0; a fault that is not an
  exception is undefined behaviour.
\<close>

datatype startup = Exit int | Serve nat handlers statistics | Abort cpp_fault

fun std_exception :: "cpp_fault \<Rightarrow> bool" where
  "std_exception OutOfRange = True"
| "std_exception InvalidArgument = True"
| "std_exception (RuntimeError msg) = True"
| "std_exception e = False"

type_synonym journal = "(severity_level \<times> string) list"

definition port_blamed :: "severity_level \<times> string" where
  "port_blamed = log_message ''Port binding issue. Address already in use'' ERROR"

definition main_fault :: "journal \<Rightarrow> cpp_fault \<Rightarrow> journal \<times> startup" where
  "main_fault j e = (if std_exception e then (j @ [port_blamed], Exit 0) else (j, Abort e))"

text \<open>\<open>server::run\<close>: a record for each thread it starts.\<close>

definition run_server :: "nat \<Rightarrow> handlers \<Rightarrow> statistics \<Rightarrow> journal \<Rightarrow> journal \<times> startup" where
  "run_server cores hs s j =
     (j @ map (\<lambda>i. log_message (''New Thread Created with ID: '' @ to_string i) NOTIFICATION) [0..<cores],
      if cores = 0 then Exit 0 else Serve cores hs s)"

text \<open>The handler of \<open>SIGINT\<close> leaves with 1.\<close>

definition handle_close :: "journal \<Rightarrow> journal \<times> startup" where
  "handle_close j = (j @ [log_message ''Server shut down from SIGINT'' NORMAL], Exit 1)"

definition server_main ::
  "nat \<Rightarrow> 'w environment \<Rightarrow> (int \<Rightarrow> bool) \<Rightarrow> (string \<Rightarrow> string option) \<Rightarrow> string list \<Rightarrow> journal \<times> startup" where
  "server_main cores boost bind open_file args =
     (let j = [log_message ''Server start up'' NORMAL]
      in case args of
           [prog, config_file] \<Rightarrow>
             (case get_port config_file (open_file config_file) [] of
                Inl e \<Rightarrow> main_fault j e
              | Inr (port, config) \<Rightarrow>
                  (if sint port < 0 \<or> 65535 < sint port
                   then (j @ [log_message (''Invalid port provided: '' @ int_to_string (sint port)) CRITICAL], Exit 2)
                   else let j = j @ [log_message ''Valid configuration received. Server initialization sequence started.'' NORMAL]
                        in if \<not> bind (sint port) then (j @ [port_blamed], Exit 0)
                           else case new_dispatcher boost config new_statistics of
                                  Inl e \<Rightarrow> main_fault j e
                                | Inr (hs, s) \<Rightarrow> run_server cores hs s
                                    (j @ [log_message (''Server initialized and listening on port: ''
                                            @ int_to_string (sint port)) NORMAL])))
         | _ \<Rightarrow> (j @ [log_message ''Server started with improper arguements. Usage: ./server ./nginx_config'' CRITICAL],
                 Exit 1))"

section \<open>The running server\<close>

text \<open>
  Where a session is: its read is pending, its reply is being written (with the value \<open>handle_read\<close>
  returned), the write has completed, or its read failed and nothing is pending for it.
\<close>

datatype phase = Reading | Writing int | Written int | Abandoned

text \<open>
  \<open>accepting\<close> is the session made by \<open>start_accept\<close> for the next connection, \<open>accept_log\<close> what
  \<open>handle_accept\<close> has logged.
\<close>

record 'w server =
  table :: handlers
  accepting :: "session option"
  sessions :: "(session \<times> phase) list"
  process :: "'w process"
  accept_log :: journal

datatype 'w system = Running "'w server" | Crashed cpp_fault

text \<open>A session as \<open>new\<close> leaves it: the buffer, the method and the version numbers hold anything.\<close>

definition blank_session :: "session \<Rightarrow> bool" where
  "blank_session s \<longleftrightarrow> (\<exists>mem mt v w. length mem = max_length \<and> s = new_session mem (new_request mt v w) None)"

definition start_accept :: "session \<Rightarrow> 'w server \<Rightarrow> 'w server" where
  "start_accept s sv = sv\<lparr>accepting := Some s\<rparr>"

definition start_session :: "string option \<Rightarrow> session \<Rightarrow> 'w server \<Rightarrow> 'w server" where
  "start_session ip s sv = sv\<lparr>sessions := sessions sv @ [(s\<lparr>remote := ip\<rparr>, Reading)]\<rparr>"

text \<open>\<open>handle_accept\<close>: on an error the session is dropped; the next accept is started in any case.\<close>

definition handle_accept :: "string option \<Rightarrow> string option \<Rightarrow> session \<Rightarrow> session \<Rightarrow> 'w server \<Rightarrow> 'w server" where
  "handle_accept error ip s next_session sv =
     start_accept next_session
       (case error of
          None \<Rightarrow> start_session ip s
            (sv\<lparr>accept_log := accept_log sv @ [log_message ''New session connected to server.'' NOTIFICATION]\<rparr>)
        | Some msg \<Rightarrow>
            sv\<lparr>accept_log := accept_log sv @ [log_message (''Server could not accept session: '' @ msg) ERROR]\<rparr>)"

definition after_read :: "string option \<Rightarrow> int \<Rightarrow> phase" where
  "after_read error status = (if error = None then Writing status else Abandoned)"

inductive server_step :: "('z, 'w) services \<Rightarrow> 'w system \<Rightarrow> 'w system \<Rightarrow> bool" for svc where
  accepted:
    "accepting sv = Some s \<Longrightarrow> blank_session fresh_session \<Longrightarrow>
     server_step svc (Running sv) (Running (handle_accept error ip s fresh_session (sv\<lparr>accepting := None\<rparr>)))"
| read_done:
    "i < length (sessions sv) \<Longrightarrow> sessions sv ! i = (s, Reading) \<Longrightarrow> length bytes \<le> max_length \<Longrightarrow>
     handle_read svc (table sv) error (length bytes) (receive bytes s) (process sv) = Some (Inr (status, s', p)) \<Longrightarrow>
     server_step svc (Running sv)
       (Running (sv\<lparr>sessions := (sessions sv)[i := (s', after_read error status)], process := p\<rparr>))"
| read_faults:
    "i < length (sessions sv) \<Longrightarrow> sessions sv ! i = (s, Reading) \<Longrightarrow> length bytes \<le> max_length \<Longrightarrow>
     handle_read svc (table sv) error (length bytes) (receive bytes s) (process sv) = Some (Inl e) \<Longrightarrow>
     server_step svc (Running sv) (Crashed e)"
| write_done:
    "i < length (sessions sv) \<Longrightarrow> sessions sv ! i = (s, Writing status) \<Longrightarrow> handle_write error s = (code, s') \<Longrightarrow>
     server_step svc (Running sv) (Running (sv\<lparr>sessions := (sessions sv)[i := (s', Written status)]\<rparr>))"

inductive reachable :: "('z, 'w) services \<Rightarrow> 'w server \<Rightarrow> 'w system \<Rightarrow> bool" for svc sv0 where
  start: "reachable svc sv0 (Running sv0)"
| step: "reachable svc sv0 sy \<Longrightarrow> server_step svc sy sy' \<Longrightarrow> reachable svc sv0 sy'"

text \<open>The server that the constructor makes: the first accept is pending, no session exists.\<close>

definition new_server :: "handlers \<Rightarrow> statistics \<Rightarrow> 'w \<Rightarrow> session \<Rightarrow> 'w server" where
  "new_server hs st w s =
     start_accept s \<lparr>table = hs, accepting = None, sessions = [],
       process = \<lparr>world = w, client_pool = None, stats = st\<rparr>, accept_log = []\<rparr>"

inductive_simps crashed_step: "server_step svc (Crashed e) sy"

section \<open>What one call of handle_read does\<close>

lemma make_reply_effect:
  assumes "make_reply svc hs c s p = Some (Inr (r, s', p'))"
  shows "(\<exists>h. s' = s\<lparr>handler := h, rep := Some r\<rparr>) \<and> same_statistics (stats p) (stats p')"
proof (cases "dispatch hs (req_obj s)")
  case None
  with assms show ?thesis by (auto simp: make_reply_def Let_def same_statistics_def)
next
  case (Some h)
  with assms obtain res where "handle_request (lib svc) (env svc) (net svc) (db_uri svc) h (req_obj s) p = Some (res, p')"
      "\<exists>h. s' = s\<lparr>handler := h, rep := Some r\<rparr>"
    by (auto simp: make_reply_def Let_def split: option.splits prod.splits sum.splits)
  then show ?thesis by (auto dest: handlers.quiet)
qed

lemma send_reply_effect:
  "send_reply r s = Inr s' \<Longrightarrow> sent s' = sent s @ [wire r] \<and> req_obj s' = req_obj s \<and> rep s' = rep s"
  by (auto simp: send_reply_def split: option.splits)

lemma answer_good_effect:
  assumes "answer_good svc hs s p = Some (Inr (status, s', p'))"
  shows "status = 0 \<and> req_obj s' = req_obj s
    \<and> (\<exists>r. sent s' = sent s @ [wire r] \<and> codes_of (stats p') =
          (codes_of (stats p))(req_uri (req_obj s) := codes_of (stats p) (req_uri (req_obj s)) @ [status_value (rep_code r)]))"
  using assms unfolding answer_good_def
  by (auto simp: fault_simps record_code_def fun_eq_iff same_statistics_def dest!: make_reply_effect send_reply_effect)

lemma answer_bad_effect:
  assumes "answer_bad svc hs s p = Some (Inr (status, s', p'))"
  shows "status = 1 \<and> (\<exists>r. sent s' = sent s @ [wire r]) \<and> codes_of (stats p') = codes_of (stats p)"
  using assms unfolding answer_bad_def
  by (auto simp: fault_simps same_statistics_def dest!: make_reply_effect send_reply_effect)

lemma codes_of_count [simp]: "codes_of (stats (count_request p)) = codes_of (stats p)"
  by (simp add: count_request_def codes_of_def fun_eq_iff)

lemma sent_read: "read_request f s n = Inr (res, s') \<Longrightarrow> sent s' = sent s"
  by (auto simp: read_request_def parse_buffer_def Let_def fault_simps split: if_splits)

lemma handle_read_effect:
  assumes "boost_replace (replace_all (env svc))" "fresh s" "n \<le> max_length"
    and "handle_read svc hs None n s p = Some (Inr (status, s', p'))"
  shows "(\<exists>r. sent s' = sent s @ [wire r]
      \<and> (status = 0 \<longrightarrow> codes_of (stats p') =
          (codes_of (stats p))(req_uri (req_obj s') := codes_of (stats p) (req_uri (req_obj s')) @ [status_value (rep_code r)])))
    \<and> (status \<noteq> 0 \<longrightarrow> codes_of (stats p') = codes_of (stats p))"
proof (cases "read_request (replace_all (env svc)) s n")
  case (Inl e)
  then show ?thesis using assms(4) by (subst (asm) handle_read.simps) (simp add: Let_def)
next
  case (Inr res)
  then obtain t s1 where r: "read_request (replace_all (env svc)) s n = Inr (t, s1)" by (cases res) auto
  have sent1: "sent s1 = sent s" by (rule sent_read [OF r])
  note go = assms(4) [unfolded handle_read.simps [of svc hs None n s p] r, simplified Let_def option.case sum.case prod.case]
  show ?thesis
  proof (cases t)
    case Good
    with go answer_good_effect [of svc hs "log_read t s1" "count_request p" status s' p'] sent1 show ?thesis by auto
  next
    case Bad
    with go answer_bad_effect [of svc hs "log_read t s1" "count_request p" status s' p'] sent1 show ?thesis by auto
  next
    case Indeterminate
    with r have "read_request (replace_all (env svc)) s n = Inr (Indeterminate, s1)" by simp
    from handle_read_unfinished [OF assms(1-3) this, of hs p] obtain q where
      q: "handle_read svc hs None n s p = map_option (\<lambda>res. rbind res (\<lambda>(status, s, p). Inr (- 1, s, p)))
        (answer_bad svc hs q (count_request (count_request p)))" "sent q = sent s1"
      by auto
    with assms(4) obtain st where "answer_bad svc hs q (count_request (count_request p)) = Some (Inr (st, s', p'))" "status = - 1"
      by (auto simp: fault_simps)
    with answer_bad_effect [OF this(1)] q(2) sent1 show ?thesis by auto
  qed
qed

lemma handle_read_error:
  "handle_read svc hs (Some msg) n s p = Some (Inr (- 1, log_error (''Session read error: '' @ msg) s, count_request p))"
  by (subst handle_read.simps) (simp add: Let_def)

section \<open>The invariant\<close>

fun session_ok :: "session \<times> phase \<Rightarrow> bool" where
  "session_ok (s, Reading) \<longleftrightarrow> (\<exists>s0 ip. blank_session s0 \<and> s = s0\<lparr>remote := ip\<rparr>)"
| "session_ok (s, Writing status) \<longleftrightarrow> (\<exists>r. sent s = [wire r])"
| "session_ok (s, Written status) \<longleftrightarrow> (\<exists>r. sent s = [wire r])"
| "session_ok (s, Abandoned) \<longleftrightarrow> sent s = []"

definition answered :: "string \<Rightarrow> session \<times> phase \<Rightarrow> bool" where
  "answered uri = (\<lambda>(s, ph). (ph = Writing 0 \<or> ph = Written 0) \<and> req_uri (req_obj s) = uri)"

definition server_inv :: "'w server \<Rightarrow> bool" where
  "server_inv sv \<longleftrightarrow> (\<exists>s. accepting sv = Some s \<and> blank_session s) \<and> list_all session_ok (sessions sv)
     \<and> (\<forall>uri. length (codes_of (stats (process sv)) uri) = length (filter (answered uri) (sessions sv)))"

lemma blank_receive:
  assumes "blank_session s" "length bytes \<le> max_length"
  shows "fresh (receive bytes (s\<lparr>remote := ip\<rparr>))" "sent (receive bytes (s\<lparr>remote := ip\<rparr>)) = []"
  using assms by (auto simp: blank_session_def new_session_def new_request_def fresh_def receive_def write_at_def)

lemma filter_update:
  assumes "i < length xs"
  shows "length (filter P (xs[i := y])) + (if P (xs ! i) then 1 else 0)
    = length (filter P xs) + (if P y then 1 else 0)"
proof -
  have "xs = take i xs @ xs ! i # drop (Suc i) xs" by (rule id_take_nth_drop [OF assms])
  then have "length (filter P xs) = length (filter P (take i xs @ xs ! i # drop (Suc i) xs))" by simp
  then show ?thesis using assms by (simp add: upd_conv_take_nth_drop)
qed

lemma list_all_update: "list_all P xs \<Longrightarrow> P y \<Longrightarrow> list_all P (xs[i := y])"
  by (simp add: list_all_iff set_update_subset_insert [THEN subsetD, THEN insertE])
     (metis insertE set_update_subset_insert subsetD)

text \<open>How a read that returns leaves the session: abandoned, refused, or answered for its target.\<close>

lemma read_outcome:
  assumes "boost_replace (replace_all (env svc))" "server_inv sv"
    and "i < length (sessions sv)" "sessions sv ! i = (s, Reading)" "length bytes \<le> max_length"
    and "handle_read svc (table sv) error (length bytes) (receive bytes s) (process sv) = Some (Inr (status, s', p))"
  shows "error \<noteq> None \<and> sent s' = [] \<and> codes_of (stats p) = codes_of (stats (process sv))
    \<or> error = None \<and> (\<exists>r. sent s' = [wire r]
        \<and> (if status = 0
           then codes_of (stats p) = (codes_of (stats (process sv)))
             (req_uri (req_obj s') := codes_of (stats (process sv)) (req_uri (req_obj s')) @ [status_value (rep_code r)])
           else codes_of (stats p) = codes_of (stats (process sv))))"
proof -
  have "session_ok (s, Reading)"
    using assms(2-4) by (metis list_all_length server_inv_def)
  then obtain s0 ip where blank: "blank_session s0" "s = s0\<lparr>remote := ip\<rparr>" by auto
  note fr = blank_receive [OF blank(1) assms(5), of ip]
  show ?thesis
  proof (cases error)
    case None
    then have "handle_read svc (table sv) None (length bytes) (receive bytes s) (process sv) = Some (Inr (status, s', p))"
      using assms(6) by simp
    from handle_read_effect [OF assms(1) _ assms(5) this] fr blank(2) None show ?thesis by auto
  next
    case (Some msg)
    with assms(6) fr blank(2) show ?thesis by (auto simp: handle_read_error)
  qed
qed

lemma inv_read:
  assumes "boost_replace (replace_all (env svc))" "server_inv sv"
    and "i < length (sessions sv)" "sessions sv ! i = (s, Reading)" "length bytes \<le> max_length"
    and "handle_read svc (table sv) error (length bytes) (receive bytes s) (process sv) = Some (Inr (status, s', p))"
  shows "server_inv (sv\<lparr>sessions := (sessions sv)[i := (s', after_read error status)], process := p\<rparr>)"
proof -
  have "session_ok (s', after_read error status)
    \<and> (\<forall>uri. length (codes_of (stats p) uri) = length (codes_of (stats (process sv)) uri)
          + (if answered uri (s', after_read error status) then 1 else 0))"
    using read_outcome [OF assms] by (cases "status = 0") (auto simp: after_read_def answered_def)
  moreover have "length (filter (answered uri) ((sessions sv)[i := x])) =
      length (filter (answered uri) (sessions sv)) + (if answered uri x then 1 else 0)" for uri x
    using filter_update [OF assms(3), of "answered uri" x] assms(4) by (simp add: answered_def)
  ultimately show ?thesis
    using assms(2) by (auto simp: server_inv_def list_all_update)
qed

lemma inv_write:
  assumes "server_inv sv" "i < length (sessions sv)" "sessions sv ! i = (s, Writing status)"
    and "handle_write error s = (code, s')"
  shows "server_inv (sv\<lparr>sessions := (sessions sv)[i := (s', Written status)]\<rparr>)"
proof -
  have "session_ok (s, Writing status)"
    using assms(1-3) by (metis list_all_length server_inv_def)
  moreover have "sent s' = sent s" "req_obj s' = req_obj s"
    using assms(4) by (auto simp: handle_write_def split: option.splits)
  ultimately have "session_ok (s', Written status)" "answered uri (s', Written status) = answered uri (s, Writing status)" for uri
    by (simp_all add: answered_def)
  then show ?thesis
    using assms(1) filter_update [OF assms(2), of "answered uri" "(s', Written status)" for uri] assms(3)
    by (auto simp: server_inv_def list_all_update)
qed

lemma step_inv:
  assumes "boost_replace (replace_all (env svc))" "server_inv sv" "server_step svc (Running sv) (Running sv')"
  shows "server_inv sv'"
  using assms(3)
proof (cases rule: server_step.cases)
  case (accepted s fresh_session error ip)
  with assms(2) show ?thesis
    by (cases error) (auto simp: handle_accept_def start_accept_def start_session_def server_inv_def answered_def)
next
  case (read_done i s bytes error status s' p)
  with inv_read [OF assms(1,2)] show ?thesis by simp
next
  case (write_done i s status error code s')
  with inv_write [OF assms(2)] show ?thesis by simp
qed

lemma reachable_inv:
  assumes "reachable svc sv0 sy" "boost_replace (replace_all (env svc))" "server_inv sv0"
  shows "\<forall>sv. sy = Running sv \<longrightarrow> server_inv sv"
  using assms(1)
proof induction
  case (step sy sy')
  then show ?case using step_inv [OF assms(2)] by (cases sy) (auto simp: crashed_step)
qed (use assms(3) in simp)

lemma new_server_inv:
  assumes "blank_session s" "request_code_received st = []"
  shows "server_inv (new_server hs st w s)"
  using assms by (simp add: server_inv_def new_server_def start_accept_def codes_of_def)

lemma reachable_table:
  assumes "reachable svc sv0 sy"
  shows "\<forall>sv. sy = Running sv \<longrightarrow> table sv = table sv0"
  using assms
proof induction
  case (step sy sy')
  from step(2,3) show ?case
    by cases (auto simp: handle_accept_def start_accept_def start_session_def split: option.splits)
qed simp

text \<open>
  No session object is ever deleted: in every reachable state there is one for each connection that
  has been accepted, also for those that are served or lost, and each holds its socket
  (\<open>handle_write\<close> shuts the connection down, but does not close the socket).
\<close>

lemma sessions_accumulate:
  assumes "reachable svc sv0 sy" "sessions sv0 = []" "accept_log sv0 = []"
  shows "\<forall>sv. sy = Running sv \<longrightarrow> length (sessions sv) =
    length (filter (\<lambda>r. r = log_message ''New session connected to server.'' NOTIFICATION) (accept_log sv))"
  using assms(1)
proof induction
  case (step sy sy')
  from step(2,3) show ?case
    by cases (auto simp: handle_accept_def start_accept_def start_session_def split: option.splits)
qed (use assms(2,3) in simp)

section \<open>The board: what the server promises\<close>

text \<open>
  An abstract server: one entry for each connection it has taken, and the codes recorded for each
  target. An entry is waiting, or lost, or holds the texts that the client is sent; of an answered
  connection it also holds the target that it is answered for. \<open>None\<close> is a server that has crashed.
\<close>

datatype entry =
    Waiting
  | Answering string "string list"
  | Refusing "string list"
  | Answered string "string list"
  | Refused "string list"
  | Lost

record board =
  entries :: "entry list"
  codes :: "string \<Rightarrow> nat list"

text \<open>
  What may happen: a connection comes or is turned away; a waiting one is answered for a target with
  the text of one reply, and the code of that reply is recorded for that target; it is refused with the
  text of one reply and nothing is recorded; it is lost; a reply has been written; a waiting connection
  crashes the server.
\<close>

inductive board_step :: "board option \<Rightarrow> board option \<Rightarrow> bool" where
  connect: "board_step (Some b) (Some (b\<lparr>entries := entries b @ [Waiting]\<rparr>))"
| turn_away: "board_step (Some b) (Some b)"
| answer: "i < length (entries b) \<Longrightarrow> entries b ! i = Waiting \<Longrightarrow> board_step (Some b)
    (Some (b\<lparr>entries := (entries b)[i := Answering uri [wire r]],
             codes := (codes b)(uri := codes b uri @ [status_value (rep_code r)])\<rparr>))"
| refuse: "i < length (entries b) \<Longrightarrow> entries b ! i = Waiting \<Longrightarrow>
    board_step (Some b) (Some (b\<lparr>entries := (entries b)[i := Refusing [wire r]]\<rparr>))"
| lose: "i < length (entries b) \<Longrightarrow> entries b ! i = Waiting \<Longrightarrow>
    board_step (Some b) (Some (b\<lparr>entries := (entries b)[i := Lost]\<rparr>))"
| answer_written: "i < length (entries b) \<Longrightarrow> entries b ! i = Answering uri ts \<Longrightarrow>
    board_step (Some b) (Some (b\<lparr>entries := (entries b)[i := Answered uri ts]\<rparr>))"
| refusal_written: "i < length (entries b) \<Longrightarrow> entries b ! i = Refusing ts \<Longrightarrow>
    board_step (Some b) (Some (b\<lparr>entries := (entries b)[i := Refused ts]\<rparr>))"
| crash: "i < length (entries b) \<Longrightarrow> entries b ! i = Waiting \<Longrightarrow> board_step (Some b) None"

text \<open>
  A session whose call has returned 0 counts as answered for the target of its request, any other value
  is a refusal.
\<close>

fun entry_of :: "session \<times> phase \<Rightarrow> entry" where
  "entry_of (s, Reading) = Waiting"
| "entry_of (s, Writing status) = (if status = 0 then Answering (req_uri (req_obj s)) (sent s) else Refusing (sent s))"
| "entry_of (s, Written status) = (if status = 0 then Answered (req_uri (req_obj s)) (sent s) else Refused (sent s))"
| "entry_of (s, Abandoned) = Lost"

fun board_of :: "'w system \<Rightarrow> board option" where
  "board_of (Crashed e) = None"
| "board_of (Running sv) = Some
     \<lparr>entries = map entry_of (sessions sv), codes = codes_of (stats (process sv))\<rparr>"

lemma board_read:
  assumes "boost_replace (replace_all (env svc))" "server_inv sv"
    and "i < length (sessions sv)" "sessions sv ! i = (s, Reading)" "length bytes \<le> max_length"
    and "handle_read svc (table sv) error (length bytes) (receive bytes s) (process sv) = Some (Inr (status, s', p))"
  shows "board_step (board_of (Running sv))
    (board_of (Running (sv\<lparr>sessions := (sessions sv)[i := (s', after_read error status)], process := p\<rparr>)))"
proof -
  let ?b = "\<lparr>entries = map entry_of (sessions sv), codes = codes_of (stats (process sv))\<rparr>"
  have i: "i < length (entries ?b)" "entries ?b ! i = Waiting" using assms(3,4) by simp_all
  show ?thesis
  proof (cases error)
    case None
    from read_outcome [OF assms] None obtain r where r: "sent s' = [wire r]"
      "if status = 0
       then codes_of (stats p) = (codes_of (stats (process sv)))
         (req_uri (req_obj s') := codes_of (stats (process sv)) (req_uri (req_obj s')) @ [status_value (rep_code r)])
       else codes_of (stats p) = codes_of (stats (process sv))" by auto
    show ?thesis
    proof (cases "status = 0")
      case True
      with None r answer [OF i, of "req_uri (req_obj s')" r] show ?thesis by (simp add: after_read_def map_update)
    next
      case False
      with None r refuse [OF i, of r] show ?thesis by (simp add: after_read_def map_update)
    qed
  next
    case (Some msg)
    with read_outcome [OF assms] lose [OF i] show ?thesis by (simp add: after_read_def map_update)
  qed
qed

lemma board_written:
  assumes "i < length (sessions sv)" "sessions sv ! i = (s, Writing status)" "handle_write error s = (code, s')"
  shows "board_step (board_of (Running sv)) (board_of (Running (sv\<lparr>sessions := (sessions sv)[i := (s', Written status)]\<rparr>)))"
proof -
  let ?b = "\<lparr>entries = map entry_of (sessions sv), codes = codes_of (stats (process sv))\<rparr>"
  have s': "sent s' = sent s" "req_obj s' = req_obj s"
    using assms(3) by (auto simp: handle_write_def split: option.splits)
  have i: "i < length (entries ?b)" "entries ?b ! i = entry_of (s, Writing status)" using assms(1,2) by simp_all
  show ?thesis
  proof (cases "status = 0")
    case True
    with i s' answer_written [of i ?b "req_uri (req_obj s)" "sent s"] show ?thesis by (simp add: map_update)
  next
    case False
    with i s' refusal_written [of i ?b "sent s"] show ?thesis by (simp add: map_update)
  qed
qed

lemma board_simulates:
  assumes "boost_replace (replace_all (env svc))" "server_inv sv" "server_step svc (Running sv) sy"
  shows "board_step (board_of (Running sv)) (board_of sy)"
  using assms(3)
proof (cases rule: server_step.cases)
  case (accepted s fresh_session error ip)
  let ?b = "\<lparr>entries = map entry_of (sessions sv), codes = codes_of (stats (process sv))\<rparr>"
  from accepted show ?thesis
    using connect [of ?b] turn_away [of ?b]
    by (cases error) (simp_all add: handle_accept_def start_accept_def start_session_def)
next
  case (read_done i s bytes error status s' p)
  with board_read [OF assms(1,2)] show ?thesis by simp
next
  case (read_faults i s bytes error e)
  then show ?thesis
    using crash [of i "\<lparr>entries = map entry_of (sessions sv), codes = codes_of (stats (process sv))\<rparr>"] by simp
next
  case (write_done i s status error code s')
  with board_written show ?thesis by simp
qed

section \<open>Properties\<close>

definition blank_sample :: session where
  "blank_sample = new_session (replicate max_length NUL) (new_request None 0 0) None"

lemma session_ok_sent:
  "session_ok x \<Longrightarrow> (case x of (s, ph) \<Rightarrow> (case ph of
       Reading \<Rightarrow> sent s = []
     | Writing status \<Rightarrow> length (sent s) = 1
     | Written status \<Rightarrow> length (sent s) = 1
     | Abandoned \<Rightarrow> sent s = []))"
  by (cases x rule: session_ok.cases) (auto simp: blank_session_def new_session_def)

lemma blank_sample: "blank_session blank_sample"
  unfolding blank_session_def blank_sample_def by (intro exI conjI) (rule length_replicate, rule refl)

text \<open>A server on which one connection has been accepted, to apply the properties to.\<close>

definition accepted_sample :: "string server" where
  "accepted_sample = handle_accept None None blank_sample blank_sample
     ((new_server sample_table new_statistics [] blank_sample)\<lparr>accepting := None\<rparr>)"

lemma no_codes: "request_code_received new_statistics = []"
  by (simp add: new_statistics_def)

lemma accepted_sample_step:
  "server_step svc (Running (new_server sample_table new_statistics [] blank_sample)) (Running accepted_sample)"
  unfolding accepted_sample_def
  by (rule accepted [OF _ blank_sample]) (simp add: new_server_def start_accept_def)

lemmas accepted_sample_reachable = step [OF start accepted_sample_step]

lemma accepted_sample_sessions: "sessions accepted_sample = [(blank_sample\<lparr>remote := None\<rparr>, Reading)]"
  by (simp add: accepted_sample_def handle_accept_def start_accept_def start_session_def new_server_def)

text \<open>
  C3. In every state the running server can reach the next accept is pending, a session whose read is
  pending has sent nothing, every session that is past it has had exactly one reply handed to its
  socket, and a session whose read failed has had none.
\<close>

theorem server_replies_once:
  assumes "boost_replace (replace_all (env svc))" "blank_session s0" "request_code_received st = []"
    and "reachable svc (new_server hs st w s0) (Running sv)"
  shows "accepting sv \<noteq> None
    \<and> list_all (\<lambda>(s, ph). case ph of
         Reading \<Rightarrow> sent s = []
       | Writing status \<Rightarrow> length (sent s) = 1
       | Written status \<Rightarrow> length (sent s) = 1
       | Abandoned \<Rightarrow> sent s = []) (sessions sv)"
proof -
  have "server_inv sv"
    using reachable_inv [OF assms(4,1) new_server_inv [OF assms(2,3)]] by simp
  then have ok: "list_all session_ok (sessions sv)" "accepting sv \<noteq> None"
    by (auto simp: server_inv_def)
  show ?thesis
    using ok(2) by (intro conjI list.pred_mono_strong [OF ok(1)]) (assumption | rule session_ok_sent)+
qed

theorem server_replies_once_witness:
  "accepting accepted_sample \<noteq> None \<and> sent (fst (sessions accepted_sample ! 0)) = []"
  using server_replies_once [OF sample_replace(2) blank_sample no_codes accepted_sample_reachable]
  by (simp add: accepted_sample_sessions)

text \<open>
  The status page tells the truth: in every state the running server can reach, the number of
  codes recorded for a target is the number of sessions that were answered for it, with a value of 0
  from \<open>handle_read\<close>; refused and failed reads leave no trace in it.
\<close>

theorem recorded_codes_count:
  assumes "boost_replace (replace_all (env svc))" "blank_session s0" "request_code_received st = []"
    and "reachable svc (new_server hs st w s0) (Running sv)"
  shows "length (codes_of (stats (process sv)) uri)
    = length (filter (\<lambda>(s, ph). (ph = Writing 0 \<or> ph = Written 0) \<and> req_uri (req_obj s) = uri) (sessions sv))"
  using reachable_inv [OF assms(4,1) new_server_inv [OF assms(2,3)]]
  by (simp add: server_inv_def answered_def)

theorem recorded_codes_count_witness:
  "codes_of (stats (process accepted_sample)) ''/health'' = []"
  using recorded_codes_count [OF sample_replace(2) blank_sample no_codes accepted_sample_reachable, of "''/health''"]
  by (simp add: accepted_sample_sessions)

text \<open>
  C11. Refinement: every step the running server can take is a step of the abstract board, on which a
  connection is a single entry. When \<open>handle_read\<close> returns 0, the entry of its session goes from waiting to
  answered for the target of its request with the text of exactly one reply, and the code of that same
  reply is appended to the codes of that target, with no other code touched; any other value is a
  refusal, with the text of one reply and no code; a failed read leaves nothing; a completed write
  closes the entry with what was sent. A step concerns one entry, and only a waiting connection can
  crash the server.
\<close>

theorem server_refines_board:
  assumes "boost_replace (replace_all (env svc))" "blank_session s0" "request_code_received st = []"
    and "reachable svc (new_server hs st w s0) sy" "server_step svc sy sy'"
  shows "board_step (board_of sy) (board_of sy')"
proof (cases sy)
  case (Running sv)
  then have "server_inv sv"
    using reachable_inv [OF assms(4,1) new_server_inv [OF assms(2,3)]] by simp
  with board_simulates [OF assms(1)] assms(5) Running show ?thesis by simp
qed (use assms(5) in \<open>simp add: crashed_step\<close>)

theorem server_refines_board_witness:
  "board_step (board_of (Running (new_server sample_table new_statistics ([] :: string) blank_sample)))
     (board_of (Running accepted_sample))"
  by (rule server_refines_board [OF sample_replace(2) blank_sample no_codes start accepted_sample_step])

text \<open>
  C24. What \<open>main\<close> does with a configuration file that prints a configuration whose locations are plain
  (with a block, filed under their own path: no \<open>BadRequestHandler\<close> but at \<open>/badrequest\<close>, no
  \<open>NotFoundHandler\<close> but at \<open>/\<close>): for a port below 32768
  that can be bound it serves, with the table of the configuration's locations and one thread per
  core, or returns 0 at once if the machine reports no cores, and it logs the port and each thread; a
  port from 32768 to 65535, although valid, is taken for a negative one and refused with 2.
\<close>

theorem main_starts:
  assumes "config_ok config" "get_config ''port'' config = to_string n" "n < 65536"
    and "list_all server_ok config" "locations_match boost (server_locations config) rows" "length rows < 2 ^ 64"
    and "open_file conf = Some (config_to_string d config)" "bind (int n)"
  shows "if n < 32768
    then \<exists>hs s. server_main cores boost bind open_file [prog, conf] =
             ([(NORMAL, ''<Normal>: Server start up''),
               (NORMAL, ''<Normal>: Valid configuration received. Server initialization sequence started.''),
               (NORMAL, ''<Normal>: Server initialized and listening on port: '' @ to_string n)]
              @ map (\<lambda>i. (NOTIFICATION, ''<Notification>: New Thread Created with ID: '' @ to_string i)) [0..<cores],
              if cores = 0 then Exit 0 else Serve cores hs s)
           \<and> smap_find hs = map_of (map (\<lambda>(path, h, label). (path, h)) rows)
    else server_main cores boost bind open_file [prog, conf] =
           ([(NORMAL, ''<Normal>: Server start up''),
             (CRITICAL, ''<Critical>: Invalid port provided: -'' @ to_string (65536 - n))], Exit 2)"
proof -
  have port: "get_port conf (open_file conf) [] = Inr (word_of_nat n, config)"
    using get_port_printed [OF assms(1,2), of conf d] assms(3,7) by simp
  show ?thesis
  proof (cases "n < 32768")
    case True
    then show ?thesis
      using port dispatcher_built [OF assms(4-6)] assms(8)
      by (auto simp: server_main_def run_server_def sint_i16_small int_to_string_def)
  next
    case False
    then have "sint (word_of_nat n :: i16) = int n - 65536"
      using sint_i16_large assms(3) by simp
    moreover have "nat (- (int n - 65536)) = 65536 - n" using assms(3) by simp
    ultimately show ?thesis using port False assms(3) by (simp add: server_main_def int_to_string_def)
  qed
qed

lemma sample_config_printed:
  "config_ok sample_config" "get_config ''port'' sample_config = to_string 80"
  by (simp_all add: sample_config_def token_ok_def bare_word_def quoted_def ends_initial_def ends_normal_def to_string.simps)

theorem main_starts_witness:
  "\<exists>hs s. snd (server_main 4 (sample_env :: unit environment) (\<lambda>port. True) (\<lambda>f. Some (config_to_string 0 sample_config)) [[], []])
      = Serve 4 hs s
    \<and> smap_find hs ''/echo'' = Some (Some EchoHandler)"
proof -
  show ?thesis
    using main_starts [OF sample_config_printed _ sample_config_match, of "\<lambda>f. Some (config_to_string 0 sample_config)" "[]" 0 "\<lambda>port. True"
        4 "sample_env :: unit environment" "[]"]
    by (fastforce simp: sample_rows_def)
qed

end
