(* ===== verification/Concurrent_Server.thy ===== *)
theory Concurrent_Server
  imports Overlap Server
begin

text \<open>
  The server with the threads of \<open>server::run\<close> (\<open>src/server.cc\<close>): the step relation of \<open>Server\<close>, in which
  a read is handled in one step, is refined to one in which any number of calls of \<open>handle_read\<close> are
  under way at the same time and take turns piece by piece (\<open>call_turn\<close> of \<open>Overlap\<close>).
\<close>

section \<open>The relation\<close>

text \<open>
  \<open>base\<close> is the server as its handlers know it, where a session stays in the phase \<open>Reading\<close> until the
  call that handles its read has returned; \<open>active i\<close> is the call under way for session \<open>i\<close>.
\<close>

record 'w concurrent =
  base :: "'w server"
  active :: "nat \<Rightarrow> call option"

datatype 'w csystem = Live "'w concurrent" | Dead cpp_fault

inductive concurrent_step :: "('z, 'w) services \<Rightarrow> 'w csystem \<Rightarrow> 'w csystem \<Rightarrow> bool" for svc where
  connection:
    "accepting (base cs) = Some s \<Longrightarrow> blank_session fresh_session \<Longrightarrow>
     concurrent_step svc (Live cs)
       (Live (cs\<lparr>base := handle_accept error ip s fresh_session ((base cs)\<lparr>accepting := None\<rparr>)\<rparr>))"
| read_begun:
    "i < length (sessions (base cs)) \<Longrightarrow> sessions (base cs) ! i = (s, Reading) \<Longrightarrow> active cs i = None \<Longrightarrow>
     length bytes \<le> max_length \<Longrightarrow>
     concurrent_step svc (Live cs)
       (Live (cs\<lparr>active := (active cs)(i \<mapsto> read_call error (length bytes) (receive bytes s))\<rparr>))"
| turn:
    "active cs i = Some c \<Longrightarrow> call_turn svc (table (base cs)) c (process (base cs)) = Inr (c', p) \<Longrightarrow>
     concurrent_step svc (Live cs)
       (Live (cs\<lparr>base := (base cs)\<lparr>process := p\<rparr>, active := (active cs)(i \<mapsto> c')\<rparr>))"
| turn_faults:
    "active cs i = Some c \<Longrightarrow> call_turn svc (table (base cs)) c (process (base cs)) = Inl e \<Longrightarrow>
     concurrent_step svc (Live cs) (Dead e)"
| read_returns:
    "active cs i = Some c \<Longrightarrow> stage_of c = Returned status \<Longrightarrow>
     concurrent_step svc (Live cs)
       (Live (cs\<lparr>base := (base cs)\<lparr>sessions := (sessions (base cs))[i := (owner c, after_read (read_error c) status)]\<rparr>,
                 active := (active cs)(i := None)\<rparr>))"
| write_completed:
    "i < length (sessions (base cs)) \<Longrightarrow> sessions (base cs) ! i = (s, Writing status) \<Longrightarrow>
     handle_write error s = (code, s') \<Longrightarrow>
     concurrent_step svc (Live cs)
       (Live (cs\<lparr>base := (base cs)\<lparr>sessions := (sessions (base cs))[i := (s', Written status)]\<rparr>\<rparr>))"

inductive concurrently :: "('z, 'w) services \<Rightarrow> 'w csystem \<Rightarrow> 'w csystem \<Rightarrow> bool" for svc sy0 where
  begun: "concurrently svc sy0 sy0"
| moved: "concurrently svc sy0 sy \<Longrightarrow> concurrent_step svc sy sy' \<Longrightarrow> concurrently svc sy0 sy'"




section \<open>A call that nobody interrupts\<close>




















section \<open>What holds whenever\<close>



text \<open>
  The connection whose session is \<open>x\<close> and whose call, if one is under way, is \<open>co\<close> has been answered for
  the target \<open>uri\<close> with the code \<open>v\<close>: the reply has been sent, or its code is recorded and it is about to be.
\<close>

definition call_credit :: "string \<Rightarrow> nat \<Rightarrow> call \<Rightarrow> bool" where
  "call_credit uri v c \<longleftrightarrow> req_uri (req_obj (owner c)) = uri
     \<and> (\<exists>r. v = status_value (rep_code r) \<and> (stage_of c = Recorded 0 r \<or> stage_of c = Returned 0 \<and> sent (owner c) = [wire r]))"

definition credit :: "string \<Rightarrow> nat \<Rightarrow> session \<times> phase \<Rightarrow> call option \<Rightarrow> bool" where
  "credit uri v x co \<longleftrightarrow>
     answered uri x \<and> (\<exists>r. v = status_value (rep_code r) \<and> sent (fst x) = [wire r])
     \<or> (\<exists>c. co = Some c \<and> call_credit uri v c)"

definition credits :: "'w concurrent \<Rightarrow> string \<Rightarrow> nat set" where
  "credits cs uri = {i. i < length (sessions (base cs)) \<and> (\<exists>v. credit uri v (sessions (base cs) ! i) (active cs i))}"

text \<open>Codes that were all given, no two by the same connection.\<close>

definition given :: "'w concurrent \<Rightarrow> string \<Rightarrow> nat list \<Rightarrow> bool" where
  "given cs uri ks \<longleftrightarrow> length ks \<le> card (credits cs uri)
     \<and> (\<forall>v \<in> set ks. \<exists>i < length (sessions (base cs)). credit uri v (sessions (base cs) ! i) (active cs i))"



lemma given_Nil [simp]: "given cs uri []"
  by (simp add: given_def)






section \<open>A turn\<close>







section \<open>The invariant\<close>












section \<open>Properties\<close>



text \<open>
  C31. And codes are lost: whenever two calls that have made their replies to the same target are about to
  record them, the threads can take turns in such a way that both calls go on as if they had, and only
  one of the two codes is in the table.
\<close>

theorem overlapping_codes_lost:
  assumes "active cs i = Some c" "active cs j = Some d" "i \<noteq> j"
    and "stage_of c = Made 0 r" "stage_of d = Made 0 r'"
    and "req_uri (req_obj (owner c)) = uri" "req_uri (req_obj (owner d)) = uri"
  shows "\<exists>cs'. concurrently svc (Live cs) (Live cs')
    \<and> active cs' i = Some (c\<lparr>stage_of := Recorded 0 r\<rparr>) \<and> active cs' j = Some (d\<lparr>stage_of := Recorded 0 r'\<rparr>)
    \<and> codes_of (stats (process (base cs'))) uri = codes_of (stats (process (base cs))) uri @ [status_value (rep_code r')]"
proof -
  let ?p = "process (base cs)"
  obtain k1 t1 where f1: "fetch_codes uri (stats ?p) = (k1, t1)" by (cases "fetch_codes uri (stats ?p)")
  obtain k2 t2 where f2: "fetch_codes uri t1 = (k2, t2)" by (cases "fetch_codes uri t1")
  have k2: "k2 = codes_of (stats ?p) uri" using codes_of_fetch [OF f1] codes_of_fetch [OF f2] by simp
  let ?t3 = "store_codes uri (k1 @ [status_value (rep_code r)]) t2"
  let ?t4 = "store_codes uri (k2 @ [status_value (rep_code r')]) ?t3"
  define at where "at a t = cs\<lparr>base := (base cs)\<lparr>process := ?p\<lparr>stats := t\<rparr>\<rparr>, active := a\<rparr>" for a t
  have base [simp]: "table (base (at a t)) = table (base cs)" "process (base (at a t)) = ?p\<lparr>stats := t\<rparr>" "active (at a t) = a"
    "(at a t)\<lparr>base := (base (at a t))\<lparr>process := ?p\<lparr>stats := t'\<rparr>\<rparr>, active := a'\<rparr> = at a' t'" for a t a' t'
    by (simp_all add: at_def)
  have start: "at (active cs) (stats ?p) = cs" by (simp add: at_def)
  have go: "concurrent_step svc (Live (at a t)) (Live (at (a(x \<mapsto> e')) t'))"
    if "a x = Some e" "call_turn svc (table (base cs)) e (?p\<lparr>stats := t\<rparr>) = Inr (e', ?p\<lparr>stats := t'\<rparr>)" for a x e e' t t'
    using turn [of "at a t" x e svc e' "?p\<lparr>stats := t'\<rparr>"] that by simp
  let ?c1 = "c\<lparr>stage_of := Fetched 0 r k1\<rparr>" and ?d1 = "d\<lparr>stage_of := Fetched 0 r' k2\<rparr>"
  let ?c2 = "c\<lparr>stage_of := Recorded 0 r\<rparr>" and ?d2 = "d\<lparr>stage_of := Recorded 0 r'\<rparr>"
  let ?a1 = "(active cs)(i \<mapsto> ?c1)" let ?a2 = "?a1(j \<mapsto> ?d1)" let ?a3 = "?a2(i \<mapsto> ?c2)" let ?a4 = "?a3(j \<mapsto> ?d2)"
  have "concurrent_step svc (Live (at (active cs) (stats ?p))) (Live (at ?a1 t1))"
    by (rule go [of _ _ c]) (use assms(1) in \<open>simp_all add: call_turn_def assms(4,6) f1\<close>)
  moreover have "concurrent_step svc (Live (at ?a1 t1)) (Live (at ?a2 t2))"
    by (rule go [of _ _ d]) (use assms(2,3) in \<open>simp_all add: call_turn_def assms(5,7) f2\<close>)
  moreover have "concurrent_step svc (Live (at ?a2 t2)) (Live (at ?a3 ?t3))"
    by (rule go [of _ _ ?c1]) (use assms(3) in \<open>simp_all add: call_turn_def assms(6)\<close>)
  moreover have "concurrent_step svc (Live (at ?a3 ?t3)) (Live (at ?a4 ?t4))"
    by (rule go [of _ _ ?d1]) (use assms(3) in \<open>simp_all add: call_turn_def assms(7)\<close>)
  ultimately have "concurrently svc (Live cs) (Live (at ?a4 ?t4))"
    unfolding start by (meson begun moved)
  moreover have "codes_of ?t4 uri = codes_of (stats ?p) uri @ [status_value (rep_code r')]"
    by (simp add: codes_of_store k2)
  ultimately show ?thesis using assms(3) by (intro exI [of _ "at ?a4 ?t4"]) simp
qed

text \<open>Two calls that have both made the health page.\<close>

definition made_sample :: call where
  "made_sample = \<lparr>read_error = None, received = 0, owner = blank_sample, stage_of = Made 0 (health_handle (req_obj blank_sample)),
     again = False\<rparr>"

theorem overlapping_codes_lost_witness:
  "\<exists>cs'. concurrently sample_services (Live \<lparr>base = accepted_sample, active = [0 \<mapsto> made_sample, 1 \<mapsto> made_sample]\<rparr>) (Live cs')
    \<and> stage_of (the (active cs' 0)) = Recorded 0 (health_handle (req_obj blank_sample))
    \<and> stage_of (the (active cs' 1)) = Recorded 0 (health_handle (req_obj blank_sample))
    \<and> codes_of (stats (process (base cs'))) (req_uri (req_obj blank_sample))
        = codes_of (stats (process accepted_sample)) (req_uri (req_obj blank_sample)) @ [200]"
  using overlapping_codes_lost [of "\<lparr>base = accepted_sample, active = [0 \<mapsto> made_sample, 1 \<mapsto> made_sample]\<rparr>"
      0 made_sample 1 made_sample "health_handle (req_obj blank_sample)" "health_handle (req_obj blank_sample)"
      "req_uri (req_obj blank_sample)" sample_services]
  by (auto simp: made_sample_def health_handle_def)

end
