(* ===== verification/End_To_End.thy ===== *)
theory End_To_End
  imports Server Static_Paths
begin

text \<open>
  The components together. First the way of one request through the whole program: the configuration
  file that \<open>main\<close> reads, the table it builds, the connection that is accepted, the bytes that arrive
  and the reply that is written. Then two servers of this program behind each other: a reverse proxy
  whose site is a server of the same program.
\<close>

section \<open>From the configuration file to the reply\<close>

text \<open>A connection whose read completes with a well-formed request is answered by the handler.\<close>

lemma blank_received_text:
  assumes "session_ok (s, Reading)" "length bytes \<le> max_length"
  shows "fresh (receive bytes s)" "sent (receive bytes s) = []"
    "take (length bytes) (data_buf (receive bytes s)) = bytes"
    "set (drop (length bytes) (data_buf s)) \<subseteq> set (data_buf (receive bytes s))"
  using assms blank_receive by (auto simp: receive_def write_at_def)

lemma read_answers:
  assumes "session_ok (s, Reading)" "length (request_text m u ma mi ls @ body) \<le> max_length"
    and "NUL \<in> set (drop (length (request_text m u ma mi ls @ body)) (data_buf s))"
    and "request_ok m u ma mi ls" "body = [] \<or> (\<exists>b. body = b @ crlf)"
    and "dispatch hs (received_request (receive (request_text m u ma mi ls @ body) s) u ma mi ls) = Some h"
    and "handle_request (lib svc) (env svc) (net svc) (db_uri svc) h
           (received_request (receive (request_text m u ma mi ls @ body) s) u ma mi ls) (count_request p) = Some (Inr r, q)"
  shows "\<exists>s'. handle_read svc hs None (length (request_text m u ma mi ls @ body))
            (receive (request_text m u ma mi ls @ body) s) p = Some (Inr (0, s', record_code u r q))
    \<and> sent s' = [wire r] \<and> rep s' = Some r"
proof -
  let ?s = "receive (request_text m u ma mi ls @ body) s"
  note blank = blank_received_text [OF assms(1,2)]
  have "NUL \<in> set (data_buf ?s)" using assms(3) blank(4) by blast
  from good_answered [OF blank(1) this assms(2,4) blank(3) assms(5-7)] show ?thesis
    by (auto simp: blank(2))
qed

text \<open>The table that \<open>main\<close> serves with is the one its configuration describes, and no code is recorded.\<close>

lemma main_table:
  assumes "config_ok config" "get_config ''port'' config = to_string n" "n < 65536"
    and "list_all server_ok config" "locations_match boost (server_locations config) rows" "length rows < 2 ^ 64"
    and "open_file conf = Some (config_to_string d config)"
    and "server_main cores boost bind open_file [prog, conf] = (started, Serve threads hs st)"
  shows "smap_find hs = map_of (map (\<lambda>(path, h, label). (path, h)) rows)" "request_code_received st = []"
    "threads = cores"
proof -
  have "get_port conf (open_file conf) [] = Inr (word_of_nat n, config)"
    using get_port_printed [OF assms(1,2), of conf d] assms(3,7) by simp
  moreover obtain hs' st' where t: "new_dispatcher boost config new_statistics = Inr (hs', st')"
      "smap_find hs' = map_of (map (\<lambda>(path, h, label). (path, h)) rows)"
    using dispatcher_built [OF assms(4-6)] by blast
  ultimately have "hs = hs' \<and> st = st' \<and> threads = cores"
    using assms(8) by (auto simp: server_main_def run_server_def Let_def split: if_splits)
  then show "smap_find hs = map_of (map (\<lambda>(path, h, label). (path, h)) rows)" "request_code_received st = []"
      "threads = cores"
    using t new_dispatcher_codes [OF t(1)] no_codes by simp_all
qed

section \<open>A proxy in front of a server\<close>

text \<open>A body without links that start with a slash, as far as \<open>boost::regex_replace\<close> can tell.\<close>

definition no_rooted_links :: "'w network \<Rightarrow> string \<Rightarrow> bool" where
  "no_rooted_links nw body \<longleftrightarrow>
     (\<forall>fmt. boost_regex nw body (''href='' @ [DQUOTE] @ ''/'') fmt = Inr body
       \<and> boost_regex nw body (''src='' @ [DQUOTE] @ ''/'') fmt = Inr body)"

text \<open>A reply that a proxy has no reason to change: no redirect, not packed, nothing to rewrite.\<close>

definition plain_reply :: "'w network \<Rightarrow> reply \<Rightarrow> bool" where
  "plain_reply nw r \<longleftrightarrow> (\<forall>n. rep_code r \<noteq> Unlisted n) \<and> rep_code r \<noteq> Moved_temporarily \<and> rep_code r \<noteq> Moved_permanently
     \<and> smap_ok (rep_headers r) \<and> (\<forall>h \<in> set (rep_headers r). plain_header h) \<and> content_length_ok r
     \<and> smap_find (rep_headers r) ''Content-Encoding'' \<noteq> Some ''gzip'' \<and> no_rooted_links nw (rep_body r)
     \<and> length (wire r) < 2 ^ 64"

lemma smap_set_same: "smap_ok m \<Longrightarrow> smap_find m k = Some v \<Longrightarrow> smap_set k v m = m"
  by (rule std_map.entries_unique [OF smap_ok_set]) (auto simp: smap_find_set fun_eq_iff)

lemma relay_plain:
  assumes "plain_reply nw r" "location_path cfg \<noteq> []"
  shows "proxy_relay zl nw cfg r = Some (Inr r)"
proof -
  have "append_relative_uri nw (rep_body r) (location_path cfg) = Inr (rep_body r)"
    using assms by (simp add: append_relative_uri_def plain_reply_def no_rooted_links_def Let_def)
  moreover have "set_header ''Content-Length'' (to_string (length (rep_body r))) (r\<lparr>rep_body := rep_body r\<rparr>) = r"
    using assms(1) by (simp add: plain_reply_def content_length_ok_def get_header_def set_header_def smap_set_same)
  ultimately show ?thesis using assms(1) by (simp add: proxy_relay_def plain_reply_def Let_def)
qed

lemma proxy_passes_plain:
  assumes "\<And>s. trimmed s \<Longrightarrow> trim nw s = s" "plain_reply nw r" "location_path cfg \<noteq> []"
    and "net_resolve nw (proxy_dest cfg) (int_to_string (proxy_port cfg)) w = (Inr eps, w1)"
    and "net_connect nw (pick_endpoint eps) w1 = (Inr sock, w2)"
    and "net_write nw sock (proxy_request boost nw cfg req) w2 = (None, w3)"
    and "net_read nw sock w3 = ((wire r, Read_eof), w4)"
  shows "proxy_handle zl boost nw cfg req w = Some (Inr r, w4)"
proof -
  have "parse_response (trim nw) (wire r) = Inr r"
    using assms(2) by (intro parse_response_wire [OF assms(1)]) (simp_all add: plain_reply_def)
  then have "proxy_exchange boost nw cfg req w = (Inr (Relay r), w4)"
    using assms(2,4-7) by (simp add: proxy_exchange_def after_response_def plain_reply_def)
  then show ?thesis
    by (subst proxy_handle.simps) (simp add: relay_plain [OF assms(2,3)])
qed

section \<open>Properties\<close>

text \<open>
  C2. A configured request is served: take the table that \<open>main\<close> builds from a configuration file whose
  locations are plain (with a block, filed under their own path: no \<open>BadRequestHandler\<close> but at
  \<open>/badrequest\<close>, no \<open>NotFoundHandler\<close> but at \<open>/\<close>), any
  state the server can reach with it, and any connection whose read is pending. When well-formed
  request text arrives, the handler of the location whose path is the longest prefix of the target
  answers it: the step that takes the read over leaves exactly the serialised reply handed to the
  socket, the session writing with the value 0, and the reply's code recorded under the target; no
  other session changes.
\<close>

theorem configured_request_served:
  assumes "config_ok config" "get_config ''port'' config = to_string n" "n < 65536"
    and "list_all server_ok config" "locations_match (env svc) (server_locations config) rows" "length rows < 2 ^ 64"
    and "open_file conf = Some (config_to_string d config)"
    and "server_main cores (env svc) bind open_file [prog, conf] = (started, Serve threads hs st)"
    and "boost_replace (replace_all (env svc))" "blank_session s0"
    and "reachable svc (new_server hs st w s0) (Running sv)"
    and "i < length (sessions sv)" "sessions sv ! i = (s, Reading)"
    and "request_ok m u ma mi ls" "bytes = request_text m u ma mi ls @ body" "body = [] \<or> (\<exists>b. body = b @ crlf)"
    and "length bytes \<le> max_length" "NUL \<in> set (drop (length bytes) (data_buf s))"
    and "route (map_of (map (\<lambda>(path, h, label). (path, h)) rows)) (strip_slashes u) (length (strip_slashes u)) = Some (Some h)"
    and "handle_request (lib svc) (env svc) (net svc) (db_uri svc) h (received_request (receive bytes s) u ma mi ls)
           (count_request (process sv)) = Some (Inr r, q)"
  shows "\<exists>s'. server_step svc (Running sv)
      (Running (sv\<lparr>sessions := (sessions sv)[i := (s', Writing 0)], process := record_code u r q\<rparr>))
    \<and> sent s' = [concat (to_buffers r)]"
proof -
  note table = main_table [OF assms(1-8)]
  have "server_inv sv"
    using reachable_inv [OF assms(11,9) new_server_inv [OF assms(10) table(2)]] by simp
  with assms(12,13) have ok: "session_ok (s, Reading)" by (metis list_all_length server_inv_def)
  have hs: "table sv = hs"
    using reachable_table [OF assms(11)] by (simp add: new_server_def start_accept_def)
  let ?req = "received_request (receive bytes s) u ma mi ls"
  have "req_uri ?req = u"
    using blank_received_text(1) [OF ok assms(17)] by (simp add: received_request_def parsed_request_def fresh_def)
  then have "dispatch (table sv) ?req = Some h"
    using assms(19) by (simp add: dispatch_def match_loop_route hs table(1))
  then obtain s' where s': "handle_read svc (table sv) None (length bytes) (receive bytes s) (process sv) =
      Some (Inr (0, s', record_code u r q))" "sent s' = [wire r]"
    using read_answers [OF ok, of m u ma mi ls body "table sv" h svc "process sv" r q] assms(14-18,20) by auto
  then show ?thesis
    using read_done [OF assms(12,13,17), of svc None] by (auto simp: after_read_def wire_def)
qed

text \<open>A server on which one connection has been accepted, and its request.\<close>

definition first_connection :: "handlers \<Rightarrow> statistics \<Rightarrow> string server" where
  "first_connection hs st = handle_accept None None blank_sample blank_sample
     ((new_server hs st [] blank_sample)\<lparr>accepting := None\<rparr>)"

lemma first_connection_reachable:
  "reachable svc (new_server hs st [] blank_sample) (Running (first_connection hs st))"
  unfolding first_connection_def
  by (rule step [OF start accepted [OF _ blank_sample]]) (simp add: new_server_def start_accept_def)

lemma first_connection_sessions: "sessions (first_connection hs st) = [(blank_sample\<lparr>remote := None\<rparr>, Reading)]"
  by (simp add: first_connection_def handle_accept_def start_accept_def start_session_def new_server_def)

lemma sample_main:
  "\<exists>j hs st. server_main 4 (env sample_services) (\<lambda>port. True) (\<lambda>f. Some (config_to_string 0 sample_config)) [[], []]
     = (j, Serve 4 hs st)"
  using get_port_printed [OF sample_config_printed, of "[]" 0]
    dispatcher_built [OF sample_config_match, of "env sample_services"]
  by (auto simp: server_main_def run_server_def sint_i16_small)

theorem configured_request_served_witness:
  "\<exists>j hs st s' q. server_main 4 (env sample_services) (\<lambda>port. True) (\<lambda>f. Some (config_to_string 0 sample_config)) [[], []]
        = (j, Serve 4 hs st)
    \<and> server_step sample_services (Running (first_connection hs st))
        (Running ((first_connection hs st)\<lparr>sessions := [(s', Writing 0)], process := q\<rparr>))
    \<and> codes_of (stats q) ''/other'' = [404]"
proof -
  obtain j hs st where main: "server_main 4 (env sample_services) (\<lambda>port. True)
      (\<lambda>f. Some (config_to_string 0 sample_config)) [[], []] = (j, Serve 4 hs st)"
    using sample_main by blast
  let ?t = "request_text ''GET'' ''/other'' ''1'' ''1'' [] @ []" and ?s = "blank_sample\<lparr>remote := None\<rparr>"
  let ?p = "process (first_connection hs st)"
  let ?r = "not_found_handle (received_request (receive ?t ?s) ''/other'' ''1'' ''1'' [])"
  have len: "length ?t < max_length"
    by (simp add: request_text_def request_line_def hlines_text_def max_length_def)
  have codes: "codes_of (stats (record_code ''/other'' ?r (count_request ?p))) ''/other'' = [404]"
  proof -
    have "request_code_received st = []"
      using main_table(2) [OF sample_config_printed _ sample_config_match _ main] by (simp add: sample_rows_def)
    moreover have "stats ?p = st"
      by (simp add: first_connection_def handle_accept_def start_accept_def start_session_def new_server_def)
    ultimately show ?thesis
      by (simp add: record_code_def not_found_handle_def Let_def) (simp add: codes_of_def)
  qed
  have "\<exists>s'. server_step sample_services (Running (first_connection hs st))
      (Running ((first_connection hs st)\<lparr>sessions := (sessions (first_connection hs st))[0 := (s', Writing 0)],
         process := record_code ''/other'' ?r (count_request ?p)\<rparr>))
    \<and> sent s' = [concat (to_buffers ?r)]"
    by (rule configured_request_served [OF sample_config_printed _ sample_config_match _ main sample_replace(2)
          blank_sample first_connection_reachable _ _ sample_other_ok, where body = "[]" and h = NotFoundHandler])
       (use len in \<open>simp_all add: first_connection_sessions blank_sample_def new_session_def sample_rows_def strip_slashes.simps\<close>)
  with main codes show ?thesis by (auto simp: first_connection_sessions)
qed

text \<open>
  C7. A proxy in front of a server of this program is transparent: the request that the proxy sends is
  read by a new session of the site and answered there by the handler for the rewritten target, and
  when what that session hands to its socket is what the proxy's socket delivers, the proxy returns
  the very reply of the site's handler, status, headers and body, provided it is no redirect, is not
  packed and holds no link to rewrite.
\<close>

theorem proxy_transparent:
  assumes "boost_replace (replace_all boost)" "\<And>s. trimmed s \<Longrightarrow> trim nw s = s" "location_path cfg \<noteq> []"
    and "\<forall>(k, v) \<in> set (req_headers req). token k \<and> field_text v" "req_method req = Some m"
    and "uri_text (proxy_uri nw cfg req)" "field_text (proxy_dest cfg)"
    and "net_resolve nw (proxy_dest cfg) (int_to_string (proxy_port cfg)) (world p) = (Inr eps, w1)"
    and "net_connect nw (pick_endpoint eps) w1 = (Inr sock, w2)"
    and "msg = proxy_request boost nw cfg req" "net_write nw sock msg w2 = (None, w3)"
    and "blank_session s" "length msg \<le> max_length" "NUL \<in> set (drop (length msg) (data_buf s))"
    and "site_request = received_request (receive msg s) (proxy_uri nw cfg req) ''1'' ''1''
           (map (\<lambda>(k, v). Field k v) (proxied_fields cfg req))"
    and "dispatch hs site_request = Some h"
    and "handle_request (lib svc) (env svc) (net svc) (db_uri svc) h site_request (count_request site) = Some (Inr r, site')"
    and "plain_reply nw r"
    and "\<And>s' x. handle_read svc hs None (length msg) (receive msg s) site = Some (Inr (0, s', x))
           \<Longrightarrow> net_read nw sock w3 = ((concat (sent s'), Read_eof), w4)"
  shows "handle_request zl boost nw uri (ReverseProxyHandler cfg) req p = Some (Inr r, p\<lparr>world := w4\<rparr>)"
proof -
  let ?ls = "map (\<lambda>(k, v). Field k v) (proxied_fields cfg req)"
  have msg: "msg = request_text (request_type (Some m)) (proxy_uri nw cfg req) ''1'' ''1'' ?ls @ []"
    using assms(4,10) by (subst append_Nil2) (auto intro: proxy_request_text [OF assms(1) _ assms(5)])
  have blank: "session_ok (s, Reading)"
    using assms(12) by (simp, intro exI [of _ s] conjI exI [of _ "remote s"]) simp_all
  obtain s' where "handle_read svc hs None (length msg) (receive msg s) site =
      Some (Inr (0, s', record_code (proxy_uri nw cfg req) r site'))" "sent s' = [wire r]"
    using read_answers [OF blank _ _ proxied_request_ok [OF assms(4,6,7), of m], of "[]" hs h svc site r site']
      assms(13-17) unfolding msg by auto
  then have "net_read nw sock w3 = ((wire r, Read_eof), w4)" using assms(19) by fastforce
  then show ?thesis
    using proxy_passes_plain [OF assms(2,18,3,8,9) _, of boost req w3 w4 zl] assms(10,11) by simp
qed

text \<open>A proxied health check: the network delivers the health handler's reply.\<close>

definition health_network :: "string network" where
  "health_network = sample_network (\<lambda>w. wire (health_handle sample_request))"

definition proxied_health :: request where
  "proxied_health = sample_request\<lparr>req_uri := ''/ucla/health''\<rparr>"

lemma health_uri: "proxy_uri health_network sample_proxy proxied_health = ''/health''"
  by (simp add: proxy_uri_def health_network_def proxied_health_def sample_defs)

lemma health_fields:
  "proxied_fields sample_proxy proxied_health = [(''Host'', ''ucla.edu''), (''Connection'', ''close''), (''X'', ''b'')]"
  by (simp add: proxied_fields_def forwarded_def proxied_health_def sample_defs)

lemma health_headers: "\<forall>(k, v) \<in> set (req_headers proxied_health). token k \<and> field_text v"
  by (simp add: proxied_health_def sample_defs token_def bad_name_char_def is_char_def is_ctl_def is_tspecial_def
      field_text_def schar_def)

lemma health_message:
  "proxy_request sample_env health_network sample_proxy proxied_health = request_text ''GET'' ''/health'' ''1'' ''1''
     [Field ''Host'' ''ucla.edu'', Field ''Connection'' ''close'', Field ''X'' ''b'']"
proof -
  have "\<forall>(k, v) \<in> set (req_headers proxied_health). field_text v" using health_headers by auto
  then show ?thesis
    using proxy_request_text [OF sample_replace(1), of proxied_health GET_REQ health_network sample_proxy]
    by (simp add: health_uri health_fields) (simp add: proxied_health_def sample_request_def)
qed

lemma to_string_two: "to_string (Suc (Suc 0)) = ''2''"
  by code_simp

lemma health_plain: "plain_reply nw (health_handle sample_request)" if "\<forall>s p f. boost_regex nw s p f = Inr s" for nw :: "'w network"
  using that
  by (simp add: plain_reply_def no_rooted_links_def health_handle_def Let_def content_length_ok_def get_header_def
      set_header_def new_reply_def smap_ok_def less_char_def plain_header_def trimmed_def isspace_def schar_def
      wire_def to_buffers_def header_buffers_def to_string_two)

lemma health_length: "length (proxy_request sample_env health_network sample_proxy proxied_health) < max_length"
  unfolding health_message by (simp add: request_text_def request_line_def hlines_text_def max_length_def)

abbreviation health_text :: string where
  "health_text \<equiv> proxy_request sample_env health_network sample_proxy proxied_health"

definition health_at_site :: request where
  "health_at_site = received_request (receive health_text blank_sample) (proxy_uri health_network sample_proxy proxied_health)
     ''1'' ''1'' (map (\<lambda>(k, v). Field k v) (proxied_fields sample_proxy proxied_health))"

lemma health_dispatched: "dispatch sample_table health_at_site = Some HealthHandler"
  by (rule sample_dispatch)
    (simp add: health_at_site_def received_request_def parsed_request_def health_uri receive_def blank_sample_def
      new_session_def new_request_def)

lemma health_handled:
  "handle_request (lib sample_services) (env sample_services) (net sample_services) (db_uri sample_services) HealthHandler
     health_at_site p = Some (Inr (health_handle sample_request), p)"
  by (simp add: health_handle_def)

lemma blank_sample_reads: "session_ok (blank_sample, Reading)"
  using blank_sample by (simp, intro exI [of _ blank_sample] conjI exI [of _ None]) (simp_all add: blank_sample_def new_session_def)

lemma health_room: "NUL \<in> set (drop (length health_text) (data_buf blank_sample))"
  using health_length by (simp add: blank_sample_def new_session_def)

lemma health_request_ok:
  "uri_text (proxy_uri health_network sample_proxy proxied_health)" "field_text (proxy_dest sample_proxy)"
  unfolding health_uri by (simp_all add: uri_text_def field_text_def is_ctl_def schar_def sample_proxy_def)

lemma health_site_answers:
  assumes "handle_read sample_services sample_table None (length health_text) (receive health_text blank_sample) sample_process
    = Some (Inr (0, s', x))"
  shows "sent s' = [wire (health_handle sample_request)]"
proof -
  have "health_text = request_text ''GET'' (proxy_uri health_network sample_proxy proxied_health) ''1'' ''1''
      (map (\<lambda>(k, v). Field k v) (proxied_fields sample_proxy proxied_health)) @ []"
    by (simp add: health_message health_uri health_fields)
  then show ?thesis
    using read_answers [OF blank_sample_reads _ _ proxied_request_ok [OF health_headers health_request_ok, of GET_REQ],
        of "[]" sample_table HealthHandler sample_services sample_process "health_handle sample_request"
        "count_request sample_process"]
      health_length health_room assms health_dispatched health_handled [of "count_request sample_process"]
    by (auto simp: health_at_site_def)
qed

theorem proxy_transparent_witness:
  "handle_request stored sample_env health_network [] (ReverseProxyHandler sample_proxy) proxied_health sample_process
    = Some (Inr (health_handle sample_request), sample_process\<lparr>world := health_text\<rparr>)"
proof (rule proxy_transparent [OF sample_replace(1) _ _ health_headers _ health_request_ok _ _ refl _ blank_sample _
      health_room health_at_site_def health_dispatched health_handled])
  show "net_read health_network 1 health_text = ((concat (sent s'), Read_eof), health_text)"
    if "handle_read sample_services sample_table None (length health_text) (receive health_text blank_sample) sample_process
      = Some (Inr (0, s', x))" for s' x
    using health_site_answers [OF that] by (simp add: health_network_def sample_network_def)
  show "plain_reply health_network (health_handle sample_request)"
    by (rule health_plain) (simp add: health_network_def sample_network_def)
qed (use health_length in \<open>simp_all add: health_network_def sample_network_def proxied_health_def sample_request_def
  sample_proxy_def\<close>)

section \<open>A name that is too long\<close>

text \<open>
  What a file system with names of at most 255 characters tells \<open>exists\<close> about a longer name in a directory
  that is there: an error that is not one of those for a missing file, so \<open>exists\<close> throws.
\<close>

definition name_limit :: "'w environment \<Rightarrow> bool" where
  "name_limit boost \<longleftrightarrow>
     (\<forall>w dir name. fs_exists boost w dir = Inr True \<and> last dir = CHR ''/'' \<and> CHR ''/'' \<notin> set name \<and> 255 < length name \<longrightarrow>
        (\<exists>msg. fs_exists boost w (dir @ name) = Inl msg))"

text \<open>
  C29. One request for a long name ends the server: when well-formed request text for a static location
  arrives, whose target goes on with a path to a directory below the root that exists and then with a name
  of more than 255 characters (the buffer has room for 1024), the static handler throws out of its
  check whether the file exists, and \<open>handle_read\<close> lets the exception out of the completion handler.
\<close>

theorem long_name_crashes:
  assumes "fresh s" "NUL \<in> set (data_buf s)" "n \<le> max_length" "request_ok m u ma mi ls"
    and "take n (data_buf s) = request_text m u ma mi ls @ body" "body = [] \<or> (\<exists>b. body = b @ crlf)"
    and "dispatch hs (received_request s u ma mi ls) = Some (StaticHandler location root)" "static_init block = Inr root"
    and "u = location @ sub @ name" "sub = [] \<or> last sub = CHR ''/''" "CHR ''/'' \<notin> set name" "255 < length name"
    and "name_limit (env svc)" "fs_exists (env svc) (world p) (''../'' @ tl root @ sub) = Inr True"
  shows "\<exists>msg. handle_read svc hs None n s p = Some (Inl (RuntimeError msg))"
proof -
  let ?req = "received_request s u ma mi ls" and ?dir = "''../'' @ tl root @ sub"
  obtain r where root: "root = r @ ''/''" using static_init_slash [OF assms(8)] by blast
  have "last ?dir = CHR ''/''" using root assms(10) by (cases r) auto
  then obtain msg where msg: "fs_exists (env svc) (world p) (?dir @ name) = Inl msg"
    using assms(11-14) unfolding name_limit_def by blast
  have "req_uri ?req = u"
    using assms(1) by (simp add: received_request_def parsed_request_def fresh_def)
  moreover have "root \<noteq> []" using root by simp
  ultimately have path: "static_path location root (req_uri ?req) = ?dir @ name"
    using static_path_prefix [of root location "sub @ name"] by (simp add: assms(9))
  have "static_handle (env svc) (world p) location root ?req = Inl (RuntimeError msg)"
    by (simp add: static_handle_def regular_file_def path Let_def msg [simplified])
  then show ?thesis
    using read_good [OF assms(1-6)] assms(7)
    by (subst handle_read.simps) (simp add: Let_def answer_good_def make_reply_def count_request_def)
qed

definition short_names :: "(string, string) services" where
  "short_names = sample_services\<lparr>env := sample_env\<lparr>fs_exists :=
     (\<lambda>w f. if 255 < length f then Inl ''File name too long'' else Inr True)\<rparr>\<rparr>"

theorem long_name_crashes_witness:
  "\<exists>msg. handle_read short_names [(''/static'', Some (StaticHandler ''/static'' ''/data/''))] None
      (length (request_text ''GET'' (''/static/'' @ replicate 256 (CHR ''a'')) ''1'' ''1'' []))
      (sample_session (request_text ''GET'' (''/static/'' @ replicate 256 (CHR ''a'')) ''1'' ''1'' [])) sample_process
    = Some (Inl (RuntimeError msg))"
proof -
  let ?name = "replicate 256 (CHR ''a'')"
  let ?u = "''/static/'' @ ?name" and ?hs = "[(''/static'', Some (StaticHandler ''/static'' ''/data/''))] :: handlers"
  let ?t = "request_text ''GET'' ?u ''1'' ''1'' []"
  have len: "length ?t < max_length"
    by (simp add: request_text_def request_line_def hlines_text_def max_length_def)
  have ok: "request_ok ''GET'' ?u ''1'' ''1'' []"
    by (simp add: request_ok_def token_def bad_name_char_def is_char_def is_ctl_def is_tspecial_def
        schar_def uri_text_def digits_def isdigit_def)
  have uri: "req_uri (received_request (sample_session ?t) ?u ''1'' ''1'' []) = ?u"
    by (simp add: received_request_def parsed_request_def sample_session_def new_session_def new_request_def)
  have "last ?u = CHR ''a''" by simp
  then have "strip_slashes ?u = ?u" by (subst strip_slashes.simps) simp
  then have "dispatch ?hs r = Some (StaticHandler ''/static'' ''/data/'')" if "req_uri r = ?u" for r
    using that by (simp add: dispatch_def)
  from this [OF uri] have dispatch: "dispatch ?hs (received_request (sample_session ?t) ?u ''1'' ''1'' []) =
      Some (StaticHandler ''/static'' ''/data/'')" .
  have root: "static_init [Statement [''root'', ''/data''] None] = Inr ''/data/''" by (simp add: static_init_def)
  have "name_limit (env short_names)" "fs_exists (env short_names) (world sample_process) (''../'' @ tl ''/data/'' @ ''/'') = Inr True"
    by (simp_all add: name_limit_def short_names_def)
  then show ?thesis
    using len by (intro long_name_crashes [OF _ _ _ ok _ _ dispatch root, where body = "[]" and sub = "''/''" and name = ?name])
      (simp_all add: sample_fresh sample_text)
qed

end
