(* ===== verification/Threads.thy ===== *)
theory Threads
  imports Server
begin

text \<open>
  The counter of requests under the threads of \<open>server::run\<close> (\<open>src/server.cc\<close>). Every call of
  \<open>handle_read\<close> begins with \<open>num_requests++\<close> (\<open>src/session.cc\<close>) on a static \<open>size_t\<close> that no lock
  protects. Here the increment is what the machine does, a load and a store, and the threads take
  turns in any order; the step relation of the server, in which handlers do not overlap, is the case
  where nobody comes between the two. (For the C++ standard the race is undefined behaviour; this is
  the mildest reading of it, with loads and stores that take effect one after the other.)
\<close>

section \<open>Threads that take turns\<close>

text \<open>
  \<open>registers\<close> has an entry per thread, the value loaded if it is between load and store; \<open>completed\<close>
  is how many increments have been carried out, which the code does not know.
\<close>

record counting =
  counter :: nat
  registers :: "nat option list"
  completed :: nat

definition start_threads :: "nat \<Rightarrow> counting" where
  "start_threads cores = \<lparr>counter = 0, registers = replicate cores None, completed = 0\<rparr>"

definition increment_turn :: "nat \<Rightarrow> counting \<Rightarrow> counting" where
  "increment_turn i c =
     (if length (registers c) \<le> i then c
      else case registers c ! i of
             None \<Rightarrow> c\<lparr>registers := (registers c)[i := Some (counter c)]\<rparr>
           | Some v \<Rightarrow>
               c\<lparr>counter := size_add v 1, registers := (registers c)[i := None], completed := completed c + 1\<rparr>)"

fun run_turns :: "nat list \<Rightarrow> counting \<Rightarrow> counting" where
  "run_turns [] c = c"
| "run_turns (i # turns) c = run_turns turns (increment_turn i c)"

definition between_requests :: "counting \<Rightarrow> bool" where
  "between_requests c \<longleftrightarrow> list_all (\<lambda>v. v = None) (registers c)"

lemma run_turns_append [simp]: "run_turns (turns @ js) c = run_turns js (run_turns turns c)"
  by (induction turns c rule: run_turns.induct) simp_all

section \<open>Increments that nobody interrupts\<close>

text \<open>A load and its store in a row are the increment of the session's model.\<close>

lemma turn_twice:
  assumes "i < length (registers c)" "registers c ! i = None"
  shows "run_turns [i, i] c = c\<lparr>counter := size_add (counter c) 1, completed := completed c + 1\<rparr>"
proof -
  have "(registers c)[i := None] = registers c" using assms(2) list_update_id [of "registers c" i] by simp
  then show ?thesis using assms by (simp add: increment_turn_def)
qed

lemma turn_twice_counts:
  assumes "i < length (registers c)" "registers c ! i = None" "counter c = num_requests (stats p)"
  shows "counter (run_turns [i, i] c) = num_requests (stats (count_request p))"
  unfolding turn_twice [OF assms(1,2)] using assms(3) by (simp add: count_request_def)

lemma turns_in_a_row:
  assumes "i < length (registers c)" "registers c ! i = None" "counter c + k < 2 ^ 64"
  shows "run_turns (concat (replicate k [i, i])) c = c\<lparr>counter := counter c + k, completed := completed c + k\<rparr>"
  using assms
proof (induction k arbitrary: c)
  case (Suc k)
  have "run_turns [i, i] c = c\<lparr>counter := counter c + 1, completed := completed c + 1\<rparr>"
    using turn_twice [OF Suc.prems(1,2)] Suc.prems(3) by (simp add: size_add_small)
  with Suc show ?case by simp
qed simp

section \<open>What can be lost\<close>

definition counting_ok :: "counting \<Rightarrow> bool" where
  "counting_ok c \<longleftrightarrow> counter c \<le> completed c \<and> (0 < completed c \<longrightarrow> 0 < counter c)
     \<and> (\<forall>v. Some v \<in> set (registers c) \<longrightarrow> v \<le> completed c)"

lemma increment_turn_ok:
  assumes "counting_ok c" "completed (increment_turn i c) < 2 ^ 64"
  shows "counting_ok (increment_turn i c)"
proof (cases "i < length (registers c)")
  case True
  show ?thesis
  proof (cases "registers c ! i")
    case None
    with assms True show ?thesis
      by (auto simp: increment_turn_def counting_ok_def dest: set_update_subset_insert [THEN subsetD])
  next
    case (Some v)
    then have "v \<le> completed c" using assms(1) True by (auto simp: counting_ok_def dest: nth_mem)
    with assms True Some show ?thesis
      by (auto simp: increment_turn_def counting_ok_def size_add_small
          dest: set_update_subset_insert [THEN subsetD] intro: le_SucI)
  qed
qed (use assms in \<open>simp add: increment_turn_def\<close>)

lemma completed_grows: "completed c \<le> completed (run_turns turns c)"
proof (induction turns c rule: run_turns.induct)
  case (2 i turns c)
  have "completed c \<le> completed (increment_turn i c)" by (auto simp: increment_turn_def split: option.splits)
  with 2 show ?case by simp
qed simp

lemma run_turns_ok: "counting_ok c \<Longrightarrow> completed (run_turns turns c) < 2 ^ 64 \<Longrightarrow> counting_ok (run_turns turns c)"
proof (induction turns c rule: run_turns.induct)
  case (2 i turns c)
  have "completed (increment_turn i c) < 2 ^ 64"
    using completed_grows [of "increment_turn i c" turns] "2.prems"(2) by simp
  then show ?case using 2 increment_turn_ok by simp
qed simp

text \<open>With a single thread the value it holds is the counter's, and nothing is lost.\<close>

definition alone_ok :: "counting \<Rightarrow> bool" where
  "alone_ok c \<longleftrightarrow> counter c = completed c \<and> (\<exists>v. registers c = [v] \<and> (v = None \<or> v = Some (counter c)))"

lemma run_turns_alone:
  "alone_ok c \<Longrightarrow> completed (run_turns turns c) < 2 ^ 64 \<Longrightarrow> alone_ok (run_turns turns c)"
proof (induction turns c rule: run_turns.induct)
  case (2 i turns c)
  have "completed (increment_turn i c) < 2 ^ 64"
    using completed_grows [of "increment_turn i c" turns] "2.prems"(2) by simp
  then have "alone_ok (increment_turn i c)"
    using "2.prems"(1) by (cases i) (auto simp: alone_ok_def increment_turn_def size_add_small)
  then show ?case using 2 by simp
qed simp

lemma start_threads_ok: "counting_ok (start_threads cores)" "cores = 1 \<Longrightarrow> alone_ok (start_threads cores)"
  by (simp_all add: counting_ok_def alone_ok_def start_threads_def)

text \<open>
  The schedule that keeps only \<open>k\<close> of \<open>m\<close> requests: one thread counts \<open>k - 1\<close> of them and loads the
  counter, the other counts the rest, and then the first one stores what it had loaded, plus one.
\<close>

definition losing_turns :: "nat \<Rightarrow> nat \<Rightarrow> nat list" where
  "losing_turns k m = concat (replicate (k - 1) [0, 0]) @ [0] @ concat (replicate (m - k) [1, 1]) @ [0]"

lemma losing_turns_result:
  assumes "2 \<le> cores" "0 < k" "k \<le> m" "m < 2 ^ 64"
  shows "run_turns (losing_turns k m) (start_threads cores) =
    \<lparr>counter = k, registers = replicate cores None, completed = m\<rparr>"
proof -
  let ?c1 = "\<lparr>counter = k - 1, registers = replicate cores None, completed = k - 1\<rparr>"
  have "run_turns (concat (replicate (k - 1) [0, 0])) (start_threads cores) = ?c1"
    using assms by (subst turns_in_a_row) (simp_all add: start_threads_def)
  moreover have "run_turns [0] ?c1 = ?c1\<lparr>registers := (replicate cores None)[0 := Some (k - 1)]\<rparr>"
    using assms(1) by (simp add: increment_turn_def)
  moreover have "run_turns (concat (replicate (m - k) [1, 1])) (?c1\<lparr>registers := (replicate cores None)[0 := Some (k - 1)]\<rparr>) =
      \<lparr>counter = m - 1, registers = (replicate cores None)[0 := Some (k - 1)], completed = m - 1\<rparr>"
    using assms by (subst turns_in_a_row) simp_all
  moreover have "run_turns [0] \<lparr>counter = m - 1, registers = (replicate cores None)[0 := Some (k - 1)], completed = m - 1\<rparr> =
      \<lparr>counter = k, registers = replicate cores None, completed = m\<rparr>"
    using assms list_update_id [of "replicate cores None" 0] by (simp add: increment_turn_def size_add_small)
  ultimately show ?thesis by (simp add: losing_turns_def)
qed

section \<open>Properties\<close>

text \<open>
  C19. What the counter of requests is worth: when \<open>m\<close> calls of \<open>handle_read\<close> have counted themselves
  and no thread is inside an increment, the counter is \<open>m\<close> if the server runs on one thread; on two or
  more threads every value from 1 to \<open>m\<close> can come out, depending on how they take turns, and no other.
\<close>

theorem counted_requests_range:
  assumes "0 < cores" "0 < m" "m < 2 ^ 64"
  shows "{counter c | c turns. c = run_turns turns (start_threads cores) \<and> between_requests c \<and> completed c = m}
    = (if cores = 1 then {m} else {1..m})"
proof (cases "cores = 1")
  case True
  let ?turns = "concat (replicate m [0, 0])"
  have "run_turns ?turns (start_threads cores) = (start_threads cores)\<lparr>counter := m, completed := m\<rparr>"
    using True assms(3) by (subst turns_in_a_row) (simp_all add: start_threads_def)
  then have "counter (run_turns ?turns (start_threads cores)) = m \<and> between_requests (run_turns ?turns (start_threads cores))
      \<and> completed (run_turns ?turns (start_threads cores)) = m"
    by (simp add: between_requests_def start_threads_def list_all_iff)
  moreover have "counter (run_turns turns (start_threads cores)) = m"
    if "completed (run_turns turns (start_threads cores)) = m" for turns
    using run_turns_alone [OF start_threads_ok(2) [OF True], of turns] that assms(3) by (simp add: alone_ok_def)
  ultimately show ?thesis using True by auto metis
next
  case False
  have "counter (run_turns turns (start_threads cores)) \<in> {1..m}"
    if "completed (run_turns turns (start_threads cores)) = m" for turns
    using run_turns_ok [OF start_threads_ok(1), of turns cores] that assms(2,3) by (simp add: counting_ok_def Suc_le_eq)
  moreover have "counter (run_turns (losing_turns k m) (start_threads cores)) = k
      \<and> between_requests (run_turns (losing_turns k m) (start_threads cores))
      \<and> completed (run_turns (losing_turns k m) (start_threads cores)) = m" if "k \<in> {1..m}" for k
    using losing_turns_result [of cores k m] that False assms(1,3) by (simp add: between_requests_def list_all_iff)
  ultimately have "{counter c | c turns. c = run_turns turns (start_threads cores) \<and> between_requests c \<and> completed c = m} = {1..m}"
    by auto metis
  then show ?thesis using False by simp
qed

theorem counted_requests_range_witness:
  "{counter c | c turns. c = run_turns turns (start_threads 4) \<and> between_requests c \<and> completed c = 1000} = {1..1000}"
  using counted_requests_range [of 4 1000] by simp

end
