(* ===== verification/Guest_Book.thy ===== *)
theory Guest_Book
  imports Markdown_Handler Server "HOL-Library.Multiset"
begin

text \<open>
  The Markdown page as its visitors see it: a book into which texts are written and ten of whose
  texts are listed. A book is specified as a multiset of texts, since the database does not promise to
  yield them in any order; the handler (\<open>markdown_handler.cc\<close>), the
  database behind it (\<open>db_handler.cc\<close>) and the Markdown parser implement it, for requests as the session
  parses them.
\<close>

section \<open>The book\<close>

text \<open>\<open>Submit s\<close>: the text \<open>s\<close> is sent with the form; \<open>Look\<close>: the form is asked for.\<close>

datatype visit = Submit string | Look

text \<open>The HTML of a text, and the page: the form, and a row for each of the texts that are shown.\<close>

definition html_of :: "string \<Rightarrow> string" where
  "html_of s = (case markdown_parse None s of Inr html \<Rightarrow> html | Inl e \<Rightarrow> [])"

definition book_page :: "string \<Rightarrow> string list \<Rightarrow> string" where
  "book_page form shown =
     form @ ''<div><h3>10 Recent Markdown Submissions</h3></div>'' @ ''<table><tr><th>Raw Input</th><th>Markdown</th>''
     @ concat (map (\<lambda>s. ''<tr><td>'' @ s @ ''</td><td>'' @ html_of s @ ''</td></tr>'') shown)
     @ ''</table></body></html>''"

text \<open>
  What the visitors may see one after the other, and the book they leave; line ends are stored as LF. A
  page shows ten of the texts in the book, or all of them when there are fewer, each as often as it
  is there at most; which ten, and in what order, is open.
\<close>

inductive visit_book ::
  "(string \<Rightarrow> string) \<Rightarrow> string \<Rightarrow> visit list \<Rightarrow> string multiset \<Rightarrow> string list \<Rightarrow> string multiset \<Rightarrow> bool"
  for clean form where
  closed: "visit_book clean form [] book [] book"
| submitted: "visit_book clean form vs (add_mset (clean s) book) pages left \<Longrightarrow>
    visit_book clean form (Submit s # vs) book (html_of (clean s) # pages) left"
| looked: "mset shown \<subseteq># book \<Longrightarrow> length shown = min 10 (size book) \<Longrightarrow> visit_book clean form vs book pages left \<Longrightarrow>
    visit_book clean form (Look # vs) book (book_page form shown # pages) left"

inductive_cases look_visitE: "visit_book clean form (Look # vs) book pages left"
inductive_cases submit_visitE: "visit_book clean form (Submit s # vs) book pages left"
inductive_cases no_visitE: "visit_book clean form [] book pages left"

section \<open>The requests of the visitors\<close>

text \<open>One request after the other; the bodies of the replies.\<close>

fun handle_visits ::
  "'w environment \<Rightarrow> string \<Rightarrow> request list \<Rightarrow> 'w process \<Rightarrow> (cpp_fault + string list) \<times> 'w process" where
  "handle_visits boost uri [] p = (Inr [], p)"
| "handle_visits boost uri (req # reqs) p =
     (case markdown_handle boost uri p req of
        (Inl e, p1) \<Rightarrow> (Inl e, p1)
      | (Inr r, p1) \<Rightarrow>
          (case handle_visits boost uri reqs p1 of
             (Inl e, p2) \<Rightarrow> (Inl e, p2)
           | (Inr pages, p2) \<Rightarrow> (Inr (rep_body r # pages), p2)))"

text \<open>The request that the parser makes of a visit: the text is in the target, and so in the request line.\<close>

fun visit_target :: "visit \<Rightarrow> string" where
  "visit_target (Submit s) = view_prefix @ form_encode s"
| "visit_target Look = ''/markdown''"

definition asks :: "visit \<Rightarrow> request \<Rightarrow> bool" where
  "asks v req \<longleftrightarrow> req_uri req = visit_target v \<and> length (req_body req) < 2 ^ 64
     \<and> (\<exists>m rest. CHR '' '' \<notin> set m \<and> req_body req = m @ '' '' @ visit_target v @ '' '' @ rest)"

text \<open>What a session has parsed is such a request.\<close>

lemma asks_received:
  assumes "fresh s" "NUL \<in> set (data_buf s)" "request_ok m (visit_target v) ma mi ls"
    and "take n (data_buf s) = request_text m (visit_target v) ma mi ls @ body"
  shows "asks v (received_request s (visit_target v) ma mi ls)"
proof -
  let ?u = "visit_target v" and ?c = "takeWhile (\<lambda>c. c \<noteq> NUL) (data_buf s)"
  have unb: "\<forall>l \<in> set (request_lines m ?u ma mi ls). unbroken l" by (rule request_lines_unbroken [OF assms(3)])
  have nul: "NUL \<notin> set (request_text m ?u ma mi ls)"
    using NUL_end_lines [OF unb] by (simp add: request_text_lines)
  have "data_buf s = request_text m ?u ma mi ls @ body @ drop n (data_buf s)"
    using assms(4) append_take_drop_id [of n "data_buf s"] by simp
  then obtain t where "?c = request_text m ?u ma mi ls @ t"
    using nul takeWhile_append2 [of "request_text m ?u ma mi ls" "\<lambda>c. c \<noteq> NUL" "body @ drop n (data_buf s)"]
    by (metis (mono_tags, lifting))
  then have body: "?c = m @ '' '' @ ?u @ '' '' @ (''HTTP/'' @ ma @ ''.'' @ mi @ crlf @ hlines_text ls @ crlf @ t)"
    by (simp add: request_text_def request_line_def)
  have "length ?c \<le> length (data_buf s)" by (rule length_takeWhile_le)
  then have "length ?c < 2 ^ 64" using assms(1) by (simp add: fresh_def max_length_def)
  moreover have "CHR '' '' \<notin> set m" using assms(3) by (auto simp: request_ok_def token_def parser_simps special_chars)
  ultimately show ?thesis
    using assms(1) body unfolding asks_def
    by (simp add: received_request_def parsed_request_def fresh_def) blast
qed

section \<open>The database\<close>

text \<open>
  What MongoDB and its driver promise of a collection that nobody else writes to and that can be reached:
  an acknowledged insertion adds the document, and a query without a condition yields every document
  once, in some order (there is no other promise about the order of a query that does not sort).
  \<open>docs\<close> are the \<open>md\<close> fields of the documents of a world. The form is a file that stays what it is.
\<close>

definition keeps_documents :: "'w environment \<Rightarrow> ('w \<Rightarrow> string multiset) \<Rightarrow> bool" where
  "keeps_documents boost docs \<longleftrightarrow>
     (\<forall>uri w. fst (db_open boost uri w) = None \<and> docs (snd (db_open boost uri w)) = docs w)
   \<and> (\<forall>w. fst (db_acquire boost w) = None \<and> docs (snd (db_acquire boost w)) = docs w)
   \<and> (\<forall>w md json. doc_json boost md = Some json \<longrightarrow>
        (\<exists>w'. db_insert boost ''WFH'' ''markdown'' json w = (Stored, w') \<and> docs w' = add_mset md (docs w)))
   \<and> (\<forall>w. \<exists>found w'. db_find boost ''WFH'' ''markdown'' w = ((map Some found, None), w')
        \<and> mset found = docs w \<and> docs w' = docs w)"

definition serves_form :: "'w environment \<Rightarrow> string \<Rightarrow> bool" where
  "serves_form boost form \<longleftrightarrow>
     (\<forall>w. fs_exists boost w input_form_path = Inr True \<and> fs_regular boost w input_form_path = Inr True
        \<and> fs_read boost w input_form_path = Some form)"

text \<open>A text that can be stored and rendered, and a visit that leaves only such texts.\<close>

definition storable :: "'w environment \<Rightarrow> string \<Rightarrow> bool" where
  "storable boost s \<longleftrightarrow> doc_json boost s \<noteq> None \<and> \<not> isl (markdown_parse None s)"

fun visit_ok :: "'w environment \<Rightarrow> visit \<Rightarrow> bool" where
  "visit_ok boost (Submit s) \<longleftrightarrow> NUL \<notin> set s \<and> \<not> unescaped s \<and> storable boost (replace_all boost s crlf [LF])"
| "visit_ok boost Look \<longleftrightarrow> True"


section \<open>The handler implements the book\<close>

lemma post_rows_html:
  "list_all (\<lambda>s. \<not> isl (markdown_parse None s)) posts \<Longrightarrow>
     post_rows posts = Inr (concat (map (\<lambda>s. ''<tr><td>'' @ s @ ''</td><td>'' @ html_of s @ ''</td></tr>'') posts))"
  by (induction posts) (auto simp: html_of_def split: sum.splits)

lemma opened_book:
  assumes "keeps_documents boost docs"
  shows "new_db_handler boost uri ''WFH'' ''markdown'' p
      = (Inr \<lparr>db_name = ''WFH'', collection_name = ''markdown''\<rparr>, opened boost uri p)"
    and "docs (world (opened boost uri p)) = docs (world p)"
    and "docs (world (acquired boost p)) = docs (world p)"
    and "fst (db_acquire boost w) = None"
  using assms
  by (simp_all add: keeps_documents_def new_db_handler_ok opened_def acquired_def split: option.split)

lemma look_page:
  assumes "keeps_documents boost docs" "serves_form boost form" "\<forall>s \<in># docs (world p). storable boost s"
  shows "\<exists>r q shown. create_form boost uri p req = (Inr r, q) \<and> rep_body r = book_page form shown
    \<and> mset shown \<subseteq># docs (world p) \<and> length shown = min 10 (size (docs (world p)))
    \<and> docs (world q) = docs (world p)"
proof -
  let ?h = "\<lparr>db_name = ''WFH'', collection_name = ''markdown''\<rparr>" and ?p = "opened boost uri p"
  note book = opened_book [OF assms(1)]
  obtain found w' where find: "db_find boost ''WFH'' ''markdown'' (world (acquired boost ?p)) = ((map Some found, None), w')"
    "mset found = docs (world p)" "docs w' = docs (world p)"
    using assms(1) book(2,3) unfolding keeps_documents_def by metis
  let ?shown = "drop (length found - 10) found"
  have get: "get_ten_markdowns boost ?h ?p = (Inr ?shown, (acquired boost ?p)\<lparr>world := w'\<rparr>)"
    using get_ten_ok [OF opened_pool book(4), where h = ?h and mds = found and exc = None and w = w'] find(1) by simp
  have sub: "mset ?shown \<subseteq># docs (world p)"
    using find(2) by (metis append_take_drop_id mset_append mset_subset_eq_add_right)
  have "size (docs (world p)) = length found" using find(2) by (metis size_mset)
  then have len: "length ?shown = min 10 (size (docs (world p)))" by simp
  have "list_all (\<lambda>s. \<not> isl (markdown_parse None s)) ?shown"
    using assms(3) unfolding find(2) [symmetric] by (auto simp: list_all_iff storable_def dest!: in_set_dropD)
  then have "\<exists>r. create_form boost uri p req = (Inr r, (acquired boost ?p)\<lparr>world := w'\<rparr>) \<and> rep_body r = book_page form ?shown"
    using assms(2) get
    by (simp add: create_form_def regular_file_def serves_form_def book(1) Let_def post_rows_html book_page_def)
  with sub len find(3) show ?thesis by (metis process.select_convs(1) process.surjective process.update_convs(1))
qed

lemma submit_page:
  assumes "keeps_documents boost docs" "visit_ok boost (Submit s)" "asks (Submit s) req"
  shows "\<exists>r q. view_markdown boost uri p req = (Inr r, q) \<and> rep_body r = html_of (replace_all boost s crlf [LF])
    \<and> docs (world q) = add_mset (replace_all boost s crlf [LF]) (docs (world p))"
proof -
  let ?s = "replace_all boost s crlf [LF]" and ?path = "''/markdown/view?markdown_input''"
  let ?h = "\<lparr>db_name = ''WFH'', collection_name = ''markdown''\<rparr>" and ?p = "opened boost uri p"
  note book = opened_book [OF assms(1)]
  obtain m rest where req: "CHR '' '' \<notin> set m" "length (req_body req) < 2 ^ 64"
      "req_body req = m @ '' '' @ ?path @ ''='' @ form_encode s @ '' '' @ rest"
    using assms(3) by (auto simp: asks_def view_prefix_def)
  have "CHR '' '' \<notin> set (form_encode s)" using form_encode_chars by blast
  then have "extract_input (req_body req) = Inr (form_encode s)"
    by (intro extract_input_request_line [OF req(1) _ _ _ req(3,2)]) simp_all
  then have decoded: "rbind (extract_input (req_body req)) decode_input = Inr s"
    using assms(2) by (simp add: decode_input_encoded)
  obtain json html where ok: "doc_json boost ?s = Some json" "markdown_parse None ?s = Inr html"
    using assms(2) by (cases "markdown_parse None ?s") (auto simp: storable_def)
  obtain w' where w: "db_insert boost ''WFH'' ''markdown'' json (world (acquired boost ?p)) = (Stored, w')"
    "docs w' = add_mset ?s (docs (world p))"
    using assms(1) ok(1) book(2,3) unfolding keeps_documents_def by metis
  then have "insert_markdown boost ?h ?s ?p = (Inr 0, (acquired boost ?p)\<lparr>world := w'\<rparr>)"
    using insert_markdown_ok [OF opened_pool book(4) ok(1), where h = ?h] by (simp add: insert_document_def)
  then show ?thesis
    using w(2) by (simp add: view_markdown_def decoded book(1) Let_def ok(2) html_of_def)
qed

lemma visit_handled:
  assumes "keeps_documents boost docs" "serves_form boost form" "\<forall>s \<in># docs (world p). storable boost s"
    and "visit_ok boost v" "asks v req"
  shows "\<exists>r q. markdown_handle boost uri p req = (Inr r, q)
    \<and> visit_book (\<lambda>s. replace_all boost s crlf [LF]) form [v] (docs (world p)) [rep_body r] (docs (world q))
    \<and> (\<forall>s \<in># docs (world q). storable boost s)"
proof (cases v)
  case (Submit s)
  have "req_uri req = view_prefix @ form_encode s" using assms(5) by (simp add: Submit asks_def)
  moreover have "length view_prefix = 30" "take 9 view_prefix \<noteq> ''/markdown'' \<or> length view_prefix \<noteq> 9"
    by (simp_all add: view_prefix_def)
  ultimately have "markdown_handle boost uri p req = view_markdown boost uri p req"
    by (auto simp: markdown_handle_def dest: arg_cong [of _ _ length])
  then show ?thesis
    using submit_page [OF assms(1) assms(4,5) [unfolded Submit], of uri p] assms(3,4)
    by (auto simp: Submit intro!: submitted closed)
next
  case Look
  have "markdown_handle boost uri p req = create_form boost uri p req"
    using assms(5) by (simp add: markdown_handle_def Look asks_def)
  then show ?thesis
    using look_page [OF assms(1-3), of uri req] assms(3) by (auto simp: Look intro!: looked closed)
qed

lemma visit_book_Cons:
  "visit_book clean form [v] b [page] b' \<Longrightarrow> visit_book clean form vs b' pages left \<Longrightarrow>
     visit_book clean form (v # vs) b (page # pages) left"
proof (cases v)
  case (Submit s)
  then show "visit_book clean form [v] b [page] b' \<Longrightarrow> visit_book clean form vs b' pages left \<Longrightarrow> ?thesis"
    by (auto elim!: submit_visitE no_visitE intro: submitted)
next
  case Look
  then show "visit_book clean form [v] b [page] b' \<Longrightarrow> visit_book clean form vs b' pages left \<Longrightarrow> ?thesis"
    by (auto elim!: look_visitE no_visitE intro: looked)
qed

section \<open>Properties\<close>

text \<open>
  C9. The Markdown page implements the book: when visitors send texts and ask for the form, one after
  the other in any order, each submission is answered with the HTML of the text that was typed, each
  look with the form and ten texts of the book (all of them when there are fewer), each beside its
  HTML, and the database holds at the end the texts of the book, whatever it held before. Which ten
  texts a look shows is for the database to choose: the query does not sort, so that they are the most
  recent ones, as the page says, does not follow from the code. This for texts that are not lost to the
  decoder's overflow and that the parser and the database accept, and a database that can be reached.
\<close>

theorem markdown_page_is_book:
  assumes "keeps_documents boost docs" "serves_form boost form" "\<forall>s \<in># docs (world p). storable boost s"
    and "list_all (visit_ok boost) visits" "list_all2 asks visits reqs"
  shows "\<exists>pages q. handle_visits boost uri reqs p = (Inr pages, q)
    \<and> visit_book (\<lambda>s. replace_all boost s crlf [LF]) form visits (docs (world p)) pages (docs (world q))"
  using assms(5,3,4)
proof (induction visits reqs arbitrary: p rule: list_all2_induct)
  case Nil
  then show ?case by (simp add: closed)
next
  case (Cons v visits req reqs)
  from visit_handled [OF assms(1,2) Cons.prems(1) _ Cons.hyps(1), of uri] Cons.prems(2) obtain r p1 where
    r: "markdown_handle boost uri p req = (Inr r, p1)" "\<forall>s \<in># docs (world p1). storable boost s"
      "visit_book (\<lambda>s. replace_all boost s crlf [LF]) form [v] (docs (world p)) [rep_body r] (docs (world p1))"
    by auto
  from Cons.IH [OF r(2)] Cons.prems(2) obtain pages q where
    q: "handle_visits boost uri reqs p1 = (Inr pages, q)"
    "visit_book (\<lambda>s. replace_all boost s crlf [LF]) form visits (docs (world p1)) pages (docs (world q))"
    by auto
  from visit_book_Cons [OF r(3) q(2)] r(1) q(1) show ?case by simp
qed

text \<open>A database that yields its texts backwards, and the requests of a browser.\<close>

definition list_environment :: "string list environment" where
  "list_environment = \<lparr>replace_all = replace_ref, fs_exists = (\<lambda>w f. Inr True), fs_regular = (\<lambda>w f. Inr True),
     fs_read = (\<lambda>w f. Some ''form''), db_open = (\<lambda>u w. (None, w)), db_acquire = (\<lambda>w. (None, w)), doc_json = Some,
     db_insert = (\<lambda>d c s w. (Stored, w @ [s])), db_find = (\<lambda>d c w. ((map Some (rev w), None), w))\<rparr>"

definition visit_request :: "visit \<Rightarrow> request" where
  "visit_request v = (new_request (Some GET_REQ) 1 1)\<lparr>req_uri := visit_target v,
     req_body := ''GET '' @ visit_target v @ '' HTTP/1.1'' @ crlf @ crlf\<rparr>"

lemma visit_request_asks:
  assumes "length (visit_target v) < 2 ^ 63"
  shows "asks v (visit_request v)"
proof -
  have "req_body (visit_request v) = ''GET'' @ '' '' @ visit_target v @ '' '' @ ''HTTP/1.1'' @ crlf @ crlf"
    by (simp add: visit_request_def)
  then show ?thesis
    using assms unfolding asks_def
    by (intro conjI exI [of _ "''GET''"] exI [of _ "''HTTP/1.1'' @ crlf @ crlf"]) (simp_all add: visit_request_def)
qed

theorem markdown_page_is_book_witness:
  "\<exists>q. handle_visits list_environment ''u'' [visit_request (Submit ''# hi''), visit_request Look]
       \<lparr>world = [], client_pool = None, stats = new_statistics\<rparr>
     = (Inr [''<h1>hi</h1>'', ''form<div><h3>10 Recent Markdown Submissions</h3></div><table><tr><th>Raw Input</th>''
          @ ''<th>Markdown</th><tr><td># hi</td><td><h1>hi</h1></td></tr></table></body></html>''], q)
     \<and> mset (world q) = {#''# hi''#}"
proof -
  let ?p = "\<lparr>world = [] :: string list, client_pool = None, stats = new_statistics\<rparr>"
  have parse: "markdown_parse None ''# hi'' = Inr ''<h1>hi</h1>''" by code_simp
  have enc: "form_encode ''# hi'' = ''%23+hi''" "\<not> unescaped ''# hi''" by code_simp+
  have clean: "replace_ref ''# hi'' crlf [LF] = ''# hi''" by code_simp
  have "keeps_documents list_environment mset" "serves_form list_environment ''form''"
    by (simp_all add: keeps_documents_def serves_form_def list_environment_def)
  moreover have "list_all (visit_ok list_environment) [Submit ''# hi'', Look]"
    using enc clean by (simp add: list_environment_def storable_def parse)
  moreover have "list_all2 asks [Submit ''# hi'', Look] [visit_request (Submit ''# hi''), visit_request Look]"
    by (simp add: visit_request_asks enc view_prefix_def)
  ultimately obtain pages q where run:
    "handle_visits list_environment ''u'' [visit_request (Submit ''# hi''), visit_request Look] ?p = (Inr pages, q)"
    "visit_book (\<lambda>s. replace_ref s crlf [LF]) ''form'' [Submit ''# hi'', Look] {#} pages (mset (world q))"
    using markdown_page_is_book [of list_environment mset "''form''" ?p "[Submit ''# hi'', Look]"
        "[visit_request (Submit ''# hi''), visit_request Look]" "''u''"]
    by (auto simp: list_environment_def)
  from run(2) obtain shown where "mset shown \<subseteq># {#''# hi''#}" "length shown = min 10 (size {#''# hi''#})"
    "pages = [''<h1>hi</h1>'', book_page ''form'' shown]" "mset (world q) = {#''# hi''#}"
    by (auto elim!: submit_visitE look_visitE no_visitE simp: clean html_of_def parse)
  moreover from this(1,2) have "shown = [''# hi'']"
    by (cases shown) auto
  ultimately show ?thesis
    using run(1) by (simp add: book_page_def html_of_def parse)
qed

end
