(* ===== verification/Spec2Isabelle.thy ===== *)
theory Spec2Isabelle
  imports Prelude Http Request_Parser Nginx_Config Regex Line_Parsers Inline_Markup Markdown
    Markdown_Document Rich_Document
    Environment Simple_Handlers Static_Handler Static_Paths Status_Handler Db Markdown_Handler Gzip Reverse_Proxy
    Dispatcher Logger Session Overlap Server Concurrent_Server End_To_End Threads Guest_Book
begin

text \<open>
  A verification library for the WorkFromHome web server, a C++ program over Boost.Asio. This theory
  only collects the others; it says what they model and what they show.

  \<^bold>\<open>The program.\<close> \<open>src/server_main.cc\<close> reads a configuration (\<open>src/config_parser\<close>), opens a port and
  builds a \<open>server\<close> (\<open>src/server.cc\<close>), whose dispatcher (\<open>src/request_handler/dispatcher.cc\<close>) makes one
  handler for each location of the configuration. Every accepted connection is a \<open>session\<close>
  (\<open>src/session.cc\<close>): it reads once into a buffer of 1024 bytes, feeds the request parser
  (\<open>src/http/request_parser.cc\<close>), asks the dispatcher for a handler by longest prefix, and writes the
  reply (\<open>src/http/reply.cc\<close>) the handler returns. The handlers are fixed pages, echo, redirect, static
  files, a status page over the counters of the dispatcher, a Markdown page (\<open>include/maddy\<close>) with a
  database (\<open>src/db\<close>), and a reverse proxy with gzip (\<open>include/gzip\<close>).

  \<^bold>\<open>The theories.\<close>
  \<^item> \<open>Prelude\<close>: what the code uses of C++: faults as values (\<open>cpp_fault\<close>, \<open>rbind\<close>), \<open>std::string\<close> searches
    and \<open>substr\<close> with \<open>size_t\<close> arithmetic, \<open>std::map\<close> as a sorted association list, numbers and their
    decimal text; the locales \<open>ordered_map\<close> (laws of the map, interpreted on that list) and
    \<open>boost_replace\<close> (what \<open>boost::replace_all\<close> promises, interpreted on a reference implementation).
  \<^item> \<open>Http\<close>: requests, replies, status lines, serialisation, stock replies; the locale \<open>framed_reply\<close> (a
    reply announces the length of its body), interpreted on the stock replies and on the handlers.
  \<^item> \<open>Request_Parser\<close>: \<open>consume\<close>, state by state, and \<open>parse\<close> on the buffer, with a grammar of requests
    and the equivalence of the two.
  \<^item> \<open>Nginx_Config\<close>: tokenizer, block stack, printing, \<open>GetConfig\<close>, \<open>GetPort\<close>.
  \<^item> \<open>Regex\<close>, \<open>Line_Parsers\<close>, \<open>Markdown\<close>: a backtracking matcher for the ECMAScript patterns in use, the
    inline rewritings (locale \<open>line_parser\<close>: a line without the trigger character is left alone), and
    the ten block parsers (a record of the virtual methods for each class) with the driver
    \<open>Parser::Parse\<close>. \<open>Markdown_Document\<close>: documents as trees of blocks, the text that spells them out and
    the HTML they stand for, and that the parser takes the one to the other. \<open>Inline_Markup\<close>: a line as a
    list of elements (text, images, links, marked spans, inline code), and that the eight rewritings
    of \<open>runLineParser\<close> one after the other (locale \<open>inline_pass\<close>, interpreted on each of them) turn every
    element into its own HTML. \<open>Rich_Document\<close>: both together, documents whose paragraphs hold inline
    markup.
  \<^item> \<open>Environment\<close>: the process: the dispatcher's static members, the pool, and the outside world as
    parameters (\<open>boost::replace_all\<close>, the file system, the database driver).
  \<^item> \<open>Simple_Handlers\<close>, \<open>Static_Handler\<close>, \<open>Status_Handler\<close>, \<open>Db\<close>, \<open>Markdown_Handler\<close>: the handlers.
    \<open>Static_Paths\<close>: the paths of the static handler, resolved name by name as a file system does.
  \<^item> \<open>Gzip\<close>: the chunk loops around zlib; \<open>Reverse_Proxy\<close>: the request sent on, the response read, the
    redirects followed, the body rewritten.
  \<^item> \<open>Dispatcher\<close>: \<open>createHandler\<close>, the constructor, \<open>dispatch\<close>, and the virtual call of a handler, with
    the contract of a handler as the locales \<open>request_handler\<close> (the statistics stay what they were) and
    \<open>prompt_handler\<close> (it returns), interpreted on that call.
  \<^item> \<open>Logger\<close>: the records that are logged. \<open>Session\<close>: \<open>handle_read\<close> and \<open>handle_write\<close> with the journal of
    the session. \<open>Server\<close>: \<open>main\<close>, \<open>run\<close>, the constructor, and the completion handlers as the steps of an
    \<open>inductive\<close> relation.
  \<^item> \<open>End_To_End\<close>: a request from the configuration file to the bytes of its reply, and a reverse proxy
    in front of another server of this program; a request whose file name is too long. \<open>Guest_Book\<close>: the
    Markdown page over its database as a book (a multiset) of texts, in whatever order the database
    lists it. \<open>Threads\<close>: the counter of requests when the threads of
    \<open>run\<close> overlap, as interleavings of their loads and stores. \<open>Overlap\<close>: the calls of \<open>handle_read\<close> of
    several sessions, cut into pieces that take turns. \<open>Concurrent_Server\<close>: the step relation of \<open>Server\<close>
    with any number of such calls under way, of which the runs of \<open>Server\<close> are the special case.

  \<^bold>\<open>How the code is rendered.\<close> A function that can throw or run into undefined behaviour returns
  \<open>cpp_fault + 'a\<close>; one that can run for ever is a \<open>partial_function\<close> with an optional result, where
  \<open>None\<close> is not returning (\<open>compress_loop\<close>, \<open>decompress_loop\<close>, \<open>proxy_handle\<close>, \<open>handle_read\<close>). All other
  loops are total recursive functions, so their termination is proved with their definition; no fuel
  is used. \<open>size_t\<close> values wrap at \<open>2^64\<close> (\<open>size_add\<close>, \<open>size_sub\<close>), the counters of the table parser at
  \<open>2^32\<close>; version numbers are 32-bit words and the port a 16-bit word. Uninitialised memory (the
  session's buffer, the method of an unknown request) is a free variable of the statements.
  In two places undefined behaviour is rendered as what the compiled program does: an overflow of the
  version numbers wraps around (\<open>version_digit\<close>), and the call of \<open>Parse\<close> through the pointer that
  \<open>GetPort\<close> never sets is a call that works, since \<open>Parse\<close> is not virtual and uses no member (\<open>get_port\<close>).
  Parameters that stand for other people's code are zlib (record \<open>zlib\<close>), sockets, resolver and
  \<open>boost::regex\<close> (record \<open>network\<close>), the file system, the driver and \<open>boost::replace_all\<close> (record
  \<open>environment\<close>). Their exceptions are values too: the checks of \<open>boost::filesystem\<close> can throw
  (\<open>regular_file\<close>), and so can the constructors of the driver's URI and pool and \<open>acquire\<close> (\<open>driver_call\<close>).
  Hypotheses about them state their documented behaviour: \<open>boost_replace\<close> for
  replacement, \<open>drains\<close>, \<open>never_fails\<close> and \<open>idles\<close> for sound zlib streams, \<open>keeps_documents\<close> for the
  collection of the database (a query yields the documents that were stored, in an order of its own),
  \<open>name_limit\<close> for the longest name of a file system, \<open>answers\<close> for a site that always answers alike, \<open>no_rooted_links\<close> for a text in which the proxy's patterns do not occur.

  \<^bold>\<open>What is shown.\<close>
  \<^item> Requests: the state machine accepts exactly the grammar, and leaves the request that was written
    down; header values, buffers and methods are as the reader expects.
  \<^item> Sessions: a well-formed request is parsed, routed, handled, answered with exactly the serialised
    reply, and recorded; \<open>handle_read\<close> always returns unless a handler hangs; the branches on which it
    throws, overflows its buffer, or refuses a sound request are characterised.
  \<^item> The server: every reachable state keeps an invariant (one reply per answered connection, the
    recorded codes match the answers), and every step refines an abstract board with one entry for
    each connection, on which an answer is one reply and the code of that reply, recorded for the
    target that was asked for; \<open>main\<close> serves the table its configuration describes.
  \<^item> The whole: with the table built from a configuration file, in every reachable state, a request is
    answered by the handler of its longest location; a proxy in front of a server of this program
    returns the replies of that server unchanged; the Markdown page implements a book of texts, of
    which it lists ten (or all) with their HTML; what a request leaves in the log is known.
  \<^item> Threads: the counter of \<open>m\<close> requests can come out as any number from 1 to \<open>m\<close>; recorded codes can be
    lost when two threads record for the same target, but none is made up, and every connection still
    gets one reply; the replies of handlers that keep to themselves are the same however the threads
    take turns, and every call that is given enough turns returns.
  \<^item> Dispatching: longest-prefix search, and the first location of a path wins when every handler is
    filed under its own path; the one kind of handler that is not, and what it does to the table;
    handlers announce the length of what they send.
  \<^item> The proxy sends requests that this server's parser accepts and reads replies that this server
    writes; in front of a site that answers alike it follows redirects to their end and hangs
    exactly on a cycle of two or more targets. Compression and decompression are inverse and
    chunking is invisible.
  \<^item> Configuration: parsing undoes printing, the parser is total and safe, the port is what was
    written up to the width of a \<open>short\<close>.
  \<^item> Static files: without \<open>..\<close> a request stays inside the root directory, with it every file of the
    machine can be named. A name that the file system cannot look up ends the server.
  \<^item> Markdown: total, with one kind of fault; every document of headings, rules, code, paragraphs,
    nested lists, check lists, tables and quotes is translated block by block, and the lines of
    paragraphs and quotes element by element.

  \<^bold>\<open>Not modelled.\<close> The mutex of the logger, and what Boost.Log does with a record. Completion handlers that
  overlap are modelled for \<open>handle_read\<close> only (\<open>Overlap\<close>, \<open>Threads\<close>, \<open>Concurrent_Server\<close>), with accesses to the dispatcher's static
  members that take effect one after the other: an increment is a load and a store, and so is a
  \<open>push_back\<close> onto the received codes, which is the mildest reading of the race. The step relation of \<open>Server\<close> covers the executions in which no two handlers overlap,
  that of \<open>Concurrent_Server\<close> those in which reads do; both take a handler's \<open>HandleRequest\<close> as one step. That the
  race on the map of received codes can corrupt memory is not modelled, nor the overlap of handlers
  that look at what requests share (the status page, the Markdown page, the proxy). The set-up of the signal handler, the acceptor and the threads themselves, and failures to
  create a thread. The records that handlers, the parser and the configuration log on their way: the
  journals hold what \<open>main\<close>, \<open>run\<close>, \<open>handle_accept\<close> and the sessions log. \<open>Clear\<close> and the destructor of
  \<open>BlockParser\<close>, which the program does not call on its own, and the macros of \<open>gzip/config.h\<close>. Tests,
  scripts, container files and static data hold no logic of the server.
\<close>

end
